(* ===== verification/Tcd_Prelude.thy ===== *)
theory Tcd_Prelude
  imports Main "HOL-Library.AList" "HOL-Library.Word" "HOL-Library.Monad_Syntax"
    "HOL-Library.Multiset"
begin

text \<open>
  Shared ground of the development: Go's basic types (instants, durations, errors, maps),
  runs of labelled step functions, and the locales that state what an invariant, a
  decreasing weight and progress give for such runs.
\<close>

section \<open>Collections of facts\<close>

named_theorems frame_simps "fields an operation leaves alone"
named_theorems op_defs "definitions of the operations, for unfolding together"

section \<open>Time\<close>

text \<open>
  An instant (\<^verbatim>\<open>time.Time\<close>) is the number of nanoseconds since Go's zero time,
  so that \<^verbatim>\<open>IsZero\<close> is the test for 0. A duration is a number of nanoseconds in the
  range of \<^verbatim>\<open>int64\<close>; \<^verbatim>\<open>Time.Sub\<close> saturates at the ends of that range.
\<close>

type_synonym go_time = int
type_synonym duration = int

abbreviation time_Millisecond :: duration where "time_Millisecond \<equiv> 1000000"
abbreviation time_Second :: duration where "time_Second \<equiv> 1000000000"
abbreviation time_Minute :: duration where "time_Minute \<equiv> 60000000000"

abbreviation max_Duration :: duration where "max_Duration \<equiv> 9223372036854775807"
abbreviation min_Duration :: duration where "min_Duration \<equiv> -9223372036854775808"

definition time_IsZero :: "go_time \<Rightarrow> bool" where
  "time_IsZero t \<longleftrightarrow> t = 0"

definition time_Add :: "go_time \<Rightarrow> duration \<Rightarrow> go_time" where
  "time_Add t d = t + d"

definition time_After :: "go_time \<Rightarrow> go_time \<Rightarrow> bool" where
  "time_After t u \<longleftrightarrow> u < t"

definition time_Sub :: "go_time \<Rightarrow> go_time \<Rightarrow> duration" where
  "time_Sub t u = max min_Duration (min max_Duration (t - u))"

lemma time_Sub_ge:
  "d \<le> max_Duration \<Longrightarrow> min_Duration < d \<Longrightarrow> d \<le> time_Sub t u \<longleftrightarrow> d \<le> t - u"
  by (auto simp: time_Sub_def)

section \<open>Errors\<close>

text \<open>
  An \<^verbatim>\<open>error\<close> value is a new error with its text, one of the standard library's sentinel
  errors, or an error that \<^verbatim>\<open>fmt.Errorf\<close> made with \<open>%w\<close>, which keeps its own text and the
  error it wraps. A call that may fail returns a value of the sum \<open>go_error + 'a\<close>; where Go's
  pair \<open>(value, err)\<close> matters as a pair, the error is an option (\<^verbatim>\<open>nil\<close> is \<open>None\<close>).
\<close>

datatype sentinel = ErrExist | ErrNotExist | ErrServerClosed | ErrCanceled | ErrDeadlineExceeded

datatype go_error =
    ErrorNew string
  | ErrorSentinel sentinel
  | ErrorWrap string go_error

fun sentinel_text :: "sentinel \<Rightarrow> string" where
  "sentinel_text ErrExist = ''file already exists''"
| "sentinel_text ErrNotExist = ''file does not exist''"
| "sentinel_text ErrServerClosed = ''http: Server closed''"
| "sentinel_text ErrCanceled = ''context canceled''"
| "sentinel_text ErrDeadlineExceeded = ''context deadline exceeded''"

fun error_text :: "go_error \<Rightarrow> string" where
  "error_text (ErrorNew s) = s"
| "error_text (ErrorSentinel k) = sentinel_text k"
| "error_text (ErrorWrap s e) = s"

fun errors_Is :: "go_error \<Rightarrow> go_error \<Rightarrow> bool" where
  "errors_Is (ErrorWrap s e) t = (ErrorWrap s e = t \<or> errors_Is e t)"
| "errors_Is e t = (e = t)"

text \<open>\<open>errorf_w pre e post\<close> is \<^verbatim>\<open>fmt.Errorf(pre + "%w" + post, e)\<close>.\<close>

definition errorf_w :: "string \<Rightarrow> go_error \<Rightarrow> string \<Rightarrow> go_error" where
  "errorf_w pre e post = ErrorWrap (pre @ error_text e @ post) e"

text \<open>The first error of a loop wins, later ones are dropped.\<close>

definition first_error :: "go_error option \<Rightarrow> go_error option \<Rightarrow> go_error option" where
  "first_error firstErr err = (if err \<noteq> None \<and> firstErr = None then err else firstErr)"

lemma errors_Is_errorf_w [simp]: "errors_Is e t \<Longrightarrow> errors_Is (errorf_w pre e post) t"
  by (simp add: errorf_w_def)

lemma first_error_simps [simp]:
  "first_error (Some e) r = Some e"
  "first_error None r = r"
  "first_error r None = r"
  by (auto simp: first_error_def)

section \<open>Go maps\<close>

text \<open>
  A Go map is an association list with distinct keys. The order of the list stands for the
  unspecified order of a \<^verbatim>\<open>range\<close> loop; the facts proved about such loops do not depend on it.
\<close>

type_synonym ('k, 'v) gomap = "('k \<times> 'v) list"

definition gomap_ok :: "('k, 'v) gomap \<Rightarrow> bool" where
  "gomap_ok m \<longleftrightarrow> distinct (map fst m)"

lemma gomap_ok_Nil [simp]: "gomap_ok []"
  by (simp add: gomap_ok_def)

lemma gomap_ok_update [simp]: "gomap_ok m \<Longrightarrow> gomap_ok (AList.update k v m)"
  by (simp add: gomap_ok_def distinct_update)

lemma gomap_ok_delete [simp]: "gomap_ok m \<Longrightarrow> gomap_ok (AList.delete k m)"
  by (simp add: gomap_ok_def distinct_delete)

lemma gomap_ok_filter [simp]: "gomap_ok m \<Longrightarrow> gomap_ok (filter P m)"
  by (auto simp: gomap_ok_def distinct_map inj_on_def)

lemma update_new_key: "map_of m k = None \<Longrightarrow> AList.update k v m = m @ [(k, v)]"
  by (induction m) (auto split: if_splits)

lemma gomap_ok_snoc [simp]: "map_of m k = None \<Longrightarrow> gomap_ok (m @ [(k, v)]) \<longleftrightarrow> gomap_ok m"
  by (auto simp: gomap_ok_def map_of_eq_None_iff)

lemma delete_unknown [simp]: "map_of m k = None \<Longrightarrow> AList.delete k m = m"
  by (simp add: map_of_eq_None_iff delete_id)

lemma mset_values_delete:
  "gomap_ok m \<Longrightarrow> map_of m k = Some v \<Longrightarrow>
   mset (map snd m) = add_mset v (mset (map snd (AList.delete k m)))"
proof (induction m)
  case (Cons p m)
  show ?case
  proof (cases "fst p = k")
    case True
    with Cons.prems have "AList.delete k m = m" "snd p = v"
      by (auto simp: gomap_ok_def delete_id)
    with True show ?thesis by (cases p) simp
  next
    case False
    with Cons show ?thesis by (cases p) (simp add: gomap_ok_def)
  qed
qed simp

lemma map_of_filter_gomap:
  "gomap_ok m \<Longrightarrow>
   map_of (filter (\<lambda>(k, v). P v) m) k = (case map_of m k of None \<Rightarrow> None | Some v \<Rightarrow> if P v then Some v else None)"
  by (induction m) (auto simp: gomap_ok_def map_of_eq_None_iff split: option.splits dest: map_of_SomeD)

lemma delete_commute_filter:
  "filter P (AList.delete k m) = AList.delete k (filter P m)"
  by (simp add: AList.delete_eq filter_filter conj_commute)

section \<open>The present elements of a list of options\<close>

fun somes :: "'a option list \<Rightarrow> 'a list" where
  "somes [] = []"
| "somes (None # xs) = somes xs"
| "somes (Some x # xs) = x # somes xs"

lemma somes_append [simp]: "somes (xs @ ys) = somes xs @ somes ys"
  by (induction xs rule: somes.induct) auto

lemma somes_rev [simp]: "somes (rev xs) = rev (somes xs)"
  by (induction xs rule: somes.induct) auto

lemma set_somes [simp]: "x \<in> set (somes xs) \<longleftrightarrow> Some x \<in> set xs"
  by (induction xs rule: somes.induct) auto

section \<open>Sums over the workers of a pool\<close>

lemma sum_list_map_split:
  fixes f :: "'a \<Rightarrow> 'b::cancel_comm_monoid_add"
  assumes "i < length ws"
  obtains rest where "sum_list (map f ws) = f (ws ! i) + rest"
    and "\<And>v. sum_list (map f (ws[i := v])) = f v + rest"
proof -
  let ?rest = "sum_list (map f (take i ws)) + sum_list (map f (drop (Suc i) ws))"
  have "sum_list (map f ws) = f (ws ! i) + ?rest"
    by (subst id_take_nth_drop [OF assms]) (simp add: ac_simps)
  moreover have "sum_list (map f (ws[i := v])) = f v + ?rest" for v
    by (subst upd_conv_take_nth_drop [OF assms]) (simp add: ac_simps)
  ultimately show thesis by (rule that)
qed

section \<open>Runs of labelled step functions\<close>

text \<open>
  A concurrent component is a partial step function: \<open>step a s\<close> is the state after the actor
  \<open>a\<close> has made its next move, \<open>None\<close> where it is blocked. A schedule is a list of actors, and
  the run of a schedule is \<open>None\<close> as soon as one of its moves is blocked.
\<close>

fun run_steps :: "('a \<Rightarrow> 's \<Rightarrow> 's option) \<Rightarrow> 'a list \<Rightarrow> 's \<Rightarrow> 's option" where
  "run_steps step [] s = Some s"
| "run_steps step (a # as) s =
     (case step a s of None \<Rightarrow> None | Some t \<Rightarrow> run_steps step as t)"

lemma run_steps_append:
  "run_steps step (as @ bs) s =
   (case run_steps step as s of None \<Rightarrow> None | Some t \<Rightarrow> run_steps step bs t)"
  by (induction as arbitrary: s) (auto split: option.splits)

locale step_invariant =
  fixes step :: "'a \<Rightarrow> 's \<Rightarrow> 's option" and inv :: "'s \<Rightarrow> bool"
  assumes step_inv: "inv s \<Longrightarrow> step a s = Some t \<Longrightarrow> inv t"
begin

lemma run_inv: "inv s \<Longrightarrow> run_steps step as s = Some t \<Longrightarrow> inv t"
  by (induction as arbitrary: s) (auto split: option.splits intro: step_inv)

end

text \<open>With a weight that every step lowers, schedules are bounded.\<close>

locale bounded_steps = step_invariant +
  fixes weight :: "'s \<Rightarrow> nat"
  assumes step_weight: "inv s \<Longrightarrow> step a s = Some t \<Longrightarrow> weight t < weight s"
begin

lemma run_bounded: "inv s \<Longrightarrow> run_steps step as s = Some t \<Longrightarrow> length as + weight t \<le> weight s"
proof (induction as arbitrary: s)
  case Nil
  then show ?case by simp
next
  case (Cons a as)
  then obtain u where u: "step a s = Some u" "run_steps step as u = Some t"
    by (auto split: option.splits)
  from Cons.prems(1) u(1) have "inv u" and "weight u < weight s"
    by (auto intro: step_inv step_weight)
  with Cons.IH u(2) show ?case by fastforce
qed

end

text \<open>With progress too, every run can be completed, and a run that cannot go on is final.\<close>

locale live_steps = bounded_steps +
  fixes final :: "'s \<Rightarrow> bool"
  assumes progress: "inv s \<Longrightarrow> \<not> final s \<Longrightarrow> \<exists>a t. step a s = Some t"
begin

lemma completes: "inv s \<Longrightarrow> \<exists>as t. run_steps step as s = Some t \<and> final t"
proof (induction "weight s" arbitrary: s rule: less_induct)
  case less
  show ?case
  proof (cases "final s")
    case True
    then show ?thesis by (intro exI [of _ "[]"]) simp
  next
    case False
    with less.prems obtain a u where u: "step a s = Some u"
      using progress by blast
    with less.prems have "weight u < weight s" "inv u"
      by (auto intro: step_weight step_inv)
    then obtain as t where "run_steps step as u = Some t" "final t"
      using less.hyps by blast
    with u show ?thesis by (intro exI [of _ "a # as"]) auto
  qed
qed

lemma stuck_final: "inv s \<Longrightarrow> \<forall>a. step a s = None \<Longrightarrow> final s"
  using progress by fastforce

end

section \<open>Loops\<close>

text \<open>
  A loop \<^verbatim>\<open>for { ... }\<close>: its body returns from the function (\<open>Inl\<close>) or goes on with a new state
  (\<open>Inr\<close>). A loop that never returns has the value \<open>None\<close>.
\<close>

partial_function (option) go_loop :: "('s \<Rightarrow> 'r + 's) \<Rightarrow> 's \<Rightarrow> 'r option" where
  "go_loop body s = (case body s of Inl r \<Rightarrow> Some r | Inr t \<Rightarrow> go_loop body t)"

lemma go_loop_simps:
  "body s = Inl r \<Longrightarrow> go_loop body s = Some r" "body s = Inr t \<Longrightarrow> go_loop body s = go_loop body t"
  by (simp_all add: go_loop.simps)

text \<open>A result is returned by a round that the invariant reaches.\<close>

lemma go_loop_result:
  assumes run: "go_loop body s = Some r" and "I s" and inv: "\<And>s t. I s \<Longrightarrow> body s = Inr t \<Longrightarrow> I t"
  shows "\<exists>s'. I s' \<and> body s' = Inl r"
proof -
  let ?P = "\<lambda>b s r. b = body \<longrightarrow> I s \<longrightarrow> (\<exists>s'. I s' \<and> body s' = Inl r)"
  have "?P body s r"
  proof (rule go_loop.raw_induct [of ?P, OF _ run], intro impI)
    fix loop b s r
    assume IH: "\<And>b s r. loop b s = Some r \<Longrightarrow> ?P b s r"
      and step: "(case b s of Inl r \<Rightarrow> Some r | Inr t \<Rightarrow> loop b t) = Some r" "b = body" "I s"
    show "\<exists>s'. I s' \<and> body s' = Inl r"
    proof (cases "body s")
      case (Inl x)
      with step show ?thesis by auto
    next
      case (Inr t)
      with step IH [of body t r] inv show ?thesis by simp
    qed
  qed
  then show ?thesis using assms(2) by simp
qed

lemma go_loop_diverges:
  assumes "I s" "\<And>s. I s \<Longrightarrow> \<exists>t. body s = Inr t \<and> I t"
  shows "go_loop body s = None"
proof (cases "go_loop body s")
  case (Some r)
  have "\<exists>s'. I s' \<and> body s' = Inl r"
    by (rule go_loop_result [of body s r I, OF Some assms(1)]) (use assms(2) in fastforce)
  with assms(2) show ?thesis by fastforce
qed simp

lemma go_loop_total:
  assumes "I s" "\<And>s t. I s \<Longrightarrow> body s = Inr t \<Longrightarrow> I t \<and> m t < (m s :: nat)"
  shows "\<exists>r. go_loop body s = Some r"
  using assms(1)
proof (induction "m s" arbitrary: s rule: less_induct)
  case less
  then show ?case
    using assms(2) by (cases "body s") (auto simp: go_loop_simps)
qed

end
