(* ===== verification/Go_Strings.thy ===== *)
theory Go_Strings
  imports Tcd_Prelude
begin

text \<open>
  The string functions of Go's standard library that the program calls, on byte strings
  (a \<open>char\<close> is a byte): \<^verbatim>\<open>strings.TrimSpace\<close>, \<^verbatim>\<open>TrimPrefix\<close>, \<^verbatim>\<open>HasPrefix\<close>,
  \<^verbatim>\<open>ReplaceAll\<close> of one byte, \<^verbatim>\<open>SplitN(s, sep, 2)\<close>, \<^verbatim>\<open>hex.EncodeToString\<close>,
  \<^verbatim>\<open>strconv.Atoi\<close>, \<^verbatim>\<open>net.SplitHostPort\<close> and \<^verbatim>\<open>net.JoinHostPort\<close>.
\<close>

section \<open>Trimming\<close>

text \<open>
  The UTF-8 encodings of the code points for which \<^verbatim>\<open>unicode.IsSpace\<close> holds. Decoding the
  first (last) rune of a string yields a space exactly when one of them is a prefix (suffix).
\<close>

definition space_runes :: "string list" where
  "space_runes =
     [[CHR 0x09], [CHR 0x0A], [CHR 0x0B], [CHR 0x0C], [CHR 0x0D], [CHR 0x20],
      [CHR 0xC2, CHR 0x85], [CHR 0xC2, CHR 0xA0], [CHR 0xE1, CHR 0x9A, CHR 0x80],
      [CHR 0xE2, CHR 0x80, CHR 0x80], [CHR 0xE2, CHR 0x80, CHR 0x81],
      [CHR 0xE2, CHR 0x80, CHR 0x82], [CHR 0xE2, CHR 0x80, CHR 0x83],
      [CHR 0xE2, CHR 0x80, CHR 0x84], [CHR 0xE2, CHR 0x80, CHR 0x85],
      [CHR 0xE2, CHR 0x80, CHR 0x86], [CHR 0xE2, CHR 0x80, CHR 0x87],
      [CHR 0xE2, CHR 0x80, CHR 0x88], [CHR 0xE2, CHR 0x80, CHR 0x89],
      [CHR 0xE2, CHR 0x80, CHR 0x8A], [CHR 0xE2, CHR 0x80, CHR 0xA8],
      [CHR 0xE2, CHR 0x80, CHR 0xA9], [CHR 0xE2, CHR 0x80, CHR 0xAF],
      [CHR 0xE2, CHR 0x81, CHR 0x9F], [CHR 0xE3, CHR 0x80, CHR 0x80]]"

definition starts_with :: "string \<Rightarrow> string \<Rightarrow> bool" where
  "starts_with p s \<longleftrightarrow> take (length p) s = p"

definition strip_one :: "string list \<Rightarrow> string \<Rightarrow> string option" where
  "strip_one ps s =
     (case find (\<lambda>p. p \<noteq> [] \<and> starts_with p s) ps of
        None \<Rightarrow> None
      | Some p \<Rightarrow> Some (drop (length p) s))"

lemma find_SomeD: "find P xs = Some x \<Longrightarrow> x \<in> set xs \<and> P x"
  by (auto simp: find_Some_iff)

lemma strip_one_None: "strip_one ps s = None \<longleftrightarrow> (\<forall>p\<in>set ps. p = [] \<or> \<not> starts_with p s)"
  by (auto simp: strip_one_def find_None_iff split: option.splits dest: find_SomeD)

lemma strip_one_Some:
  "strip_one ps s = Some t \<Longrightarrow> \<exists>p\<in>set ps. p \<noteq> [] \<and> s = p @ t"
  by (auto simp: strip_one_def starts_with_def split: option.splits dest!: find_SomeD)
     (metis append_take_drop_id)

lemma strip_one_shorter: "strip_one ps s = Some t \<Longrightarrow> length t < length s"
  by (auto dest: strip_one_Some)

function trim_runes :: "string list \<Rightarrow> string \<Rightarrow> string" where
  "trim_runes ps s = (case strip_one ps s of None \<Rightarrow> s | Some t \<Rightarrow> trim_runes ps t)"
  by pat_completeness auto
termination
  by (relation "measure (\<lambda>(ps, s). length s)") (auto dest: strip_one_shorter)

declare trim_runes.simps [simp del]

definition strings_TrimSpace :: "string \<Rightarrow> string" where
  "strings_TrimSpace s =
     rev (trim_runes (map rev space_runes) (rev (trim_runes space_runes s)))"

lemma trim_runes_done: "strip_one ps (trim_runes ps s) = None"
proof (induction ps s rule: trim_runes.induct)
  case (1 ps s)
  then show ?case
    by (subst trim_runes.simps) (auto split: option.splits simp del: trim_runes.simps)
qed

lemma trim_runes_id: "strip_one ps s = None \<Longrightarrow> trim_runes ps s = s"
  by (subst trim_runes.simps) simp

lemma trim_runes_suffix: "\<exists>xs. s = xs @ trim_runes ps s"
proof (induction ps s rule: trim_runes.induct)
  case (1 ps s)
  show ?case
  proof (cases "strip_one ps s")
    case None
    then show ?thesis by (simp add: trim_runes_id)
  next
    case (Some t)
    then obtain p where "s = p @ t" by (auto dest: strip_one_Some)
    moreover from 1 [OF Some] obtain xs where "t = xs @ trim_runes ps t" ..
    moreover have "trim_runes ps s = trim_runes ps t"
      using Some by (subst trim_runes.simps) simp
    ultimately have "s = (p @ xs) @ trim_runes ps s" by simp
    then show ?thesis by blast
  qed
qed

lemma starts_with_take: "starts_with p (take n s) \<Longrightarrow> starts_with p s"
  by (metis (no_types) starts_with_def append_eq_conv_conj append_take_drop_id
      append.assoc)

lemma strip_one_take: "strip_one ps s = None \<Longrightarrow> strip_one ps (take n s) = None"
  by (auto simp: strip_one_None dest: starts_with_take)

text \<open>Trimming the end of a string does not expose a space at its beginning.\<close>

lemma TrimSpace_left_done: "strip_one space_runes (strings_TrimSpace s) = None"
proof -
  let ?u = "trim_runes space_runes s"
  obtain xs where xs: "rev ?u = xs @ trim_runes (map rev space_runes) (rev ?u)"
    using trim_runes_suffix by blast
  then have u: "?u = strings_TrimSpace s @ rev xs"
    unfolding strings_TrimSpace_def by (metis rev_append rev_rev_ident)
  have "strings_TrimSpace s = take (length (strings_TrimSpace s)) ?u"
    by (subst u) simp
  then show ?thesis
    by (metis strip_one_take trim_runes_done)
qed

lemma TrimSpace_right_done:
  "strip_one (map rev space_runes) (rev (strings_TrimSpace s)) = None"
  by (simp add: strings_TrimSpace_def trim_runes_done)

lemma TrimSpace_idem [simp]: "strings_TrimSpace (strings_TrimSpace s) = strings_TrimSpace s"
  by (subst strings_TrimSpace_def)
     (simp add: trim_runes_id TrimSpace_left_done TrimSpace_right_done)

lemma TrimSpace_infix: "\<exists>xs ys. s = xs @ strings_TrimSpace s @ ys"
proof -
  let ?u = "trim_runes space_runes s"
  obtain xs where "s = xs @ ?u" using trim_runes_suffix by blast
  moreover obtain ys where "rev ?u = ys @ trim_runes (map rev space_runes) (rev ?u)"
    using trim_runes_suffix by blast
  then have "?u = strings_TrimSpace s @ rev ys"
    unfolding strings_TrimSpace_def by (metis rev_append rev_rev_ident)
  ultimately show ?thesis by (metis)
qed

lemma TrimSpace_set: "set (strings_TrimSpace s) \<subseteq> set s"
  by (metis TrimSpace_infix set_append Un_upper1 Un_upper2 order_trans)

lemma TrimSpace_Nil [simp]: "strings_TrimSpace [] = []"
  by (metis TrimSpace_set empty_set set_empty subset_empty)

text \<open>A string that neither begins nor ends with a byte of a space is trimmed already.\<close>

definition space_byte :: "char \<Rightarrow> bool" where
  "space_byte c \<longleftrightarrow> c \<in> set (concat space_runes)"

lemma TrimSpace_id:
  assumes "s \<noteq> []" "\<not> space_byte (hd s)" "\<not> space_byte (last s)"
  shows "strings_TrimSpace s = s"
proof -
  have "strip_one space_runes s = None"
    unfolding strip_one_None
  proof
    fix p
    assume p: "p \<in> set space_runes"
    have "p \<noteq> [] \<Longrightarrow> starts_with p s \<Longrightarrow> hd s \<in> set p"
      using assms(1) by (cases p; cases s) (auto simp: starts_with_def)
    with p assms(2) show "p = [] \<or> \<not> starts_with p s"
      by (auto simp: space_byte_def)
  qed
  moreover have "strip_one (map rev space_runes) (rev s) = None"
    unfolding strip_one_None
  proof
    fix p
    assume p: "p \<in> set (map rev space_runes)"
    have "p \<noteq> [] \<Longrightarrow> starts_with p (rev s) \<Longrightarrow> last s \<in> set p"
      using assms(1) by (cases p; cases s rule: rev_cases) (auto simp: starts_with_def)
    with p assms(3) show "p = [] \<or> \<not> starts_with p (rev s)"
      by (auto simp: space_byte_def)
  qed
  ultimately show ?thesis
    by (simp add: strings_TrimSpace_def trim_runes_id)
qed

section \<open>Searching, splitting, joining\<close>

fun index_byte :: "char \<Rightarrow> string \<Rightarrow> nat option" where
  "index_byte c [] = None"
| "index_byte c (x # xs) = (if x = c then Some 0 else map_option Suc (index_byte c xs))"

definition last_index_byte :: "char \<Rightarrow> string \<Rightarrow> nat option" where
  "last_index_byte c s = map_option (\<lambda>k. length s - Suc k) (index_byte c (rev s))"

definition strings_HasPrefix :: "string \<Rightarrow> string \<Rightarrow> bool" where
  "strings_HasPrefix s p = starts_with p s"

definition strings_TrimPrefix :: "string \<Rightarrow> string \<Rightarrow> string" where
  "strings_TrimPrefix s p = (if starts_with p s then drop (length p) s else s)"

text \<open>\<^verbatim>\<open>strings.ReplaceAll\<close> where both arguments are one byte long.\<close>

definition replace_byte :: "char \<Rightarrow> char \<Rightarrow> string \<Rightarrow> string" where
  "replace_byte old new = map (\<lambda>c. if c = old then new else c)"

text \<open>\<^verbatim>\<open>strings.SplitN(s, sep, 2)\<close> for a one-byte separator; \<open>None\<close> is a result of one part.\<close>

definition split_two :: "char \<Rightarrow> string \<Rightarrow> (string \<times> string) option" where
  "split_two sep s = map_option (\<lambda>i. (take i s, drop (Suc i) s)) (index_byte sep s)"

fun strings_Join :: "string list \<Rightarrow> string \<Rightarrow> string" where
  "strings_Join [] sep = []"
| "strings_Join [x] sep = x"
| "strings_Join (x # y # xs) sep = x @ sep @ strings_Join (y # xs) sep"

lemma index_byte_append: "c \<notin> set xs \<Longrightarrow> index_byte c (xs @ c # ys) = Some (length xs)"
  by (induction xs) auto

lemma index_byte_None: "index_byte c s = None \<longleftrightarrow> c \<notin> set s"
  by (induction s) auto

lemma index_byte_Some:
  "index_byte c s = Some i \<Longrightarrow> i < length s \<and> s = take i s @ c # drop (Suc i) s \<and> c \<notin> set (take i s)"
  by (induction s arbitrary: i) (auto split: if_splits)

lemma last_index_byte_append: "c \<notin> set ys \<Longrightarrow> last_index_byte c (xs @ c # ys) = Some (length xs)"
  using index_byte_append [of c "rev ys" "rev xs"] by (simp add: last_index_byte_def)

lemma last_index_byte_None: "last_index_byte c s = None \<longleftrightarrow> c \<notin> set s"
  by (simp add: last_index_byte_def index_byte_None)

lemma last_index_byte_Some:
  assumes "last_index_byte c s = Some i"
  shows "s = take i s @ c # drop (Suc i) s \<and> c \<notin> set (drop (Suc i) s)"
proof -
  from assms have "c \<in> set s" by (metis last_index_byte_None option.distinct(1))
  then obtain xs ys where s: "s = xs @ c # ys" "c \<notin> set ys"
    by (meson split_list_last)
  with assms show ?thesis by (auto simp: last_index_byte_append)
qed

lemma split_two_Some: "split_two sep s = Some (k, v) \<Longrightarrow> s = k @ sep # v \<and> sep \<notin> set k"
  by (auto simp: split_two_def dest: index_byte_Some)

lemma split_two_append: "sep \<notin> set k \<Longrightarrow> split_two sep (k @ sep # v) = Some (k, v)"
  by (simp add: split_two_def index_byte_append)

section \<open>Hexadecimal encoding\<close>

type_synonym byte = "8 word"

definition hex_digit :: "nat \<Rightarrow> char" where
  "hex_digit n = ''0123456789abcdef'' ! n"

definition hex_EncodeToString :: "byte list \<Rightarrow> string" where
  "hex_EncodeToString bs =
     concat (map (\<lambda>b. [hex_digit (unat b div 16), hex_digit (unat b mod 16)]) bs)"

lemma length_hex_EncodeToString [simp]: "length (hex_EncodeToString bs) = 2 * length bs"
  by (induction bs) (auto simp: hex_EncodeToString_def)

lemma hex_digit_inj: "m < 16 \<Longrightarrow> n < 16 \<Longrightarrow> hex_digit m = hex_digit n \<longleftrightarrow> m = n"
  unfolding hex_digit_def by (subst nth_eq_iff_index_eq) simp_all

lemma hex_EncodeToString_inj: "hex_EncodeToString xs = hex_EncodeToString ys \<longleftrightarrow> xs = ys"
proof (induction xs arbitrary: ys)
  case Nil
  then show ?case by (cases ys) (auto simp: hex_EncodeToString_def)
next
  case (Cons x xs)
  show ?case
  proof (cases ys)
    case Nil
    then show ?thesis by (simp add: hex_EncodeToString_def)
  next
    case (Cons y ys')
    have bound: "unat z div 16 < 16" for z :: byte
      using unsigned_less [of z, where ?'a = nat] by (simp add: less_mult_imp_div_less)
    have "unat x div 16 = unat y div 16 \<and> unat x mod 16 = unat y mod 16 \<longleftrightarrow> x = y"
      by (metis div_mult_mod_eq word_unat_eq_iff)
    with Cons Cons.IH [of ys'] show ?thesis
      by (auto simp: hex_EncodeToString_def hex_digit_inj bound)
  qed
qed

section \<open>Decimal numbers\<close>

definition is_digit :: "char \<Rightarrow> bool" where
  "is_digit c \<longleftrightarrow> 48 \<le> (of_char c :: nat) \<and> (of_char c :: nat) \<le> 57"

definition digits_value :: "string \<Rightarrow> int" where
  "digits_value ds = foldl (\<lambda>n c. 10 * n + (of_char c - 48)) 0 ds"

text \<open>\<^verbatim>\<open>strconv.Atoi\<close>, with \<open>None\<close> for its syntax and range errors.\<close>

definition strconv_Atoi :: "string \<Rightarrow> int option" where
  "strconv_Atoi s =
     (let neg = starts_with ''-'' s;
          ds = (if neg \<or> starts_with ''+'' s then drop 1 s else s);
          v = (if neg then - digits_value ds else digits_value ds)
      in if ds = [] \<or> \<not> list_all is_digit ds then None
         else if v < - (2 ^ 63) \<or> 2 ^ 63 \<le> v then None
         else Some v)"

lemma Atoi_chars:
  assumes "strconv_Atoi s = Some v" "c \<in> set s"
  shows "is_digit c \<or> c = CHR ''-'' \<or> c = CHR ''+''"
  using assms by (cases s) (auto simp: strconv_Atoi_def Let_def starts_with_def list_all_iff split: if_splits)

lemma Atoi_nonempty: "strconv_Atoi s = Some v \<Longrightarrow> s \<noteq> []"
  by (auto simp: strconv_Atoi_def Let_def starts_with_def split: if_splits)

fun decimal_nat :: "nat \<Rightarrow> string" where
  "decimal_nat n =
     (if n < 10 then [char_of (48 + n)] else decimal_nat (n div 10) @ [char_of (48 + n mod 10)])"

declare decimal_nat.simps [simp del]

text \<open>The verb \<open>%d\<close>.\<close>

definition decimal :: "int \<Rightarrow> string" where
  "decimal i = (if i < 0 then ''-'' @ decimal_nat (nat (- i)) else decimal_nat (nat i))"

lemma decimal_nat_nonempty [simp]: "decimal_nat n \<noteq> []"
  by (subst decimal_nat.simps) simp

lemma decimal_nonempty [simp]: "decimal i \<noteq> []"
  by (simp add: decimal_def)

lemma decimal_nat_digits: "\<forall>c\<in>set (decimal_nat n). is_digit c"
proof (induction n rule: decimal_nat.induct)
  case (1 n)
  have digit: "k < 10 \<Longrightarrow> is_digit (char_of (48 + k))" for k :: nat
    by (simp add: is_digit_def)
  show ?case
    using 1 digit [of n] digit [of "n mod 10"] by (subst decimal_nat.simps) simp
qed

lemma digit_no_space: "is_digit c \<Longrightarrow> \<not> space_byte c"
  by (auto simp: space_byte_def space_runes_def is_digit_def)

text \<open>The text of a number has no spaces around it.\<close>

lemma TrimSpace_decimal [simp]: "strings_TrimSpace (decimal i) = decimal i"
proof (rule TrimSpace_id)
  have "\<not> space_byte (hd (decimal_nat n))" "\<not> space_byte (last (decimal_nat n))" for n
    using decimal_nat_digits [of n] digit_no_space by simp_all
  moreover have "\<not> space_byte CHR ''-''"
    by (simp add: space_byte_def space_runes_def)
  ultimately show "\<not> space_byte (hd (decimal i))" "\<not> space_byte (last (decimal i))"
    by (simp_all add: decimal_def)
qed simp

section \<open>Host and port\<close>

definition split_checked :: "string \<Rightarrow> string \<Rightarrow> nat \<Rightarrow> nat \<Rightarrow> nat \<Rightarrow> (string \<times> string) option" where
  "split_checked host hostport j k i =
     (if CHR ''['' \<in> set (drop j hostport) then None
      else if CHR '']'' \<in> set (drop k hostport) then None
      else Some (host, drop (Suc i) hostport))"

text \<open>\<^verbatim>\<open>net.SplitHostPort\<close>; \<open>None\<close> stands for its \<^verbatim>\<open>AddrError\<close>s, which callers only test.\<close>

definition net_SplitHostPort :: "string \<Rightarrow> (string \<times> string) option" where
  "net_SplitHostPort hostport =
     (case last_index_byte (CHR '':'') hostport of
        None \<Rightarrow> None
      | Some i \<Rightarrow>
          if starts_with ''['' hostport then
            (case index_byte (CHR '']'') hostport of
               None \<Rightarrow> None
             | Some e \<Rightarrow>
                 if Suc e = length hostport then None
                 else if Suc e \<noteq> i then None
                 else split_checked (take (e - 1) (drop 1 hostport)) hostport 1 (Suc e) i)
          else
            (let host = take i hostport in
             if CHR '':'' \<in> set host then None else split_checked host hostport 0 0 i))"

definition net_JoinHostPort :: "string \<Rightarrow> string \<Rightarrow> string" where
  "net_JoinHostPort host port =
     (if CHR '':'' \<in> set host then ''['' @ host @ '']:'' @ port else host @ '':'' @ port)"

definition bracket_free :: "string \<Rightarrow> bool" where
  "bracket_free s \<longleftrightarrow> CHR ''['' \<notin> set s \<and> CHR '']'' \<notin> set s"

lemma Split_Join_hostport:
  assumes "bracket_free h" "bracket_free p" "CHR '':'' \<notin> set p"
  shows "net_SplitHostPort (net_JoinHostPort h p) = Some (h, p)"
proof (cases "CHR '':'' \<in> set h")
  case True
  let ?s = "''['' @ h @ '']:'' @ p"
  have "last_index_byte (CHR '':'') ?s = Some (length h + 2)"
    using last_index_byte_append [of "CHR '':''" p "''['' @ h @ '']''"] assms(3) by simp
  moreover have "index_byte (CHR '']'') ?s = Some (Suc (length h))"
    using index_byte_append [of "CHR '']''" "''['' @ h" "'':'' @ p"] assms(1)
    by (simp add: bracket_free_def)
  ultimately show ?thesis
    using True assms
    by (simp add: net_SplitHostPort_def net_JoinHostPort_def split_checked_def starts_with_def
        bracket_free_def)
next
  case False
  have "last_index_byte (CHR '':'') (h @ '':'' @ p) = Some (length h)"
    using last_index_byte_append [of "CHR '':''" p h] assms(3) by simp
  moreover have "\<not> starts_with ''['' (h @ '':'' @ p)"
    using assms(1) by (cases h) (auto simp: starts_with_def bracket_free_def)
  ultimately show ?thesis
    using False assms
    by (simp add: net_SplitHostPort_def net_JoinHostPort_def split_checked_def bracket_free_def)
qed

lemma SplitHostPort_clean:
  assumes "net_SplitHostPort s = Some (h, p)"
  shows "bracket_free h \<and> bracket_free p \<and> CHR '':'' \<notin> set p"
proof -
  from assms obtain i where i: "last_index_byte (CHR '':'') s = Some i"
    by (auto simp: net_SplitHostPort_def split: option.splits)
  then have p: "CHR '':'' \<notin> set (drop (Suc i) s)"
    by (blast dest: last_index_byte_Some)
  show ?thesis
  proof (cases "starts_with ''['' s")
    case True
    with assms i obtain e where e: "index_byte (CHR '']'') s = Some e" "Suc e = i"
      and sc: "split_checked (take (e - 1) (drop 1 s)) s 1 (Suc e) i = Some (h, p)"
      by (auto simp: net_SplitHostPort_def split: option.splits if_splits)
    from e have "CHR '']'' \<notin> set (take e s)" by (blast dest: index_byte_Some)
    moreover have "set (take (e - 1) (drop 1 s)) \<subseteq> set (take e s)"
      by (metis (no_types) drop_take set_drop_subset)
    moreover have "set (drop (Suc i) s) \<subseteq> set (drop (Suc e) s)" "set (drop (Suc i) s) \<subseteq> set (drop 1 s)"
      using e by (simp_all add: set_drop_subset_set_drop)
    moreover have "set (take (e - 1) (drop 1 s)) \<subseteq> set (drop 1 s)"
      by (rule set_take_subset)
    moreover from sc have "h = take (e - 1) (drop 1 s)" "p = drop (Suc i) s"
      "CHR ''['' \<notin> set (drop 1 s)" "CHR '']'' \<notin> set (drop (Suc e) s)"
      by (simp_all add: split_checked_def split: if_splits)
    ultimately show ?thesis
      using p unfolding bracket_free_def by blast
  next
    case False
    with assms i have "split_checked (take i s) s 0 0 i = Some (h, p)"
      by (simp add: net_SplitHostPort_def Let_def split: if_splits)
    then have "h = take i s" "p = drop (Suc i) s" "CHR ''['' \<notin> set s" "CHR '']'' \<notin> set s"
      by (simp_all add: split_checked_def split: if_splits)
    then show ?thesis
      using p set_take_subset [of i s] set_drop_subset [of "Suc i" s]
      unfolding bracket_free_def by blast
  qed
qed

end
