(* ===== verification/Protocol.thy ===== *)
theory Protocol
  imports Go_Strings
begin

text \<open>
  The constants of \<^verbatim>\<open>constant/\<close> that the program uses and the messages of \<^verbatim>\<open>protocol/\<close>:
  the requests and responses between a test process and the daemon, and the contents of the
  runtime file through which a client discovers its daemon.
\<close>

section \<open>Constants\<close>

definition ProtocolTCP :: string where "ProtocolTCP = ''tcp''"

definition EnvTCDMode :: string where "EnvTCDMode = ''TCD_MODE''"
definition EnvTCDRuntime :: string where "EnvTCDRuntime = ''TCD_RUNTIME''"
definition TCDModeDaemon :: string where "TCDModeDaemon = ''daemon''"

definition LeaseTTL :: duration where "LeaseTTL = 2 * time_Second"
definition HeartbeatInterval :: duration where "HeartbeatInterval = LeaseTTL div 2"

definition HeaderToken :: string where "HeaderToken = ''X-Testcontainerd-Token''"
definition PathAcquire :: string where "PathAcquire = ''/v1/acquire''"
definition PathHeartbeat :: string where "PathHeartbeat = ''/v1/heartbeat''"
definition PathRelease :: string where "PathRelease = ''/v1/release''"
definition PathState :: string where "PathState = ''/v1/state''"

lemmas path_defs = PathAcquire_def PathHeartbeat_def PathRelease_def PathState_def

lemma path_distinct [simp]:
  "PathAcquire \<noteq> PathHeartbeat" "PathAcquire \<noteq> PathRelease" "PathAcquire \<noteq> PathState" "PathHeartbeat \<noteq> PathAcquire"
  "PathHeartbeat \<noteq> PathRelease" "PathHeartbeat \<noteq> PathState" "PathRelease \<noteq> PathAcquire" "PathRelease \<noteq> PathHeartbeat"
  "PathRelease \<noteq> PathState" "PathState \<noteq> PathAcquire" "PathState \<noteq> PathHeartbeat" "PathState \<noteq> PathRelease"
  by (simp_all add: path_defs)

lemma HeartbeatInterval_half: "2 * HeartbeatInterval = LeaseTTL"
  by (simp add: HeartbeatInterval_def LeaseTTL_def)

section \<open>Errors of the protocol\<close>

datatype err_code = ErrCodeBadRequest | ErrCodeUnauthorized | ErrCodeNotFound | ErrCodeInternal

fun err_code_text :: "err_code \<Rightarrow> string" where
  "err_code_text ErrCodeBadRequest = ''bad_request''"
| "err_code_text ErrCodeUnauthorized = ''unauthorized''"
| "err_code_text ErrCodeNotFound = ''not_found''"
| "err_code_text ErrCodeInternal = ''internal''"

record ErrorResp =
  err_Code :: string
  err_Message :: string

section \<open>Requests and responses\<close>

record AcquireReq =
  acq_Project :: string
  acq_PID :: int
  acq_RunID :: string

record AcquireResp =
  resp_LeaseID :: string
  resp_AcquiredAt :: go_time

record HeartbeatReq =
  hb_LeaseID :: string

record ReleaseReq =
  rel_LeaseID :: string
  rel_ExitCode :: int

record OKResp =
  resp_OK :: bool

record StateResp =
  InfraReady :: bool
  ActiveLeases :: int
  Containers :: "string list"
  StartedAt :: go_time
  IdleTTLSecond :: int
  AppReady :: bool
  AppPID :: int
  AppStartedAt :: go_time
  AppRestarts :: int
  AppLastError :: string

record RuntimeInfo =
  info_Addr :: string
  info_Token :: string
  info_PID :: int
  info_StartedAt :: go_time

end
