(* ===== verification/Lease_Store.thy ===== *)
theory Lease_Store
  imports Protocol
begin

text \<open>
  The daemon's table of leases (\<^verbatim>\<open>daemon/lease_store.go\<close>). Every operation holds the store's
  mutex from its first to its last access of the map, so each is one state transformer; the
  clock reading and the random bytes an operation draws are its arguments. The locale
  \<open>lease_table\<close> states the contract the rest of the daemon relies on (what each operation does
  to the expiry of every lease) and derives from it how one lease lives and dies under any
  sequence of operations.
\<close>

section \<open>State and operations\<close>

record lease =
  lease_ID :: string
  lease_PID :: int
  LastBeatAt :: go_time
  ExpireAt :: go_time

record leaseStore =
  leases :: "(string, lease) gomap"

definition newLeaseStore :: leaseStore where
  "newLeaseStore = \<lparr>leases = []\<rparr>"

text \<open>
  \<^verbatim>\<open>rand.Read\<close> fills the first bytes of the zeroed buffer and its error is ignored: \<open>rd\<close> are
  the bytes it delivered, all \<open>n\<close> of them when it succeeds.
\<close>

definition randHex :: "nat \<Rightarrow> byte list \<Rightarrow> string" where
  "randHex n rd = hex_EncodeToString (take n rd @ replicate (n - length rd) 0)"

definition acquire :: "byte list \<Rightarrow> go_time \<Rightarrow> int \<Rightarrow> duration \<Rightarrow> leaseStore \<Rightarrow> lease \<times> leaseStore" where
  "acquire rd now pid ttl s =
     (let l = \<lparr>lease_ID = ''lease-'' @ randHex 8 rd, lease_PID = pid,
               LastBeatAt = now, ExpireAt = time_Add now ttl\<rparr>
      in (l, s\<lparr>leases := AList.update (lease_ID l) l (leases s)\<rparr>))"

definition heartbeat :: "go_time \<Rightarrow> string \<Rightarrow> duration \<Rightarrow> leaseStore \<Rightarrow> bool \<times> leaseStore" where
  "heartbeat now i ttl s =
     (case map_of (leases s) i of
        None \<Rightarrow> (False, s)
      | Some l \<Rightarrow>
          (True, s\<lparr>leases := AList.update i (l\<lparr>LastBeatAt := now, ExpireAt := time_Add now ttl\<rparr>) (leases s)\<rparr>))"

definition release :: "string \<Rightarrow> leaseStore \<Rightarrow> bool \<times> leaseStore" where
  "release i s =
     (case map_of (leases s) i of
        None \<Rightarrow> (False, s)
      | Some l \<Rightarrow> (True, s\<lparr>leases := AList.delete i (leases s)\<rparr>))"

fun activeCount_loop :: "go_time \<Rightarrow> (string, lease) gomap \<Rightarrow> int \<Rightarrow> int" where
  "activeCount_loop now [] n = n"
| "activeCount_loop now ((i, l) # rest) n =
     activeCount_loop now rest (if time_After (ExpireAt l) now then n + 1 else n)"

definition activeCount :: "go_time \<Rightarrow> leaseStore \<Rightarrow> int" where
  "activeCount now s = activeCount_loop now (leases s) 0"

text \<open>The \<^verbatim>\<open>range\<close> loop visits the entries the map had at the start and deletes from the map.\<close>

fun gc_loop :: "go_time \<Rightarrow> (string, lease) gomap \<Rightarrow> (string, lease) gomap \<Rightarrow> (string, lease) gomap" where
  "gc_loop now [] m = m"
| "gc_loop now ((i, l) # rest) m =
     gc_loop now rest (if \<not> time_After (ExpireAt l) now then AList.delete i m else m)"

definition gc :: "go_time \<Rightarrow> leaseStore \<Rightarrow> leaseStore" where
  "gc now s = s\<lparr>leases := gc_loop now (leases s) (leases s)\<rparr>"

lemmas store_op_defs [op_defs] =
  acquire_def heartbeat_def release_def activeCount_def gc_def

section \<open>Well-formed stores\<close>

definition store_ok :: "leaseStore \<Rightarrow> bool" where
  "store_ok s \<longleftrightarrow> gomap_ok (leases s) \<and> (\<forall>i l. map_of (leases s) i = Some l \<longrightarrow> lease_ID l = i)"

text \<open>The expiry of every lease of the store: what the daemon can observe of it.\<close>

definition lease_expiry :: "leaseStore \<Rightarrow> string \<Rightarrow> go_time option" where
  "lease_expiry s i = map_option ExpireAt (map_of (leases s) i)"

lemma lease_expiry_new [simp]: "lease_expiry newLeaseStore i = None"
  by (simp add: lease_expiry_def newLeaseStore_def)

lemma store_ok_new [simp]: "store_ok newLeaseStore"
  by (simp add: store_ok_def newLeaseStore_def)

lemma store_ok_acquire [simp]: "store_ok s \<Longrightarrow> store_ok (snd (acquire rd now pid ttl s))"
  by (auto simp: store_ok_def acquire_def Let_def update_conv split: if_splits)

lemma store_ok_heartbeat [simp]: "store_ok s \<Longrightarrow> store_ok (snd (heartbeat now i ttl s))"
  by (auto simp: store_ok_def heartbeat_def update_conv split: option.splits if_splits)

lemma store_ok_release [simp]: "store_ok s \<Longrightarrow> store_ok (snd (release i s))"
  by (auto simp: store_ok_def release_def delete_conv split: option.splits if_splits)

text \<open>The loop of \<open>gc\<close> filters: an entry goes exactly when it has expired.\<close>

lemma gc_loop_filter:
  "gomap_ok m \<Longrightarrow> gomap_ok es \<Longrightarrow> \<forall>(i, l)\<in>set es. map_of m i = Some l \<Longrightarrow>
   gc_loop now es m = filter (\<lambda>(i, l). (i, l) \<in> set es \<longrightarrow> time_After (ExpireAt l) now) m"
proof (induction es arbitrary: m)
  case Nil
  then show ?case by simp
next
  case (Cons e es)
  obtain i l where e: "e = (i, l)" by force
  let ?m' = "if \<not> time_After (ExpireAt l) now then AList.delete i m else m"
  have mem: "(j, k) \<in> set m \<longleftrightarrow> map_of m j = Some k" for j k
    using Cons.prems(1) by (simp add: gomap_ok_def map_of_eq_Some_iff)
  have il: "(i, l') \<in> set m \<longleftrightarrow> l' = l" for l'
    using Cons.prems(3) mem e by auto
  have "j \<noteq> i" "map_of m j = Some k" if "(j, k) \<in> set es" for j k
    using Cons.prems(2,3) that by (force simp: e gomap_ok_def)+
  then have "\<forall>(j, k)\<in>set es. map_of ?m' j = Some k"
    by (auto simp: delete_conv)
  with Cons.IH [of ?m'] Cons.prems(1,2)
  have "gc_loop now (e # es) m = filter (\<lambda>(j, k). (j, k) \<in> set es \<longrightarrow> time_After (ExpireAt k) now) ?m'"
    by (simp add: e gomap_ok_def distinct_delete)
  also have "\<dots> = filter (\<lambda>(j, k). (j, k) \<in> set (e # es) \<longrightarrow> time_After (ExpireAt k) now) m"
    using il by (auto simp: e AList.delete_eq filter_filter intro!: filter_cong)
  finally show ?case .
qed

lemma gc_filter:
  "store_ok s \<Longrightarrow> leases (gc now s) = filter (\<lambda>(i, l). time_After (ExpireAt l) now) (leases s)"
  by (auto simp: gc_def store_ok_def gc_loop_filter gomap_ok_def intro!: filter_cong)

lemma store_ok_gc [simp]: "store_ok s \<Longrightarrow> store_ok (gc now s)"
  by (auto simp: store_ok_def gc_filter map_of_filter_gomap split: option.splits if_splits)

lemma activeCount_loop_filter:
  "activeCount_loop now es n = n + int (length (filter (\<lambda>(i, l). time_After (ExpireAt l) now) es))"
  by (induction es arbitrary: n) auto

lemma activeCount_gc_length: "store_ok s \<Longrightarrow> activeCount now s = int (length (leases (gc now s)))"
  by (simp add: activeCount_def activeCount_loop_filter gc_filter)

lemma activeCount_card:
  assumes "store_ok s"
  shows "activeCount now s = int (card {i. \<exists>e. lease_expiry s i = Some e \<and> now < e})"
proof -
  let ?es = "filter (\<lambda>(i, l). time_After (ExpireAt l) now) (leases s)"
  have d: "distinct (map fst ?es)"
    using assms by (simp add: store_ok_def gomap_ok_def [symmetric])
  have "length ?es = card (set (map fst ?es))"
    using distinct_card [OF d] by simp
  moreover have "set (map fst ?es) = {i. \<exists>e. lease_expiry s i = Some e \<and> now < e}"
    using assms
    by (force simp: lease_expiry_def store_ok_def gomap_ok_def time_After_def image_iff
        dest: map_of_SomeD)
  ultimately show ?thesis
    by (simp add: activeCount_def activeCount_loop_filter)
qed

lemma activeCount_pos:
  "store_ok s \<Longrightarrow> lease_expiry s i = Some e \<Longrightarrow> now < e \<Longrightarrow> 0 < activeCount now s"
proof -
  assume s: "store_ok s" and i: "lease_expiry s i = Some e" "now < e"
  then have "map_of (leases s) i \<noteq> None" by (auto simp: lease_expiry_def)
  then obtain l where "(i, l) \<in> set (leases s)" "e = ExpireAt l"
    using i by (auto simp: lease_expiry_def dest: map_of_SomeD)
  with i have "(i, l) \<in> set (filter (\<lambda>(i, l). time_After (ExpireAt l) now) (leases s))"
    by (simp add: time_After_def)
  then have "filter (\<lambda>(i, l). time_After (ExpireAt l) now) (leases s) \<noteq> []"
    by (metis empty_iff empty_set)
  then show ?thesis by (simp add: activeCount_def activeCount_loop_filter)
qed

section \<open>The contract of a lease table\<close>

text \<open>
  The timed operations of a table, and the expiry one lease has after them: a lease is made
  and extended by its own acquire and heartbeats, ended by its release, and dropped by a sweep
  that comes at or after its expiry. Operations on other leases do not appear.
\<close>

datatype 'g lease_op = Grant 'g | Renew string | Revoke string | Sweep

fun perform ::
  "('g \<Rightarrow> go_time \<Rightarrow> 's \<Rightarrow> 's) \<Rightarrow> (string \<Rightarrow> go_time \<Rightarrow> 's \<Rightarrow> 's) \<Rightarrow> (string \<Rightarrow> 's \<Rightarrow> 's) \<Rightarrow>
   (go_time \<Rightarrow> 's \<Rightarrow> 's) \<Rightarrow> go_time \<times> 'g lease_op \<Rightarrow> 's \<Rightarrow> 's" where
  "perform grant renew revoke sweep (t, Grant g) s = grant g t s"
| "perform grant renew revoke sweep (t, Renew i) s = renew i t s"
| "perform grant renew revoke sweep (t, Revoke i) s = revoke i s"
| "perform grant renew revoke sweep (t, Sweep) s = sweep t s"

fun one_lease :: "('g \<Rightarrow> string) \<Rightarrow> duration \<Rightarrow> string \<Rightarrow> go_time \<times> 'g lease_op \<Rightarrow> go_time option \<Rightarrow> go_time option" where
  "one_lease ident ttl i (t, Grant g) e = (if ident g = i then Some (t + ttl) else e)"
| "one_lease ident ttl i (t, Renew j) e = (if j = i \<and> e \<noteq> None then Some (t + ttl) else e)"
| "one_lease ident ttl i (t, Revoke j) e = (if j = i then None else e)"
| "one_lease ident ttl i (t, Sweep) e = (case e of None \<Rightarrow> None | Some x \<Rightarrow> if t < x then Some x else None)"

locale lease_table =
  fixes ok :: "'s \<Rightarrow> bool"
    and expiry :: "'s \<Rightarrow> string \<Rightarrow> go_time option"
    and ident :: "'g \<Rightarrow> string"
    and ttl :: duration
    and grant :: "'g \<Rightarrow> go_time \<Rightarrow> 's \<Rightarrow> 's"
    and renew :: "string \<Rightarrow> go_time \<Rightarrow> 's \<Rightarrow> 's"
    and revoke :: "string \<Rightarrow> 's \<Rightarrow> 's"
    and sweep :: "go_time \<Rightarrow> 's \<Rightarrow> 's"
  assumes ok_grant: "ok s \<Longrightarrow> ok (grant g t s)"
    and ok_renew: "ok s \<Longrightarrow> ok (renew i t s)"
    and ok_revoke: "ok s \<Longrightarrow> ok (revoke i s)"
    and ok_sweep: "ok s \<Longrightarrow> ok (sweep t s)"
    and expiry_grant: "ok s \<Longrightarrow> expiry (grant g t s) i = one_lease ident ttl i (t, Grant g) (expiry s i)"
    and expiry_renew: "ok s \<Longrightarrow> expiry (renew j t s) i = (if j = i \<and> expiry s i \<noteq> None then Some (t + ttl) else expiry s i)"
    and expiry_revoke: "ok s \<Longrightarrow> expiry (revoke j s) i = (if j = i then None else expiry s i)"
    and expiry_sweep: "ok s \<Longrightarrow> expiry (sweep t s) i =
          (case expiry s i of None \<Rightarrow> None | Some x \<Rightarrow> if t < x then Some x else None)"
begin

abbreviation exec :: "go_time \<times> 'g lease_op \<Rightarrow> 's \<Rightarrow> 's" where
  "exec \<equiv> perform grant renew revoke sweep"

lemma ok_exec: "ok s \<Longrightarrow> ok (exec act s)"
  by (cases "(grant, renew, revoke, sweep, act, s)" rule: perform.cases)
     (auto intro: ok_grant ok_renew ok_revoke ok_sweep)

lemma expiry_exec: "ok s \<Longrightarrow> expiry (exec act s) i = one_lease ident ttl i act (expiry s i)"
  by (cases "(grant, renew, revoke, sweep, act, s)" rule: perform.cases)
     (auto simp: expiry_grant expiry_renew expiry_revoke expiry_sweep)

lemma ok_run: "ok s \<Longrightarrow> ok (fold exec ops s)"
  by (induction ops arbitrary: s) (auto intro: ok_exec)

text \<open>Every lease follows its own small automaton, whatever happens to the others.\<close>

lemma expiry_run: "ok s \<Longrightarrow> expiry (fold exec ops s) i = fold (one_lease ident ttl i) ops (expiry s i)"
  by (induction ops arbitrary: s) (auto simp: expiry_exec ok_exec)

end

text \<open>The store as a lease table: the daemon grants and renews with \<open>LeaseTTL\<close>.\<close>

definition lease_ident :: "byte list \<times> int \<Rightarrow> string" where
  "lease_ident g = ''lease-'' @ randHex 8 (fst g)"

definition store_grant :: "byte list \<times> int \<Rightarrow> go_time \<Rightarrow> leaseStore \<Rightarrow> leaseStore" where
  "store_grant g t s = snd (acquire (fst g) t (snd g) LeaseTTL s)"

definition store_renew :: "string \<Rightarrow> go_time \<Rightarrow> leaseStore \<Rightarrow> leaseStore" where
  "store_renew i t s = snd (heartbeat t i LeaseTTL s)"

definition store_revoke :: "string \<Rightarrow> leaseStore \<Rightarrow> leaseStore" where
  "store_revoke i s = snd (release i s)"

abbreviation store_exec :: "go_time \<times> (byte list \<times> int) lease_op \<Rightarrow> leaseStore \<Rightarrow> leaseStore" where
  "store_exec \<equiv> perform store_grant store_renew store_revoke gc"

lemma lease_expiry_gc:
  "store_ok s \<Longrightarrow> lease_expiry (gc t s) i =
     (case lease_expiry s i of None \<Rightarrow> None | Some x \<Rightarrow> if t < x then Some x else None)"
  by (auto simp: lease_expiry_def gc_filter store_ok_def map_of_filter_gomap time_After_def
      split: option.splits)

interpretation store: lease_table store_ok lease_expiry lease_ident LeaseTTL
  store_grant store_renew store_revoke gc
proof (unfold_locales, goal_cases)
  case (5 s g t i)
  then show ?case
    by (auto simp: store_grant_def acquire_def lease_expiry_def lease_ident_def update_conv
        time_Add_def Let_def)
next
  case (6 s j t i)
  then show ?case
    by (auto simp: store_renew_def heartbeat_def lease_expiry_def update_conv time_Add_def
        split: option.splits)
next
  case (7 s j i)
  then show ?case
    by (auto simp: store_revoke_def release_def lease_expiry_def delete_conv split: option.splits)
qed (simp_all add: store_grant_def store_renew_def store_revoke_def lease_expiry_gc)

section \<open>A lease under its client's heartbeats\<close>

text \<open>
  A client that acquired at \<open>t0\<close> sends its \<open>k\<close>-th heartbeat at \<open>t0 + (k + 1) * HeartbeatInterval\<close>;
  \<open>b k\<close> is when the daemon handles it. \<open>on_time\<close> says that every heartbeat arrives before the
  next one is due, \<open>delivered\<close> that the operations hold every heartbeat handled before a sweep.
\<close>

definition on_time :: "go_time \<Rightarrow> (nat \<Rightarrow> go_time) \<Rightarrow> bool" where
  "on_time t0 b \<longleftrightarrow>
     (\<forall>k. t0 + (int k + 1) * HeartbeatInterval \<le> b k \<and> b k < t0 + (int k + 2) * HeartbeatInterval)"

definition delivered :: "string \<Rightarrow> (nat \<Rightarrow> go_time) \<Rightarrow> (go_time \<times> 'g lease_op) list \<Rightarrow> bool" where
  "delivered i b ops \<longleftrightarrow>
     (\<forall>xs t ys k. ops = xs @ (t, Sweep) # ys \<and> b k < t \<longrightarrow> (b k, Renew i) \<in> set xs)"

lemma on_time_recent_beat:
  assumes "on_time t0 b" and "t0 + LeaseTTL \<le> t"
  shows "\<exists>k. b k < t \<and> t < b k + LeaseTTL"
proof -
  let ?I = "1000000000 :: int"
  define k where "k = nat ((t - t0) div ?I - 2)"
  have "2 * ?I div ?I \<le> (t - t0) div ?I"
    using assms(2) by (intro zdiv_mono1) (simp_all add: LeaseTTL_def)
  then have "2 \<le> (t - t0) div ?I" by simp
  then have k: "(int k + 2) * ?I \<le> t - t0" "t - t0 < (int k + 3) * ?I"
    by (auto simp: k_def minus_mod_eq_mult_div [symmetric] algebra_simps)
  from assms(1) have "t0 + (int k + 1) * ?I \<le> b k" "b k < t0 + (int k + 2) * ?I"
    unfolding on_time_def HeartbeatInterval_def LeaseTTL_def by simp_all
  with k show ?thesis by (intro exI [of _ k]) (simp add: LeaseTTL_def algebra_simps)
qed

lemma delivered_snoc: "delivered i b (ops @ [x]) \<Longrightarrow> delivered i b ops"
  by (auto simp: delivered_def)

lemma delivered_sweep: "delivered i b (ops @ [(t, Sweep)]) \<Longrightarrow> b k < t \<Longrightarrow> (b k, Renew i) \<in> set ops"
  by (auto simp: delivered_def)

lemma lease_kept_alive:
  assumes "on_time t0 b" "delivered i b ops" "sorted (map fst ops)" "\<forall>x\<in>set ops. t0 \<le> fst x"
    and "\<forall>x\<in>set ops. snd x \<noteq> Revoke i"
  shows "\<exists>e. fold (one_lease ident LeaseTTL i) ops (Some (t0 + LeaseTTL)) = Some e \<and>
     t0 + LeaseTTL \<le> e \<and> (\<forall>t. (t, Renew i) \<in> set ops \<longrightarrow> t + LeaseTTL \<le> e) \<and>
     (\<forall>t. ops \<noteq> [] \<and> last ops = (t, Sweep) \<longrightarrow> t < e)"
  using assms
proof (induction ops rule: rev_induct)
  case Nil
  then show ?case by simp
next
  case (snoc x ops)
  obtain t opn where x: "x = (t, opn)" by force
  have le: "t' \<le> t" if "(t', o') \<in> set ops" for t' o'
    using snoc.prems(3) that by (force simp: sorted_append x)
  have t0: "t0 \<le> t" using snoc.prems(4) by (simp add: x)
  from snoc obtain e where e: "fold (one_lease ident LeaseTTL i) ops (Some (t0 + LeaseTTL)) = Some e"
    "t0 + LeaseTTL \<le> e" "\<forall>t. (t, Renew i) \<in> set ops \<longrightarrow> t + LeaseTTL \<le> e"
    by (auto simp: sorted_append dest: delivered_snoc)
  show ?case
  proof (cases opn)
    case Sweep
    have "t < e"
    proof (cases "t < t0 + LeaseTTL")
      case False
      then obtain k where "b k < t" "t < b k + LeaseTTL"
        using on_time_recent_beat [OF snoc.prems(1), of t] by fastforce
      with snoc.prems(2) e(3) show ?thesis
        by (force simp: x Sweep dest: delivered_sweep)
    qed (use e(2) in simp)
    with e show ?thesis by (auto simp: x Sweep)
  qed (use e le t0 snoc.prems(5) in \<open>auto simp: x\<close>)
qed

section \<open>Properties\<close>

text \<open>
  C3. A lease is safe as long as its client's heartbeats are handled before the next one is
  due: however acquires, releases and heartbeats of other clients and the reaper's sweeps
  interleave with them, every sweep leaves the lease in the store and counts it as active.
\<close>

theorem beating_lease_survives:
  assumes "store_ok s" and "lease_expiry s i = Some (t0 + LeaseTTL)"
    and "on_time t0 b" and "delivered i b (ops @ [(t, Sweep)])"
    and "sorted (map fst (ops @ [(t, Sweep)]))" and "\<forall>x\<in>set (ops @ [(t, Sweep)]). t0 \<le> fst x"
    and "\<forall>x\<in>set ops. snd x \<noteq> Revoke i"
  shows "0 < activeCount t (fold store_exec (ops @ [(t, Sweep)]) s) \<and>
         fst (heartbeat now i LeaseTTL (fold store_exec (ops @ [(t, Sweep)]) s))"
proof -
  let ?s = "fold store_exec (ops @ [(t, Sweep)]) s"
  from lease_kept_alive [OF assms(3-6), of lease_ident] assms(7)
  obtain e where "fold (one_lease lease_ident LeaseTTL i) (ops @ [(t, Sweep)]) (Some (t0 + LeaseTTL)) = Some e"
    and "t < e" by fastforce
  then have "lease_expiry ?s i = Some e" "t < e"
    using store.expiry_run [OF assms(1)] assms(2) by metis+
  moreover have "store_ok ?s" using assms(1) by (rule store.ok_run)
  ultimately show ?thesis
    using activeCount_pos [of ?s i e t]
    by (auto simp: lease_expiry_def heartbeat_def split: option.splits)
qed

text \<open>A store with one lease, for the witnesses.\<close>

definition sample_rand :: "byte list" where
  "sample_rand = [1, 2, 3, 4, 5, 6, 7, 8]"

abbreviation sample_id :: string where
  "sample_id \<equiv> ''lease-0102030405060708''"

definition sample_store :: leaseStore where
  "sample_store = snd (acquire sample_rand (10 * time_Second) 42 LeaseTTL newLeaseStore)"

lemma sample_randHex [simp]: "randHex 8 sample_rand = ''0102030405060708''"
  by (simp add: randHex_def sample_rand_def hex_EncodeToString_def hex_digit_def)

lemma sample_store_eq:
  "sample_store = \<lparr>leases = [(sample_id, \<lparr>lease_ID = sample_id, lease_PID = 42,
     LastBeatAt = 10 * time_Second, ExpireAt = 12 * time_Second\<rparr>)]\<rparr>"
  by (simp add: sample_store_def acquire_def newLeaseStore_def time_Add_def LeaseTTL_def Let_def)

lemma sample_store_simps [simp]:
  "store_ok sample_store"
  "lease_expiry sample_store sample_id = Some (12 * time_Second)"
  by (simp_all add: sample_store_eq store_ok_def gomap_ok_def lease_expiry_def)

definition sample_beats :: "nat \<Rightarrow> go_time" where
  "sample_beats k = 10 * time_Second + (int k + 1) * time_Second + 100000000"

abbreviation sample_ops :: "(go_time \<times> (byte list \<times> int) lease_op) list" where
  "sample_ops \<equiv> [(11100000000, Renew sample_id), (12100000000, Renew sample_id)]"

lemma sample_beats_ok:
  "on_time (10 * time_Second) sample_beats" "delivered sample_id sample_beats (sample_ops @ [(13000000000, Sweep)])"
proof -
  show "on_time (10 * time_Second) sample_beats"
    by (simp add: on_time_def sample_beats_def HeartbeatInterval_def LeaseTTL_def)
  show "delivered sample_id sample_beats (sample_ops @ [(13000000000, Sweep)])"
  proof (unfold delivered_def, intro allI impI)
    fix xs t ys k
    assume h: "sample_ops @ [(13000000000, Sweep)] = xs @ (t, Sweep) # ys \<and> sample_beats k < t"
    then have "xs = sample_ops" "t = 13000000000" by (auto simp: Cons_eq_append_conv)
    moreover from this h have "k = 0 \<or> k = 1" by (auto simp: sample_beats_def)
    ultimately show "(sample_beats k, Renew sample_id) \<in> set xs" by (auto simp: sample_beats_def)
  qed
qed

theorem beating_lease_survives_witness:
  "0 < activeCount 13000000000 (fold store_exec (sample_ops @ [(13000000000, Sweep)]) sample_store)"
  using beating_lease_survives [of sample_store sample_id "10 * time_Second" sample_beats sample_ops 13000000000]
    sample_beats_ok by (simp add: LeaseTTL_def)

text \<open>
  C18. Refinement: seen through the expiry of its leases, the store is the abstract lease table.
  After any sequence of acquires, heartbeats, releases and sweeps a lease has the expiry its own
  automaton computes from the operations on that lease and the sweeps alone.
\<close>

theorem store_refines_lease_automata:
  assumes "store_ok s"
  shows "lease_expiry (fold store_exec ops s) i =
         fold (one_lease lease_ident LeaseTTL i) ops (lease_expiry s i)"
  using assms by (rule store.expiry_run)

theorem store_refines_lease_automata_witness:
  "lease_expiry (fold store_exec [(11000000000, Sweep), (11500000000, Renew sample_id)] sample_store) sample_id
   = Some 13500000000"
  by (subst store_refines_lease_automata) (simp_all add: LeaseTTL_def)

text \<open>
  The garbage collector removes exactly the leases whose expiry is not after \<open>now\<close>, keeps the
  others as they are, and never changes the number of active leases, which is the number of
  leases whose expiry lies in the future and the size of the store after collection.
\<close>

theorem gc_exact:
  assumes "store_ok s"
  shows "leases (gc now s) = filter (\<lambda>(i, l). now < ExpireAt l) (leases s) \<and>
         activeCount now (gc now s) = activeCount now s \<and>
         activeCount now s = int (length (leases (gc now s))) \<and>
         activeCount now s = int (card {i. \<exists>e. lease_expiry s i = Some e \<and> now < e})"
proof -
  have ok: "store_ok (gc now s)" using assms by simp
  have "gc now (gc now s) = gc now s"
    using assms ok by (intro leaseStore.equality) (simp_all add: gc_filter)
  then have "activeCount now (gc now s) = int (length (leases (gc now s)))"
    using activeCount_gc_length [OF ok, of now] by simp
  then show ?thesis
    using gc_filter [OF assms, of now] activeCount_gc_length [OF assms, of now]
      activeCount_card [OF assms, of now]
    by (simp add: time_After_def)
qed

theorem gc_exact_witness:
  "activeCount 11000000000 (gc 11000000000 sample_store) = activeCount 11000000000 sample_store \<and>
   leases (gc 12000000000 sample_store) = []"
proof
  show "activeCount 11000000000 (gc 11000000000 sample_store) = activeCount 11000000000 sample_store"
    using gc_exact [OF sample_store_simps(1)] by blast
  have "leases (gc 12000000000 sample_store) = filter (\<lambda>(i, l). 12000000000 < ExpireAt l) (leases sample_store)"
    using gc_exact [OF sample_store_simps(1)] by blast
  also have "\<dots> = []" by (simp add: sample_store_eq)
  finally show "leases (gc 12000000000 sample_store) = []" .
qed

text \<open>
  An abandoned lease is gone for good: once a sweep has run at or after its expiry, its
  client's heartbeat and release are both answered with "not found" and change nothing.
\<close>

theorem abandoned_lease_collected:
  assumes "store_ok s" and "lease_expiry s i = Some e" and "e \<le> t"
  shows "heartbeat now i ttl (gc t s) = (False, gc t s) \<and> release i (gc t s) = (False, gc t s)"
proof -
  have "lease_expiry (gc t s) i = None"
    using assms by (simp add: lease_expiry_gc)
  then show ?thesis by (simp add: lease_expiry_def heartbeat_def release_def)
qed

theorem abandoned_lease_collected_witness:
  "fst (heartbeat 15000000000 sample_id LeaseTTL (gc 12000000000 sample_store)) = False"
  using abandoned_lease_collected [of sample_store sample_id "12 * time_Second" "12 * time_Second"]
  by (simp add: LeaseTTL_def)

text \<open>
  A heartbeat does not look at the expiry: a lease that has expired but has not been swept
  yet is revived by it, and counts as active again from that instant on.
\<close>

theorem heartbeat_revives_expired:
  assumes "store_ok s" and "lease_expiry s i = Some e" and "e \<le> now" and "0 < ttl"
  shows "fst (heartbeat now i ttl s) \<and>
         lease_expiry (snd (heartbeat now i ttl s)) i = Some (now + ttl) \<and>
         0 < activeCount now (snd (heartbeat now i ttl s))"
proof -
  have x: "fst (heartbeat now i ttl s)"
    "lease_expiry (snd (heartbeat now i ttl s)) i = Some (now + ttl)"
    using assms(2) by (auto simp: heartbeat_def lease_expiry_def time_Add_def update_conv)
  moreover have "0 < activeCount now (snd (heartbeat now i ttl s))"
    using assms x(2) by (intro activeCount_pos [of _ i "now + ttl"]) simp_all
  ultimately show ?thesis by simp
qed

theorem heartbeat_revives_expired_witness:
  "0 < activeCount 15000000000 (snd (heartbeat 15000000000 sample_id LeaseTTL sample_store))"
  using heartbeat_revives_expired [of sample_store sample_id "12 * time_Second" "15 * time_Second" LeaseTTL]
  by (simp add: LeaseTTL_def)

text \<open>
  Identifiers: two acquires that each drew eight random bytes get the same identifier only if
  they drew the same bytes. An acquire with an identifier the store does not hold adds one
  active lease and leaves every other lease as it is.
\<close>

theorem acquire_fresh_lease:
  assumes "store_ok s" and "length rd = 8" and "0 < ttl"
    and "lease_expiry s (lease_ID (fst (acquire rd now pid ttl s))) = None"
  shows "activeCount now (snd (acquire rd now pid ttl s)) = activeCount now s + 1 \<and>
         (\<forall>j. j \<noteq> lease_ID (fst (acquire rd now pid ttl s)) \<longrightarrow>
              lease_expiry (snd (acquire rd now pid ttl s)) j = lease_expiry s j) \<and>
         (\<forall>rd' now' pid' ttl' s'. length rd' = 8 \<longrightarrow>
              lease_ID (fst (acquire rd' now' pid' ttl' s')) = lease_ID (fst (acquire rd now pid ttl s)) \<longrightarrow>
              rd' = rd)"
proof -
  let ?i = "''lease-'' @ randHex 8 rd"
  have upd: "leases (snd (acquire rd now pid ttl s)) =
      leases s @ [(?i, \<lparr>lease_ID = ?i, lease_PID = pid, LastBeatAt = now, ExpireAt = time_Add now ttl\<rparr>)]"
    using assms(4) by (simp add: acquire_def lease_expiry_def Let_def update_new_key)
  have "activeCount now (snd (acquire rd now pid ttl s)) = activeCount now s + 1"
    unfolding activeCount_def activeCount_loop_filter upd
    using assms(3) by (simp add: time_After_def time_Add_def)
  then show ?thesis
    using assms(2)
    by (auto simp: lease_expiry_def acquire_def Let_def update_conv randHex_def hex_EncodeToString_inj)
qed

theorem acquire_fresh_lease_witness:
  "activeCount 11000000000 (snd (acquire [9, 9, 9, 9, 9, 9, 9, 9] 11000000000 7 LeaseTTL sample_store)) = 2"
proof -
  have "lease_expiry sample_store (lease_ID (fst (acquire [9, 9, 9, 9, 9, 9, 9, 9] 11000000000 7 LeaseTTL sample_store))) = None"
    by (simp add: sample_store_eq acquire_def lease_expiry_def Let_def
        randHex_def hex_EncodeToString_def hex_digit_def)
  moreover have "activeCount 11000000000 sample_store = 1"
    by (simp add: sample_store_eq activeCount_def time_After_def)
  ultimately show ?thesis
    using acquire_fresh_lease [of sample_store "[9, 9, 9, 9, 9, 9, 9, 9]" LeaseTTL 11000000000 7]
    by (simp add: LeaseTTL_def)
qed

text \<open>
  The ignored error of the random source: when it delivers no bytes, every acquire gets the
  same identifier. The second lease takes the place of the first, and when one of the two
  clients releases, the other one's heartbeats fail although it never released.
\<close>

theorem acquire_without_randomness_collides:
  "let (l1, s1) = acquire [] now1 pid1 ttl s; (l2, s2) = acquire [] now2 pid2 ttl s1;
       (released, s3) = release (lease_ID l1) s2
   in lease_ID l1 = lease_ID l2 \<and> released \<and> fst (heartbeat now3 (lease_ID l2) ttl s3) = False"
  by (simp add: acquire_def Let_def release_def heartbeat_def delete_conv update_conv)

end
