(* ===== verification/Effects.thy ===== *)
theory Effects
  imports Protocol
begin

text \<open>
  The outside world. The program is run against callbacks of its user, containers, processes,
  sockets and clocks that are not its own code. A \<open>history\<close> records every interaction with them,
  newest first; what the outside answers to the next call is a function of the history, given
  to the model as a parameter. Nothing is assumed of these functions unless a theorem says so.
\<close>

datatype 'c event =
    StartCall string
  | StartReturn string "'c option" "go_error option"
  | ContextCancelled
  | InitReturn string "go_error option"
  | TerminateReturn 'c "go_error option"
  | LogOpened string "go_error option"
  | LogClosed string
  | SpawnReturn "go_error + nat"
  | ExitObserved nat "go_error option"
  | SignalInterrupt nat
  | KillGroupReturn nat int "go_error option"
  | KillReturn nat "go_error option"
  | HandleOpened nat
  | HandleClosed nat
  | JobTerminated nat
  | TaskKilled nat
  | DialReturn string bool
  | Slept duration
  | Blocked duration
  | RemoveReturn string "go_error option"
  | InspectReturn string "go_error option"
  | ServerShutdown
  | RuntimeRemoved string
  | RuntimeWritten string "go_error option"
  | Listened string "go_error option"
  | ListenerClosed string
  | FileRead string
  | FileRemoved string
  | FileCopied string string "go_error option"
  | LockOpened string "go_error option"
  | LockClosed string
  | HttpSent string string
  | TestsRun int

type_synonym 'c history = "'c event list"

text \<open>\<^verbatim>\<open>Container.Terminate\<close> of testcontainers-go.\<close>

type_synonym 'c terminator = "'c history \<Rightarrow> 'c \<Rightarrow> go_error option"

text \<open>The names whose \<open>Start\<close> was called, and those for which it has returned.\<close>

fun called_names :: "'c history \<Rightarrow> string multiset" where
  "called_names [] = {#}"
| "called_names (StartCall n # h) = add_mset n (called_names h)"
| "called_names (e # h) = called_names h"

fun returned_names :: "'c history \<Rightarrow> string multiset" where
  "returned_names [] = {#}"
| "returned_names (StartReturn n c err # h) = add_mset n (returned_names h)"
| "returned_names (e # h) = returned_names h"

text \<open>The calls of \<open>Start\<close> that have not returned yet.\<close>

definition outstanding_starts :: "'c history \<Rightarrow> nat" where
  "outstanding_starts h = size (called_names h) - size (returned_names h)"

fun terminated :: "'c history \<Rightarrow> 'c list" where
  "terminated [] = []"
| "terminated (TerminateReturn c err # h) = c # terminated h"
| "terminated (e # h) = terminated h"

text \<open>The container that the successful \<open>Start\<close> of a name handed over, if it handed over one.\<close>

fun returned_container :: "'c history \<Rightarrow> string \<Rightarrow> 'c option" where
  "returned_container [] n = None"
| "returned_container (StartReturn m c None # h) n = (if m = n then c else returned_container h n)"
| "returned_container (e # h) n = returned_container h n"

lemma returned_names_mem: "n \<in># returned_names h \<longleftrightarrow> (\<exists>c err. StartReturn n c err \<in> set h)"
  by (induction h rule: returned_names.induct) auto

lemma returned_names_unique:
  "count (returned_names h) n \<le> 1 \<Longrightarrow> StartReturn n c err \<in> set h \<Longrightarrow> StartReturn n c' err' \<in> set h \<Longrightarrow>
   c' = c \<and> err' = err"
proof (induction h rule: returned_names.induct)
  case (2 m d e h)
  have none: "StartReturn n x y \<notin> set h" if "m = n" for x y
    using 2(2) that returned_names_mem [of n h] by (auto simp: count_eq_zero_iff)
  show ?case using 2 none by (cases "m = n") auto
qed auto

lemma returned_container_None:
  "\<nexists>c. StartReturn n c None \<in> set h \<Longrightarrow> returned_container h n = None"
  by (induction h n rule: returned_container.induct) auto

lemma returned_container_eq:
  "count (returned_names h) n \<le> 1 \<Longrightarrow> StartReturn n c None \<in> set h \<Longrightarrow> returned_container h n = c"
proof (induction h n rule: returned_container.induct)
  case (2 m d h n)
  then show ?case
    using returned_names_mem [of n h] by (auto simp: count_eq_zero_iff split: if_splits)
qed (auto split: if_splits)

lemma terminated_append [simp]: "terminated (xs @ ys) = terminated xs @ terminated ys"
  by (induction xs rule: terminated.induct) auto

end
