(* ===== verification/Start_Pool.thy ===== *)
theory Start_Pool
  imports Effects
begin

text \<open>
  The concurrent start of all containers (\<^verbatim>\<open>startAllContainers\<close> of \<^verbatim>\<open>container/bundle.go\<close>): a pool
  of at most four workers takes registrations from a closed channel, calls their \<open>Start\<close> and
  sends what it returned to the collecting goroutine; the first failure cancels the starts that
  have not begun. The goroutines are actors of a step function, a schedule is a list of actors.
\<close>

section \<open>Registrations\<close>

text \<open>
  \<^verbatim>\<open>Start\<close> and \<^verbatim>\<open>Init\<close> are callbacks of the user, \<open>None\<close> where the field is \<^verbatim>\<open>nil\<close>. \<open>Start\<close> returns
  Go's pair of a (possibly nil) container and a (possibly nil) error.
\<close>

record 'c ContainerRegistration =
  reg_Name :: string
  reg_Start :: "('c history \<Rightarrow> 'c option \<times> go_error option) option"
  reg_Init :: "('c history \<Rightarrow> go_error option) option"

definition maxCreateConcurrency :: nat where
  "maxCreateConcurrency = 4"

record 'c startResult =
  res_name :: string
  res_ctr :: "'c option"
  res_err :: "go_error option"

section \<open>The goroutines\<close>

text \<open>
  A worker waits at the head of its loop, has received a registration, is inside \<open>Start\<close>, has sent
  a failure and is about to cancel, or has left its loop.
\<close>

datatype 'c worker =
    Waiting
  | Received "'c ContainerRegistration"
  | Starting "'c ContainerRegistration"
  | Failing
  | Exited

text \<open>
  \<open>pl_jobs\<close> are the registrations left in the closed channel, \<open>pl_results\<close> what the channel of results
  holds. \<open>pl_cancelled\<close> is \<^verbatim>\<open>createCtx.Err() != nil\<close>, \<open>pl_parent\<close> the same for the caller's context.
  \<open>pl_byName\<close> and \<open>pl_firstErr\<close> are the collector's variables; \<open>pl_log\<close> are the interactions since
  the pool began, \<open>pl_before\<close> those before it.
\<close>

record 'c pool =
  pl_jobs :: "'c ContainerRegistration list"
  pl_workers :: "'c worker list"
  pl_cancelled :: bool
  pl_parent :: bool
  pl_results :: "'c startResult list"
  pl_closed :: bool
  pl_byName :: "(string, 'c option) gomap"
  pl_firstErr :: "go_error option"
  pl_finished :: bool
  pl_log :: "'c history"
  pl_before :: "'c history"

definition pool_init :: "'c ContainerRegistration list \<Rightarrow> bool \<Rightarrow> 'c history \<Rightarrow> 'c pool" where
  "pool_init regs done h =
     \<lparr>pl_jobs = regs,
      pl_workers = replicate (min maxCreateConcurrency (length regs)) Waiting,
      pl_cancelled = done, pl_parent = done, pl_results = [], pl_closed = False,
      pl_byName = [], pl_firstErr = None, pl_finished = False, pl_log = [], pl_before = h\<rparr>"

definition pool_hist :: "'c pool \<Rightarrow> 'c history" where
  "pool_hist p = pl_log p @ pl_before p"

definition set_worker :: "nat \<Rightarrow> 'c worker \<Rightarrow> 'c pool \<Rightarrow> 'c pool" where
  "set_worker i w p = p\<lparr>pl_workers := (pl_workers p)[i := w]\<rparr>"

definition start_failed :: "'c ContainerRegistration \<Rightarrow> go_error \<Rightarrow> go_error" where
  "start_failed r e = errorf_w (''start container '' @ reg_Name r @ '' failed: '') e []"

text \<open>
  The end of a \<open>Start\<close> call: its result is recorded and sent. A container that came with an error
  is not part of what is sent.
\<close>

definition start_returns :: "nat \<Rightarrow> 'c ContainerRegistration \<Rightarrow> 'c option \<times> go_error option \<Rightarrow> 'c pool \<Rightarrow> 'c pool" where
  "start_returns i r res p =
     (let p' = p\<lparr>pl_log := StartReturn (reg_Name r) (fst res) (snd res) # pl_log p\<rparr>
      in case snd res of
           Some e \<Rightarrow>
             set_worker i Failing
               (p'\<lparr>pl_results := pl_results p @ [\<lparr>res_name = reg_Name r, res_ctr = None, res_err = Some (start_failed r e)\<rparr>]\<rparr>)
         | None \<Rightarrow>
             set_worker i Waiting
               (p'\<lparr>pl_results := pl_results p @ [\<lparr>res_name = reg_Name r, res_ctr = fst res, res_err = None\<rparr>]\<rparr>))"

text \<open>A call of a nil \<open>Start\<close> is a panic, after which nothing runs; \<open>NewBundle\<close> rules it out.\<close>

fun has_exited :: "'c worker \<Rightarrow> bool" where
  "has_exited Exited = True"
| "has_exited w = False"

definition worker_step :: "nat \<Rightarrow> 'c pool \<Rightarrow> 'c pool option" where
  "worker_step i p =
     (if i < length (pl_workers p) then
        (case pl_workers p ! i of
           Waiting \<Rightarrow>
             (case pl_jobs p of
                [] \<Rightarrow> Some (set_worker i Exited p)
              | r # rs \<Rightarrow> Some (set_worker i (Received r) (p\<lparr>pl_jobs := rs\<rparr>)))
         | Received r \<Rightarrow>
             if pl_cancelled p then Some (set_worker i Waiting p)
             else Some (set_worker i (Starting r) (p\<lparr>pl_log := StartCall (reg_Name r) # pl_log p\<rparr>))
         | Starting r \<Rightarrow>
             (case reg_Start r of
                None \<Rightarrow> None
              | Some f \<Rightarrow> Some (start_returns i r (f (pool_hist p)) p))
         | Failing \<Rightarrow> Some (set_worker i Waiting (p\<lparr>pl_cancelled := True\<rparr>))
         | Exited \<Rightarrow> None)
      else None)"

definition collect :: "'c startResult \<Rightarrow> 'c pool \<Rightarrow> 'c pool" where
  "collect x p =
     (case res_err x of
        Some e \<Rightarrow> p\<lparr>pl_firstErr := (if pl_firstErr p = None then Some e else pl_firstErr p)\<rparr>
      | None \<Rightarrow> p\<lparr>pl_byName := AList.update (res_name x) (res_ctr x) (pl_byName p)\<rparr>)"

datatype pool_actor = Worker nat | Closer | Collector | Parent

fun pool_step :: "pool_actor \<Rightarrow> 'c pool \<Rightarrow> 'c pool option" where
  "pool_step (Worker i) p = worker_step i p"
| "pool_step Closer p =
     (if \<not> pl_closed p \<and> list_all has_exited (pl_workers p)
      then Some (p\<lparr>pl_closed := True\<rparr>) else None)"
| "pool_step Collector p =
     (if pl_finished p then None
      else case pl_results p of
             x # xs \<Rightarrow> Some (collect x (p\<lparr>pl_results := xs\<rparr>))
           | [] \<Rightarrow> if pl_closed p then Some (p\<lparr>pl_finished := True\<rparr>) else None)"
| "pool_step Parent p =
     (if pl_parent p then None
      else Some (p\<lparr>pl_parent := True, pl_cancelled := True, pl_log := ContextCancelled # pl_log p\<rparr>))"

section \<open>What a worker can do\<close>

lemma worker_step_cases [consumes 1, case_names exit take skip call crash_free_return cancel]:
  assumes "worker_step i p = Some q"
  obtains "i < length (pl_workers p)" "pl_workers p ! i = Waiting" "pl_jobs p = []"
      "q = set_worker i Exited p"
  | r rs where "i < length (pl_workers p)" "pl_workers p ! i = Waiting" "pl_jobs p = r # rs"
      "q = set_worker i (Received r) (p\<lparr>pl_jobs := rs\<rparr>)"
  | r where "i < length (pl_workers p)" "pl_workers p ! i = Received r" "pl_cancelled p"
      "q = set_worker i Waiting p"
  | r where "i < length (pl_workers p)" "pl_workers p ! i = Received r" "\<not> pl_cancelled p"
      "q = set_worker i (Starting r) (p\<lparr>pl_log := StartCall (reg_Name r) # pl_log p\<rparr>)"
  | r f where "i < length (pl_workers p)" "pl_workers p ! i = Starting r" "reg_Start r = Some f"
      "q = start_returns i r (f (pool_hist p)) p"
  | "i < length (pl_workers p)" "pl_workers p ! i = Failing"
      "q = set_worker i Waiting (p\<lparr>pl_cancelled := True\<rparr>)"
  using assms
  by (auto simp: worker_step_def split: if_splits worker.splits list.splits option.splits)

text \<open>
  The two outcomes of a \<open>Start\<close> call have the same shape: one event, one result, and the worker
  goes on as \<open>w\<close>.
\<close>

lemma start_returns_eq:
  obtains x w where
    "start_returns i r res p =
       set_worker i w (p\<lparr>pl_log := StartReturn (reg_Name r) (fst res) (snd res) # pl_log p,
                         pl_results := pl_results p @ [x]\<rparr>)"
    "res_name x = reg_Name r"
    "w = (if snd res = None then Waiting else Failing)"
    "res_ctr x = (if snd res = None then fst res else None)"
    "res_err x = map_option (start_failed r) (snd res)"
  by (cases "snd res") (force simp: start_returns_def)+

lemma set_worker_simps [simp]:
  "pl_jobs (set_worker i w p) = pl_jobs p"
  "pl_workers (set_worker i w p) = (pl_workers p)[i := w]"
  "pl_cancelled (set_worker i w p) = pl_cancelled p"
  "pl_parent (set_worker i w p) = pl_parent p"
  "pl_results (set_worker i w p) = pl_results p"
  "pl_closed (set_worker i w p) = pl_closed p"
  "pl_byName (set_worker i w p) = pl_byName p"
  "pl_firstErr (set_worker i w p) = pl_firstErr p"
  "pl_finished (set_worker i w p) = pl_finished p"
  "pl_log (set_worker i w p) = pl_log p"
  "pl_before (set_worker i w p) = pl_before p"
  by (simp_all add: set_worker_def)

lemma collect_simps [simp]:
  "pl_jobs (collect x p) = pl_jobs p"
  "pl_workers (collect x p) = pl_workers p"
  "pl_cancelled (collect x p) = pl_cancelled p"
  "pl_parent (collect x p) = pl_parent p"
  "pl_results (collect x p) = pl_results p"
  "pl_closed (collect x p) = pl_closed p"
  "pl_finished (collect x p) = pl_finished p"
  "pl_log (collect x p) = pl_log p"
  "pl_before (collect x p) = pl_before p"
  "pl_byName (collect x p) =
     (if res_err x = None then AList.update (res_name x) (res_ctr x) (pl_byName p) else pl_byName p)"
  "pl_firstErr (collect x p) = first_error (pl_firstErr p) (res_err x)"
  by (auto simp: collect_def first_error_def split: option.splits)

section \<open>The invariant: where every registration is\<close>

fun held_name :: "'c worker \<Rightarrow> string multiset" where
  "held_name (Received r) = {#reg_Name r#}"
| "held_name (Starting r) = {#reg_Name r#}"
| "held_name w = {#}"

fun starting_name :: "'c worker \<Rightarrow> string multiset" where
  "starting_name (Starting r) = {#reg_Name r#}"
| "starting_name w = {#}"

fun held_regs :: "'c worker \<Rightarrow> 'c ContainerRegistration set" where
  "held_regs (Received r) = {r}"
| "held_regs (Starting r) = {r}"
| "held_regs w = {}"

definition names_accounted :: "'c pool \<Rightarrow> string multiset" where
  "names_accounted p =
     mset (map reg_Name (pl_jobs p)) + sum_list (map held_name (pl_workers p)) + returned_names (pl_log p)"

definition names_inv :: "'c ContainerRegistration list \<Rightarrow> 'c pool \<Rightarrow> bool" where
  "names_inv regs p \<longleftrightarrow>
     names_accounted p \<subseteq># mset (map reg_Name regs) \<and>
     (\<not> pl_cancelled p \<longrightarrow> names_accounted p = mset (map reg_Name regs)) \<and>
     called_names (pl_log p) = sum_list (map starting_name (pl_workers p)) + returned_names (pl_log p)"

definition control_inv :: "'c ContainerRegistration list \<Rightarrow> 'c pool \<Rightarrow> bool" where
  "control_inv regs p \<longleftrightarrow>
     length (pl_workers p) = min maxCreateConcurrency (length regs) \<and>
     set (pl_jobs p) \<subseteq> set regs \<and> (\<forall>w\<in>set (pl_workers p). held_regs w \<subseteq> set regs) \<and>
     (pl_closed p \<longrightarrow> list_all has_exited (pl_workers p)) \<and>
     (pl_finished p \<longrightarrow> pl_closed p \<and> pl_results p = []) \<and>
     ((\<exists>w\<in>set (pl_workers p). has_exited w) \<longrightarrow> pl_jobs p = []) \<and>
     length (pl_results p) \<le> size (returned_names (pl_log p))"

lemma other_step_cases [consumes 1, case_names worker close collect finish parent]:
  assumes "pool_step a p = Some q"
  obtains i where "a = Worker i" "worker_step i p = Some q"
  | "a = Closer" "\<not> pl_closed p" "list_all has_exited (pl_workers p)" "q = p\<lparr>pl_closed := True\<rparr>"
  | x xs where "a = Collector" "\<not> pl_finished p" "pl_results p = x # xs"
      "q = collect x (p\<lparr>pl_results := xs\<rparr>)"
  | "a = Collector" "\<not> pl_finished p" "pl_results p = []" "pl_closed p" "q = p\<lparr>pl_finished := True\<rparr>"
  | "a = Parent" "\<not> pl_parent p"
      "q = p\<lparr>pl_parent := True, pl_cancelled := True, pl_log := ContextCancelled # pl_log p\<rparr>"
  using assms by (cases a) (auto split: if_splits list.splits)

lemma control_inv_held:
  assumes "control_inv regs p" "i < length (pl_workers p)" "r \<in> held_regs (pl_workers p ! i)"
  shows "r \<in> set regs"
  using assms nth_mem unfolding control_inv_def by blast

lemma has_exited_iff: "has_exited w \<longleftrightarrow> w = Exited"
  by (cases w) auto

lemma names_inv_worker:
  assumes inv: "names_inv regs p" and step: "worker_step i p = Some q"
  shows "names_inv regs q"
proof -
  have i: "i < length (pl_workers p)" using step by (auto simp: worker_step_def split: if_splits)
  obtain r1 where r1: "sum_list (map held_name (pl_workers p)) = held_name (pl_workers p ! i) + r1"
    "\<And>v. sum_list (map held_name ((pl_workers p)[i := v])) = held_name v + r1"
    using sum_list_map_split [OF i, of held_name] by blast
  obtain r2 where r2: "sum_list (map starting_name (pl_workers p)) = starting_name (pl_workers p ! i) + r2"
    "\<And>v. sum_list (map starting_name ((pl_workers p)[i := v])) = starting_name v + r2"
    using sum_list_map_split [OF i, of starting_name] by blast
  note defs = names_inv_def names_accounted_def r1 r2
  from step show ?thesis
  proof (cases rule: worker_step_cases)
    case exit
    with inv show ?thesis by (simp add: defs)
  next
    case (take r rs)
    with inv show ?thesis by (simp add: defs)
  next
    case (skip r)
    with inv have "add_mset (reg_Name r) (names_accounted q) \<subseteq># mset (map reg_Name regs)"
      by (simp add: defs)
    then have "names_accounted q \<subseteq># mset (map reg_Name regs)"
      by (metis add_mset_add_single mset_subset_eq_add_left subset_mset.order_trans)
    with inv skip show ?thesis by (simp add: defs)
  next
    case (call r)
    with inv show ?thesis by (simp add: defs)
  next
    case (crash_free_return r f)
    obtain x w where "q = set_worker i w
        (p\<lparr>pl_log := StartReturn (reg_Name r) (fst (f (pool_hist p))) (snd (f (pool_hist p))) # pl_log p,
           pl_results := pl_results p @ [x]\<rparr>)" "w = Waiting \<or> w = Failing"
      using crash_free_return start_returns_eq [of i r "f (pool_hist p)" p] by metis
    with inv crash_free_return(2) show ?thesis by (auto simp: defs)
  next
    case cancel
    with inv show ?thesis by (simp add: defs)
  qed
qed

lemma names_inv_step:
  assumes "names_inv regs p" "pool_step a p = Some q"
  shows "names_inv regs q"
  using assms(2)
proof (cases rule: other_step_cases)
  case (worker i)
  with assms(1) show ?thesis by (simp add: names_inv_worker)
qed (use assms(1) in \<open>simp_all add: names_inv_def names_accounted_def\<close>)

lemma control_inv_worker:
  assumes inv: "control_inv regs p" and step: "worker_step i p = Some q"
  shows "control_inv regs q"
proof -
  have not_exited: "\<not> list_all has_exited (pl_workers p)" "\<not> pl_closed p" "\<not> pl_finished p"
    using inv step
    by (auto simp: control_inv_def list_all_length worker_step_def has_exited_iff split: if_splits)
  from step show ?thesis
  proof (cases rule: worker_step_cases)
    case exit
    with inv not_exited show ?thesis
      by (auto simp: control_inv_def dest!: set_update_subset_insert [THEN subsetD])
  next
    case (take r rs)
    with inv not_exited show ?thesis
      by (auto simp: control_inv_def dest!: set_update_subset_insert [THEN subsetD])
  next
    case (skip r)
    with inv not_exited show ?thesis
      by (auto simp: control_inv_def dest!: set_update_subset_insert [THEN subsetD])
  next
    case (call r)
    with inv have "r \<in> set regs" using control_inv_held by fastforce
    with call inv not_exited show ?thesis
      by (auto simp: control_inv_def dest!: set_update_subset_insert [THEN subsetD])
  next
    case (crash_free_return r f)
    obtain x w where "q = set_worker i w
        (p\<lparr>pl_log := StartReturn (reg_Name r) (fst (f (pool_hist p))) (snd (f (pool_hist p))) # pl_log p,
           pl_results := pl_results p @ [x]\<rparr>)" "w = Waiting \<or> w = Failing"
      using crash_free_return start_returns_eq [of i r "f (pool_hist p)" p] by metis
    with inv not_exited show ?thesis
      by (auto simp: control_inv_def dest!: set_update_subset_insert [THEN subsetD])
  next
    case cancel
    with inv not_exited show ?thesis
      by (auto simp: control_inv_def dest!: set_update_subset_insert [THEN subsetD])
  qed
qed

lemma control_inv_step:
  assumes "control_inv regs p" "pool_step a p = Some q"
  shows "control_inv regs q"
  using assms(2)
proof (cases rule: other_step_cases)
  case (worker i)
  with assms(1) show ?thesis by (simp add: control_inv_worker)
qed (use assms(1) in \<open>auto simp: control_inv_def\<close>)

section \<open>The invariant: where every result is\<close>

definition start_error :: "'c history \<Rightarrow> bool" where
  "start_error h \<longleftrightarrow> (\<exists>n c e. StartReturn n c (Some e) \<in> set h)"

definition failure_of :: "'c ContainerRegistration list \<Rightarrow> 'c history \<Rightarrow> go_error \<Rightarrow> bool" where
  "failure_of regs h e' \<longleftrightarrow>
     (\<exists>r\<in>set regs. \<exists>c e. StartReturn (reg_Name r) c (Some e) \<in> set h \<and> e' = start_failed r e)"

definition results_inv :: "'c ContainerRegistration list \<Rightarrow> bool \<Rightarrow> 'c pool \<Rightarrow> bool" where
  "results_inv regs done p \<longleftrightarrow>
     gomap_ok (pl_byName p) \<and>
     (\<forall>n c. StartReturn n c None \<in> set (pl_log p) \<longleftrightarrow>
        (\<exists>x\<in>set (pl_results p). res_err x = None \<and> res_name x = n \<and> res_ctr x = c) \<or>
        map_of (pl_byName p) n = Some c) \<and>
     (start_error (pl_log p) \<longrightarrow> (\<exists>x\<in>set (pl_results p). res_err x \<noteq> None) \<or> pl_firstErr p \<noteq> None) \<and>
     (\<forall>x\<in>set (pl_results p). \<forall>e. res_err x = Some e \<longrightarrow> failure_of regs (pl_log p) e) \<and>
     (\<forall>e. pl_firstErr p = Some e \<longrightarrow> failure_of regs (pl_log p) e) \<and>
     (Failing \<in> set (pl_workers p) \<longrightarrow> start_error (pl_log p)) \<and>
     (pl_cancelled p \<longrightarrow> pl_parent p \<or> start_error (pl_log p)) \<and>
     (pl_parent p \<longleftrightarrow> done \<or> ContextCancelled \<in> set (pl_log p))"

lemma start_error_Cons [simp]:
  "start_error (e # h) \<longleftrightarrow> (\<exists>n c err. e = StartReturn n c (Some err)) \<or> start_error h"
  by (auto simp: start_error_def)

lemma failure_of_Cons: "failure_of regs h e \<Longrightarrow> failure_of regs (ev # h) e"
  by (auto simp: failure_of_def)

lemma failure_of_start_error: "failure_of regs h e \<Longrightarrow> start_error h"
  by (auto simp: failure_of_def start_error_def)

lemma results_inv_worker:
  assumes inv: "results_inv regs done p" and ctl: "control_inv regs p" and step: "worker_step i p = Some q"
  shows "results_inv regs done q"
  using step
proof (cases rule: worker_step_cases)
  case (crash_free_return r f)
  let ?res = "f (pool_hist p)"
  obtain x w where q: "q = set_worker i w
      (p\<lparr>pl_log := StartReturn (reg_Name r) (fst ?res) (snd ?res) # pl_log p,
         pl_results := pl_results p @ [x]\<rparr>)"
    and x: "res_name x = reg_Name r" "w = (if snd ?res = None then Waiting else Failing)"
      "res_ctr x = (if snd ?res = None then fst ?res else None)"
      "res_err x = map_option (start_failed r) (snd ?res)"
    using crash_free_return(4) start_returns_eq [of i r ?res p] by metis
  have r: "r \<in> set regs"
    using control_inv_held [OF ctl crash_free_return(1)] crash_free_return(2) by simp
  have w: "Failing \<in> set ((pl_workers p)[i := w]) \<Longrightarrow> w = Failing \<or> Failing \<in> set (pl_workers p)"
    by (auto dest!: set_update_subset_insert [THEN subsetD])
  show ?thesis
  proof (cases "snd ?res")
    case None
    with inv x w show ?thesis by (auto simp: results_inv_def q failure_of_Cons)
  next
    case (Some e)
    have "failure_of regs (StartReturn (reg_Name r) (fst ?res) (Some e) # pl_log p) (start_failed r e)"
      using r by (auto simp: failure_of_def)
    with inv x w Some show ?thesis by (auto simp: results_inv_def q failure_of_Cons)
  qed
next
  case cancel
  then have "Failing \<in> set (pl_workers p)" by (metis nth_mem)
  with inv cancel show ?thesis
    by (auto simp: results_inv_def dest!: set_update_subset_insert [THEN subsetD])
qed (use inv in \<open>auto simp: results_inv_def failure_of_Cons dest!: set_update_subset_insert [THEN subsetD]\<close>)

lemma results_inv_collect:
  assumes inv: "results_inv regs done p" and x: "pl_results p = x # xs"
    and uniq: "\<And>n c c'. StartReturn n c None \<in> set (pl_log p) \<Longrightarrow> StartReturn n c' None \<in> set (pl_log p) \<Longrightarrow> c = c'"
  shows "results_inv regs done (collect x (p\<lparr>pl_results := xs\<rparr>))"
proof (cases "res_err x")
  case None
  have "StartReturn (res_name x) (res_ctr x) None \<in> set (pl_log p)"
    using inv x None by (auto simp: results_inv_def)
  moreover have "map_of (pl_byName p) (res_name x) = Some c \<Longrightarrow> StartReturn (res_name x) c None \<in> set (pl_log p)" for c
    using inv by (auto simp: results_inv_def)
  ultimately have "map_of (pl_byName p) (res_name x) = Some c \<Longrightarrow> c = res_ctr x" for c
    using uniq by metis
  with inv x None show ?thesis
    by (auto simp: results_inv_def update_conv)
next
  case (Some e)
  with inv x show ?thesis by (cases "pl_firstErr p") (auto simp: results_inv_def)
qed

definition pool_inv :: "'c ContainerRegistration list \<Rightarrow> bool \<Rightarrow> 'c pool \<Rightarrow> bool" where
  "pool_inv regs done p \<longleftrightarrow>
     distinct (map reg_Name regs) \<and> list_all (\<lambda>r. reg_Start r \<noteq> None) regs \<and>
     names_inv regs p \<and> control_inv regs p \<and> results_inv regs done p"

lemma returned_subset:
  assumes "names_inv regs p"
  shows "returned_names (pl_log p) \<subseteq># mset (map reg_Name regs)"
proof -
  have "returned_names (pl_log p) \<subseteq># names_accounted p" by (simp add: names_accounted_def)
  also have "\<dots> \<subseteq># mset (map reg_Name regs)" using assms by (simp add: names_inv_def)
  finally show ?thesis .
qed

lemma returned_once:
  assumes "names_inv regs p" "distinct (map reg_Name regs)"
  shows "count (returned_names (pl_log p)) n \<le> 1"
proof -
  have "count (returned_names (pl_log p)) n \<le> count (mset (map reg_Name regs)) n"
    by (rule mset_subset_eq_count [OF returned_subset [OF assms(1)]])
  also have "\<dots> \<le> 1" using assms(2) by (simp add: distinct_count_atmost_1)
  finally show ?thesis .
qed

lemma pool_inv_step:
  assumes inv: "pool_inv regs done p" and step: "pool_step a p = Some q"
  shows "pool_inv regs done q"
proof -
  have res: "results_inv regs done p" and ctl: "control_inv regs p"
    using inv by (simp_all add: pool_inv_def)
  have uniq: "c = c'" if "StartReturn n c None \<in> set (pl_log p)" "StartReturn n c' None \<in> set (pl_log p)"
    for n c c'
    using inv that returned_once [of regs p n] returned_names_unique [of "pl_log p" n]
    unfolding pool_inv_def by blast
  from step have "results_inv regs done q"
  proof (cases rule: other_step_cases)
    case (worker i)
    with res ctl show ?thesis by (simp add: results_inv_worker)
  next
    case (collect x xs)
    with res uniq show ?thesis by (simp add: results_inv_collect)
  next
    case parent
    with res show ?thesis by (simp add: results_inv_def failure_of_Cons)
  qed (use res in \<open>simp_all add: results_inv_def, blast+\<close>)
  with assms show ?thesis
    unfolding pool_inv_def using names_inv_step control_inv_step by blast
qed

section \<open>Every schedule ends\<close>

fun worker_weight :: "'c worker \<Rightarrow> nat" where
  "worker_weight Exited = 0"
| "worker_weight Waiting = 1"
| "worker_weight Failing = 2"
| "worker_weight (Starting r) = 4"
| "worker_weight (Received r) = 5"

definition pool_weight :: "'c pool \<Rightarrow> nat" where
  "pool_weight p =
     6 * length (pl_jobs p) + sum_list (map worker_weight (pl_workers p)) + length (pl_results p) +
     (if pl_closed p then 0 else 1) + (if pl_finished p then 0 else 1) + (if pl_parent p then 0 else 1)"

lemma worker_weight_step:
  assumes step: "worker_step i p = Some q"
  shows "pool_weight q < pool_weight p"
proof -
  have i: "i < length (pl_workers p)" using step by (auto simp: worker_step_def split: if_splits)
  obtain r1 where r1: "sum_list (map worker_weight (pl_workers p)) = worker_weight (pl_workers p ! i) + r1"
    "\<And>v. sum_list (map worker_weight ((pl_workers p)[i := v])) = worker_weight v + r1"
    using sum_list_map_split [OF i, of worker_weight] by blast
  from step show ?thesis
  proof (cases rule: worker_step_cases)
    case (crash_free_return r f)
    obtain x w where "q = set_worker i w
        (p\<lparr>pl_log := StartReturn (reg_Name r) (fst (f (pool_hist p))) (snd (f (pool_hist p))) # pl_log p,
           pl_results := pl_results p @ [x]\<rparr>)" "w = Waiting \<or> w = Failing"
      using crash_free_return start_returns_eq [of i r "f (pool_hist p)" p] by metis
    with crash_free_return(2) show ?thesis by (auto simp: pool_weight_def r1)
  qed (auto simp: pool_weight_def r1)
qed

lemma pool_weight_step: "pool_step a p = Some q \<Longrightarrow> pool_weight q < pool_weight p"
  by (erule other_step_cases, erule worker_weight_step) (auto simp: pool_weight_def)

lemma pool_progress:
  assumes inv: "pool_inv regs done p" and unfinished: "\<not> pl_finished p"
  shows "\<exists>a q. a \<noteq> Parent \<and> pool_step a p = Some q"
proof (cases "list_all has_exited (pl_workers p)")
  case True
  show ?thesis
  proof (cases "pl_closed p")
    case True
    with unfinished show ?thesis
      by (intro exI [of _ Collector]) (auto split: list.splits)
  next
    case False
    with \<open>list_all has_exited (pl_workers p)\<close> show ?thesis by (intro exI [of _ Closer]) simp
  qed
next
  case False
  then obtain i where i: "i < length (pl_workers p)" "pl_workers p ! i \<noteq> Exited"
    by (auto simp: list_all_length has_exited_iff)
  have "\<exists>q. worker_step i p = Some q"
  proof (cases "pl_workers p ! i")
    case (Starting r)
    then have "r \<in> set regs"
      using inv i control_inv_held [of regs p i r] by (simp add: pool_inv_def)
    with inv have "reg_Start r \<noteq> None" by (simp add: pool_inv_def list_all_iff)
    with Starting i show ?thesis by (auto simp: worker_step_def)
  qed (use i in \<open>auto simp: worker_step_def split: list.splits\<close>)
  then show ?thesis by (intro exI [of _ "Worker i"]) simp
qed

interpretation start_pool: live_steps pool_step "pool_inv regs dn" pool_weight pl_finished
  for regs :: "'c ContainerRegistration list" and dn :: bool
  by unfold_locales (use pool_progress in \<open>blast intro: pool_inv_step pool_weight_step\<close>)+

text \<open>The moves of the pool's own goroutines; \<open>Parent\<close>, the cancellation by the caller, is none of them.\<close>

definition goroutine_step :: "pool_actor \<Rightarrow> 'c pool \<Rightarrow> 'c pool option" where
  "goroutine_step a p = (if a = Parent then None else pool_step a p)"

interpretation goroutines: live_steps goroutine_step "pool_inv regs dn" pool_weight pl_finished
  for regs :: "'c ContainerRegistration list" and dn :: bool
proof unfold_locales
  show "\<exists>a t. goroutine_step a s = Some t" if "pool_inv regs dn s" "\<not> pl_finished s" for s
    using pool_progress [OF that] by (metis goroutine_step_def)
qed (auto simp: goroutine_step_def intro: pool_inv_step pool_weight_step split: if_splits)

lemma goroutine_run:
  "run_steps goroutine_step sched p = Some q \<Longrightarrow> run_steps pool_step sched p = Some q \<and> Parent \<notin> set sched"
  by (induction sched arbitrary: p) (auto simp: goroutine_step_def split: option.splits if_splits)

lemma sum_list_worker_init [simp]:
  "sum_list (replicate n {#}) = {#}"
  "sum_list (replicate n (Suc 0)) = n"
  by (induction n) auto

lemma pool_inv_init:
  assumes "distinct (map reg_Name regs)" and "list_all (\<lambda>r. reg_Start r \<noteq> None) regs" and "regs \<noteq> []"
  shows "pool_inv regs done (pool_init regs done h)"
  using assms
  by (auto simp: pool_inv_def pool_init_def names_inv_def names_accounted_def control_inv_def
      results_inv_def maxCreateConcurrency_def start_error_def)

lemma pool_weight_init: "pool_weight (pool_init regs done h) \<le> 7 * length regs + 3"
  by (auto simp: pool_weight_def pool_init_def min_def)

lemma start_returns_frame [simp]:
  "pl_before (start_returns i r res p) = pl_before p"
  "pl_log (start_returns i r res p) = StartReturn (reg_Name r) (fst res) (snd res) # pl_log p"
  by (cases "snd res"; simp add: start_returns_def)+

lemma pool_frame_step:
  assumes "pool_step a p = Some q"
  shows "pl_before q = pl_before p \<and> terminated (pl_log q) = terminated (pl_log p)"
  using assms
proof (cases rule: other_step_cases)
  case (worker i)
  from worker(2) show ?thesis by (cases rule: worker_step_cases) auto
qed auto

lemma pool_frame_run:
  "run_steps pool_step sched p = Some q \<Longrightarrow>
   pl_before q = pl_before p \<and> terminated (pl_log q) = terminated (pl_log p)"
  by (induction sched arbitrary: p) (auto dest: pool_frame_step split: option.splits)

section \<open>What a finished pool has done\<close>

lemma worker_sum_le:
  "size (sum_list (map starting_name ws)) \<le> length ws"
proof (induction ws)
  case (Cons w ws)
  have "size (starting_name w) \<le> 1" by (cases w) auto
  with Cons show ?case by simp
qed simp

lemma starting_held: "sum_list (map starting_name ws) \<subseteq># sum_list (map held_name ws)"
proof (induction ws)
  case (Cons w ws)
  have "starting_name w \<subseteq># held_name w" by (cases w) auto
  with Cons show ?case by (simp add: subset_mset.add_mono)
qed simp

lemma called_once:
  assumes "pool_inv regs done p"
  shows "count (called_names (pl_log p)) n \<le> 1"
proof -
  have "called_names (pl_log p) \<subseteq># sum_list (map held_name (pl_workers p)) + returned_names (pl_log p)"
    using assms by (simp add: pool_inv_def names_inv_def starting_held)
  also have "\<dots> \<subseteq># names_accounted p"
    by (simp add: names_accounted_def)
  also have "\<dots> \<subseteq># mset (map reg_Name regs)"
    using assms by (simp add: pool_inv_def names_inv_def)
  finally have "count (called_names (pl_log p)) n \<le> count (mset (map reg_Name regs)) n"
    by (rule mset_subset_eq_count)
  also have "\<dots> \<le> 1" using assms by (simp add: pool_inv_def distinct_count_atmost_1)
  finally show ?thesis .
qed

lemma pool_bounds:
  assumes inv: "pool_inv regs done p"
  shows "outstanding_starts (pl_log p) \<le> min maxCreateConcurrency (length regs)"
    and "length (pl_results p) \<le> length regs"
proof -
  have "outstanding_starts (pl_log p) = size (sum_list (map starting_name (pl_workers p)))"
    using inv by (simp add: outstanding_starts_def pool_inv_def names_inv_def)
  also have "\<dots> \<le> length (pl_workers p)" by (rule worker_sum_le)
  finally show "outstanding_starts (pl_log p) \<le> min maxCreateConcurrency (length regs)"
    using inv by (simp add: pool_inv_def control_inv_def)
  have "size (returned_names (pl_log p)) \<le> size (mset (map reg_Name regs))"
    using inv unfolding pool_inv_def by (blast intro: size_mset_mono returned_subset)
  then show "length (pl_results p) \<le> length regs"
    using inv by (simp add: pool_inv_def control_inv_def)
qed

lemma exited_sums:
  "list_all has_exited ws \<Longrightarrow> sum_list (map held_name ws) = {#} \<and> sum_list (map starting_name ws) = {#}"
  by (induction ws) (auto simp: has_exited_iff)

text \<open>
  When the collector has left its loop, no \<open>Start\<close> call is under way, the map holds exactly the
  containers that were returned without an error, and unless the pool was cancelled from
  outside or a start failed, it has an entry for every registration.
\<close>

lemma finished_pool:
  assumes inv: "pool_inv regs done p" and fin: "pl_finished p" and ne: "regs \<noteq> []"
  shows "called_names (pl_log p) = returned_names (pl_log p)"
    and "map_of (pl_byName p) n = Some c \<longleftrightarrow> StartReturn n c None \<in> set (pl_log p)"
    and "pl_firstErr p = None \<longleftrightarrow> \<not> start_error (pl_log p)"
    and "pl_firstErr p = Some e \<Longrightarrow> failure_of regs (pl_log p) e"
    and "pl_firstErr p = None \<Longrightarrow> \<not> done \<Longrightarrow> ContextCancelled \<notin> set (pl_log p) \<Longrightarrow>
         returned_names (pl_log p) = mset (map reg_Name regs)"
proof -
  have st: "list_all has_exited (pl_workers p)" "pl_results p = []"
    using inv fin by (auto simp: pool_inv_def control_inv_def)
  then have sums: "sum_list (map held_name (pl_workers p)) = {#}"
    "sum_list (map starting_name (pl_workers p)) = {#}"
    using exited_sums by blast+
  have "pl_workers p \<noteq> []"
    using inv ne
    by (cases regs) (auto simp: pool_inv_def control_inv_def maxCreateConcurrency_def)
  with st(1) have jobs: "pl_jobs p = []"
    using inv by (cases "pl_workers p") (auto simp: pool_inv_def control_inv_def)
  show "called_names (pl_log p) = returned_names (pl_log p)"
    using inv sums by (simp add: pool_inv_def names_inv_def)
  show "map_of (pl_byName p) n = Some c \<longleftrightarrow> StartReturn n c None \<in> set (pl_log p)"
    using inv st by (simp add: pool_inv_def results_inv_def)
  show err: "pl_firstErr p = None \<longleftrightarrow> \<not> start_error (pl_log p)"
    using inv st(2) failure_of_start_error
    unfolding pool_inv_def results_inv_def by (metis empty_iff empty_set not_None_eq)
  show "pl_firstErr p = Some e \<Longrightarrow> failure_of regs (pl_log p) e"
    using inv by (simp add: pool_inv_def results_inv_def)
  show "pl_firstErr p = None \<Longrightarrow> \<not> done \<Longrightarrow> ContextCancelled \<notin> set (pl_log p) \<Longrightarrow>
      returned_names (pl_log p) = mset (map reg_Name regs)"
    using inv err unfolding pool_inv_def results_inv_def names_inv_def names_accounted_def
    by (simp add: sums jobs) blast
qed

end
