(* ===== verification/Bundle.thy ===== *)
theory Bundle
  imports Start_Pool "HOL-Library.Char_ord" "HOL-Library.List_Lexorder"
begin

text \<open>
  The bundle of containers (\<^verbatim>\<open>container/bundle.go\<close>): validation of the registrations, start of all
  containers and their initialisation with rollback, and stop of all of them. Every exported
  operation holds the bundle's mutex throughout, so each is one state transformer; the start takes
  the schedule of its worker pool as an argument and is \<open>None\<close> for a list of moves that is not a
  complete run of the pool. \<open>trm\<close> stands for \<^verbatim>\<open>Container.Terminate\<close>, \<open>dn\<close> says that the context of the
  call is already cancelled when it begins.
\<close>

section \<open>State and construction\<close>

record 'c Bundle =
  bd_started :: bool
  bd_regs :: "'c ContainerRegistration list"
  bd_startOrder :: "string list"
  bd_cleanup :: "'c option list"
  bd_containerBy :: "(string, 'c option) gomap"

fun check_registrations :: "'c ContainerRegistration list \<Rightarrow> string list \<Rightarrow> go_error option" where
  "check_registrations [] seen = None"
| "check_registrations (r # rs) seen =
     (let name = strings_TrimSpace (reg_Name r) in
      if name = [] then Some (ErrorNew ''container registration name cannot be empty'')
      else case reg_Start r of
             None \<Rightarrow> Some (ErrorNew (''container registration start cannot be nil: '' @ name))
           | Some f \<Rightarrow>
               if name \<in> set seen then Some (ErrorNew (''duplicated container name: '' @ name))
               else check_registrations rs (name # seen))"

definition NewBundle :: "'c ContainerRegistration list \<Rightarrow> go_error + 'c Bundle" where
  "NewBundle regs =
     (if regs = [] then Inl (ErrorNew ''container registrations cannot be empty'')
      else case check_registrations regs [] of
             Some e \<Rightarrow> Inl e
           | None \<Rightarrow> Inr \<lparr>bd_started = False, bd_regs = regs, bd_startOrder = [], bd_cleanup = [],
                          bd_containerBy = []\<rparr>)"

section \<open>Stopping\<close>

text \<open>Both stop loops terminate what their list holds, skip nil, and remember the first error.\<close>

fun terminate_all :: "'c terminator \<Rightarrow> 'c option list \<Rightarrow> go_error option \<Rightarrow> 'c history \<Rightarrow> go_error option \<times> 'c history" where
  "terminate_all trm [] firstErr h = (firstErr, h)"
| "terminate_all trm (None # cs) firstErr h = terminate_all trm cs firstErr h"
| "terminate_all trm (Some c # cs) firstErr h =
     (let err = trm h c
      in terminate_all trm cs (first_error firstErr err) (TerminateReturn c err # h))"

definition terminateCreatedContainers ::
  "'c terminator \<Rightarrow> 'c ContainerRegistration list \<Rightarrow> (string, 'c option) gomap \<Rightarrow> 'c history \<Rightarrow> go_error option \<times> 'c history" where
  "terminateCreatedContainers trm regs containers h =
     terminate_all trm
       (map (\<lambda>r. case map_of containers (reg_Name r) of None \<Rightarrow> None | Some ctr \<Rightarrow> ctr) (rev regs)) None h"

definition stopAllContainers :: "'c terminator \<Rightarrow> 'c Bundle \<Rightarrow> 'c history \<Rightarrow> go_error option \<times> 'c history" where
  "stopAllContainers trm b h = terminate_all trm (rev (bd_cleanup b)) None h"

definition resetState :: "'c Bundle \<Rightarrow> 'c Bundle" where
  "resetState b = b\<lparr>bd_started := False, bd_startOrder := [], bd_cleanup := [], bd_containerBy := []\<rparr>"

definition rollback :: "'c terminator \<Rightarrow> 'c Bundle \<Rightarrow> 'c history \<Rightarrow> go_error option \<times> 'c Bundle \<times> 'c history" where
  "rollback trm b h = (let (err, h') = stopAllContainers trm b h in (err, resetState b, h'))"

definition StopAll :: "'c terminator \<Rightarrow> 'c Bundle \<Rightarrow> 'c history \<Rightarrow> go_error option \<times> 'c Bundle \<times> 'c history" where
  "StopAll trm b h =
     (case stopAllContainers trm b h of
        (Some e, h') \<Rightarrow> (Some e, b, h')
      | (None, h') \<Rightarrow> (None, resetState b, h'))"

section \<open>Starting\<close>

definition startAllContainers ::
  "'c terminator \<Rightarrow> pool_actor list \<Rightarrow> 'c ContainerRegistration list \<Rightarrow> bool \<Rightarrow> 'c history \<Rightarrow>
   ((go_error + (string, 'c option) gomap) \<times> 'c history) option" where
  "startAllContainers trm sched regs dn h =
     (if regs = [] then Some (Inr [], h)
      else case run_steps pool_step sched (pool_init regs dn h) of
             None \<Rightarrow> None
           | Some p \<Rightarrow>
               if \<not> pl_finished p then None
               else case pl_firstErr p of
                      Some e \<Rightarrow>
                        (case terminateCreatedContainers trm regs (pl_byName p) (pool_hist p) of
                           (Some te, h') \<Rightarrow> Some (Inl (errorf_w [] e (''; rollback failed: '' @ error_text te)), h')
                         | (None, h') \<Rightarrow> Some (Inl e, h'))
                    | None \<Rightarrow> Some (Inr (pl_byName p), pool_hist p))"

text \<open>The loop that takes over the containers; \<open>Some n\<close> is the first name without one.\<close>

fun adopt :: "'c ContainerRegistration list \<Rightarrow> (string, 'c option) gomap \<Rightarrow> 'c Bundle \<Rightarrow> string option \<times> 'c Bundle" where
  "adopt [] m b = (None, b)"
| "adopt (r # rs) m b =
     (case map_of m (reg_Name r) of
        None \<Rightarrow> (Some (reg_Name r), b)
      | Some ctr \<Rightarrow>
          adopt rs m (b\<lparr>bd_startOrder := bd_startOrder b @ [reg_Name r], bd_cleanup := bd_cleanup b @ [ctr],
                        bd_containerBy := AList.update (reg_Name r) ctr (bd_containerBy b)\<rparr>))"

fun run_inits :: "'c ContainerRegistration list \<Rightarrow> 'c history \<Rightarrow> (string \<times> go_error) option \<times> 'c history" where
  "run_inits [] h = (None, h)"
| "run_inits (r # rs) h =
     (case reg_Init r of
        None \<Rightarrow> run_inits rs h
      | Some f \<Rightarrow>
          (case f h of
             Some e \<Rightarrow> (Some (reg_Name r, e), InitReturn (reg_Name r) (Some e) # h)
           | None \<Rightarrow> run_inits rs (InitReturn (reg_Name r) None # h)))"

definition StartAll ::
  "'c terminator \<Rightarrow> pool_actor list \<Rightarrow> bool \<Rightarrow> 'c Bundle \<Rightarrow> 'c history \<Rightarrow>
   (go_error option \<times> 'c Bundle \<times> 'c history) option" where
  "StartAll trm sched dn b h =
     (if bd_started b then Some (None, b, h)
      else case startAllContainers trm sched (bd_regs b) dn h of
             None \<Rightarrow> None
           | Some (Inl e, h1) \<Rightarrow> Some (Some e, b, h1)
           | Some (Inr m, h1) \<Rightarrow>
               (case adopt (bd_regs b) m b of
                  (Some n, b1) \<Rightarrow>
                    (let (_, h2) = terminateCreatedContainers trm (bd_regs b) m h1
                     in Some (Some (ErrorNew (''container not found after start: '' @ n)), b1, h2))
                | (None, b1) \<Rightarrow>
                    (case run_inits (bd_regs b) h1 of
                       (Some (n, e), h2) \<Rightarrow>
                         (let (_, b2, h3) = rollback trm b1 h2
                          in Some (Some (errorf_w (''run init for '' @ n @ '' failed: '') e []), b2, h3))
                     | (None, h2) \<Rightarrow> Some (None, b1\<lparr>bd_started := True\<rparr>, h2))))"

section \<open>Queries\<close>

definition Started :: "'c Bundle \<Rightarrow> bool" where
  "Started b = bd_started b"

text \<open>\<^verbatim>\<open>sort.Strings\<close> orders byte strings lexicographically.\<close>

definition bundle_Containers :: "'c Bundle \<Rightarrow> string list" where
  "bundle_Containers b = sort (bd_startOrder b)"

section \<open>Lemmas on construction\<close>

definition valid_regs :: "'c ContainerRegistration list \<Rightarrow> bool" where
  "valid_regs regs \<longleftrightarrow> regs \<noteq> [] \<and> distinct (map reg_Name regs) \<and> list_all (\<lambda>r. reg_Start r \<noteq> None) regs"

lemma check_registrations_None:
  "check_registrations regs seen = None \<longleftrightarrow>
     (\<forall>r\<in>set regs. strings_TrimSpace (reg_Name r) \<noteq> [] \<and> reg_Start r \<noteq> None) \<and>
     distinct (map (strings_TrimSpace \<circ> reg_Name) regs) \<and>
     (\<forall>r\<in>set regs. strings_TrimSpace (reg_Name r) \<notin> set seen)"
  by (induction regs arbitrary: seen) (auto simp: Let_def image_iff split: option.splits)

lemma NewBundle_Inr:
  "NewBundle regs = Inr b \<Longrightarrow>
   valid_regs regs \<and> b = \<lparr>bd_started = False, bd_regs = regs, bd_startOrder = [], bd_cleanup = [], bd_containerBy = []\<rparr>"
  by (auto simp: NewBundle_def valid_regs_def list_all_iff check_registrations_None distinct_map inj_on_def
      split: if_splits option.splits)

section \<open>Lemmas on stopping\<close>

definition only_terminates :: "'c history \<Rightarrow> bool" where
  "only_terminates h \<longleftrightarrow> (\<forall>e\<in>set h. \<exists>c err. e = TerminateReturn c err)"

lemma terminate_all_spec:
  assumes "terminate_all trm cs firstErr h = (err, h')"
  obtains new where "h' = new @ h" "only_terminates new"
    "terminated new = rev (somes cs)"
    "err = None \<longleftrightarrow> firstErr = None \<and> (\<forall>c e. TerminateReturn c e \<in> set new \<longrightarrow> e = None)"
  using assms
proof (induction trm cs firstErr h arbitrary: thesis rule: terminate_all.induct)
  case (1 trm firstErr h)
  then show ?case by (auto simp: only_terminates_def)
next
  case (2 trm cs firstErr h)
  then show ?case by auto
next
  case (3 trm c cs firstErr h)
  let ?e = "trm h c"
  from 3(3) have "terminate_all trm cs (first_error firstErr ?e) (TerminateReturn c ?e # h) = (err, h')"
    by (simp add: Let_def)
  with 3(1) [OF refl] obtain new where new: "h' = new @ TerminateReturn c ?e # h" "only_terminates new"
    "terminated new = rev (somes cs)"
    "err = None \<longleftrightarrow> first_error firstErr ?e = None \<and> (\<forall>c e. TerminateReturn c e \<in> set new \<longrightarrow> e = None)"
    by metis
  have "err = None \<longleftrightarrow> firstErr = None \<and>
      (\<forall>c' e. TerminateReturn c' e \<in> set (new @ [TerminateReturn c ?e]) \<longrightarrow> e = None)"
    using new(4) by (cases firstErr) auto
  with new show ?case
    by (intro 3(2) [of "new @ [TerminateReturn c ?e]"]) (simp_all add: only_terminates_def)
qed

section \<open>Lemmas on starting\<close>

text \<open>What the events of a finished pool look like, whatever its schedule.\<close>

definition pool_events :: "'c ContainerRegistration list \<Rightarrow> bool \<Rightarrow> 'c history \<Rightarrow> bool" where
  "pool_events regs dn log \<longleftrightarrow>
     (\<forall>n. count (returned_names log) n \<le> 1) \<and> called_names log = returned_names log \<and>
     returned_names log \<subseteq># mset (map reg_Name regs) \<and> terminated log = [] \<and>
     (\<not> dn \<and> ContextCancelled \<notin> set log \<and> \<not> start_error log \<longrightarrow>
        returned_names log = mset (map reg_Name regs))"

definition map_of_returned :: "(string, 'c option) gomap \<Rightarrow> 'c history \<Rightarrow> bool" where
  "map_of_returned m log \<longleftrightarrow> (\<forall>n c. map_of m n = Some c \<longleftrightarrow> StartReturn n c None \<in> set log)"

lemma pool_run_spec:
  assumes "valid_regs regs" and run: "run_steps pool_step sched (pool_init regs dn h) = Some p"
  shows "pool_inv regs dn p" and "pl_before p = h" and "terminated (pl_log p) = []"
proof -
  have "pool_inv regs dn (pool_init regs dn h)"
    using assms(1) by (intro pool_inv_init) (simp_all add: valid_regs_def)
  then show "pool_inv regs dn p" using run by (rule start_pool.run_inv)
  show "pl_before p = h" "terminated (pl_log p) = []"
    using pool_frame_run [OF run] by (simp_all add: pool_init_def)
qed

lemma finished_pool_spec:
  assumes "valid_regs regs" and run: "run_steps pool_step sched (pool_init regs dn h) = Some p"
    and fin: "pl_finished p"
  shows "pool_hist p = pl_log p @ h" and "pool_events regs dn (pl_log p)"
    and "map_of_returned (pl_byName p) (pl_log p)"
    and "pl_firstErr p = None \<longleftrightarrow> \<not> start_error (pl_log p)"
    and "pl_firstErr p = Some e \<Longrightarrow> failure_of regs (pl_log p) e"
proof -
  note spec = pool_run_spec [OF assms(1) run]
  have ne: "regs \<noteq> []" and dist: "distinct (map reg_Name regs)"
    using assms(1) by (simp_all add: valid_regs_def)
  note finp = finished_pool [OF spec(1) fin ne]
  have "\<forall>n. count (returned_names (pl_log p)) n \<le> 1"
    using spec(1) dist returned_once unfolding pool_inv_def by metis
  moreover have "returned_names (pl_log p) \<subseteq># mset (map reg_Name regs)"
    using spec(1) unfolding pool_inv_def by (blast intro: returned_subset)
  ultimately show "pool_events regs dn (pl_log p)"
    using finp(1) finp(3) finp(5) spec(3) unfolding pool_events_def by blast
  show "pool_hist p = pl_log p @ h" by (simp add: pool_hist_def spec(2))
  show "map_of_returned (pl_byName p) (pl_log p)" using finp(2) by (simp add: map_of_returned_def)
  show "pl_firstErr p = None \<longleftrightarrow> \<not> start_error (pl_log p)" by (rule finp(3))
  show "pl_firstErr p = Some e \<Longrightarrow> failure_of regs (pl_log p) e" by (rule finp(4))
qed

lemma looked_up_container:
  assumes "map_of_returned m log" and "\<forall>n. count (returned_names log) n \<le> 1"
  shows "(case map_of m n of None \<Rightarrow> None | Some ctr \<Rightarrow> ctr) = returned_container log n"
proof (cases "map_of m n")
  case None
  with assms(1) have "\<nexists>c. StartReturn n c None \<in> set log"
    unfolding map_of_returned_def by (metis option.distinct(1))
  with None show ?thesis by (simp add: returned_container_None)
next
  case (Some c)
  with assms have "returned_container log n = c"
    by (auto simp: map_of_returned_def intro: returned_container_eq)
  with Some show ?thesis by simp
qed

text \<open>The containers a start returned, in the order of registration.\<close>

definition returned_in_order :: "'c ContainerRegistration list \<Rightarrow> 'c history \<Rightarrow> 'c list" where
  "returned_in_order regs log = somes (map (\<lambda>r. returned_container log (reg_Name r)) regs)"

lemma terminateCreated_spec:
  assumes "terminateCreatedContainers trm regs m h = (err, h')"
    and "map_of_returned m log" "pool_events regs dn log"
  obtains new where "h' = new @ h" "only_terminates new" "terminated new = returned_in_order regs log"
proof -
  have "terminate_all trm (map (\<lambda>r. returned_container log (reg_Name r)) (rev regs)) None h = (err, h')"
    using assms looked_up_container [OF assms(2)]
    by (simp add: terminateCreatedContainers_def pool_events_def)
  then show thesis
    using that by (rule terminate_all_spec) (simp_all add: returned_in_order_def rev_map [symmetric])
qed

text \<open>
  The outcome of the concurrent start: a map of everything that was returned, or an error after
  everything that was returned has been terminated.
\<close>

lemma startAllContainers_Inr:
  assumes "valid_regs regs" "startAllContainers trm sched regs dn h = Some (Inr m, h')"
  obtains log where "h' = log @ h" "pool_events regs dn log" "map_of_returned m log" "\<not> start_error log"
proof -
  from assms obtain p where p: "run_steps pool_step sched (pool_init regs dn h) = Some p" "pl_finished p"
    "pl_firstErr p = None" "m = pl_byName p" "h' = pool_hist p"
    by (auto simp: startAllContainers_def valid_regs_def split: if_splits option.splits prod.splits)
  with finished_pool_spec [OF assms(1) p(1,2)] that show thesis by metis
qed

lemma startAllContainers_Inl:
  assumes "valid_regs regs" "startAllContainers trm sched regs dn h = Some (Inl e, h')"
  obtains log new where "h' = new @ log @ h" "pool_events regs dn log" "start_error log"
    "only_terminates new" "terminated new = returned_in_order regs log"
    "\<exists>e'. failure_of regs log e' \<and> errors_Is e e'"
proof -
  from assms obtain p e' err where p: "run_steps pool_step sched (pool_init regs dn h) = Some p" "pl_finished p"
    "pl_firstErr p = Some e'"
    and t: "terminateCreatedContainers trm regs (pl_byName p) (pool_hist p) = (err, h')"
    and e: "e = (case err of None \<Rightarrow> e' | Some te \<Rightarrow> errorf_w [] e' (''; rollback failed: '' @ error_text te))"
    by (auto simp: startAllContainers_def valid_regs_def split: if_splits option.splits prod.splits)
  note spec = finished_pool_spec [OF assms(1) p(1,2)]
  from t obtain new where "h' = new @ pool_hist p" "only_terminates new"
    "terminated new = returned_in_order regs (pl_log p)"
    using terminateCreated_spec [OF t spec(3,2)] by blast
  moreover have "errors_Is e e'"
    by (cases e') (auto simp: e errorf_w_def split: option.splits)
  ultimately show thesis
    using spec p(3) that by (metis option.distinct(1))
qed

section \<open>The invariant of the bundle\<close>

text \<open>
  A stopped bundle holds nothing; a started one holds one entry for each registration, in the
  order of registration.
\<close>

definition bundle_ok :: "'c Bundle \<Rightarrow> bool" where
  "bundle_ok b \<longleftrightarrow>
     valid_regs (bd_regs b) \<and>
     (if bd_started b
      then bd_startOrder b = map reg_Name (bd_regs b) \<and> length (bd_cleanup b) = length (bd_regs b) \<and>
           map_of (bd_containerBy b) = map_of (zip (bd_startOrder b) (bd_cleanup b))
      else bd_startOrder b = [] \<and> bd_cleanup b = [] \<and> bd_containerBy b = [])"

lemma bundle_ok_NewBundle: "NewBundle regs = Inr b \<Longrightarrow> bundle_ok b \<and> \<not> bd_started b \<and> bd_regs b = regs"
  by (auto simp: bundle_ok_def dest: NewBundle_Inr)

lemma bundle_ok_resetState: "bundle_ok b \<Longrightarrow> bundle_ok (resetState b)"
  by (auto simp: bundle_ok_def resetState_def)

lemma resetState_stopped: "bundle_ok b \<Longrightarrow> \<not> bd_started b \<Longrightarrow> resetState b = b"
  by (simp add: bundle_ok_def resetState_def)

lemma adopt_all:
  "\<forall>r\<in>set rs. map_of m (reg_Name r) \<noteq> None \<Longrightarrow>
   adopt rs m b =
     (None, b\<lparr>bd_startOrder := bd_startOrder b @ map reg_Name rs,
              bd_cleanup := bd_cleanup b @ map (\<lambda>r. the (map_of m (reg_Name r))) rs,
              bd_containerBy := fold (\<lambda>r. AList.update (reg_Name r) (the (map_of m (reg_Name r)))) rs (bd_containerBy b)\<rparr>)"
  by (induction rs arbitrary: b) auto

lemma adopt_fst_None: "fst (adopt rs m b) = None \<longleftrightarrow> (\<forall>r\<in>set rs. map_of m (reg_Name r) \<noteq> None)"
  by (induction rs arbitrary: b) (auto split: option.splits)

lemma map_of_fold_update:
  "distinct (map f rs) \<Longrightarrow>
   map_of (fold (\<lambda>r. AList.update (f r) (g r)) rs m) = map_of m ++ map_of (zip (map f rs) (map g rs))"
proof (induction rs arbitrary: m)
  case (Cons r rs)
  have "map_of (zip (map f rs) (map g rs)) (f r) = None"
    using Cons.prems by (simp add: map_of_zip_is_None)
  with Cons.IH [of "AList.update (f r) (g r) m"] Cons.prems show ?case
    by (intro ext) (auto simp: update_conv map_add_def split: option.split dest: set_zip_leftD)
qed simp

lemma run_inits_spec:
  assumes "run_inits rs h = (res, h')"
  obtains new where "h' = new @ h" "\<forall>ev\<in>set new. \<exists>n err. ev = InitReturn n err"
    "res = None \<longrightarrow> new = rev (map (\<lambda>r. InitReturn (reg_Name r) None) (filter (\<lambda>r. reg_Init r \<noteq> None) rs))"
  using assms
proof (induction rs h arbitrary: thesis rule: run_inits.induct)
  case (1 h)
  then show ?case by auto
next
  case (2 r rs h)
  show ?case
  proof (cases "reg_Init r")
    case None
    with 2 show ?thesis by auto
  next
    case (Some f)
    show ?thesis
    proof (cases "f h")
      case None
      with 2(4) Some have "run_inits rs (InitReturn (reg_Name r) None # h) = (res, h')" by simp
      then obtain new where
        "h' = new @ InitReturn (reg_Name r) None # h" "\<forall>ev\<in>set new. \<exists>n err. ev = InitReturn n err"
        "res = None \<longrightarrow> new = rev (map (\<lambda>r. InitReturn (reg_Name r) None) (filter (\<lambda>r. reg_Init r \<noteq> None) rs))"
        by (rule 2(2) [OF Some None, rotated])
      with Some show ?thesis
        by (intro 2(3) [of "new @ [InitReturn (reg_Name r) None]"]) auto
    next
      case (Some e)
      with 2(4) \<open>reg_Init r = Some f\<close>
      have "h' = [InitReturn (reg_Name r) (Some e)] @ h" "res = Some (reg_Name r, e)" by auto
      then show ?thesis by (intro 2(3)) auto
    qed
  qed
qed

definition no_start_events :: "'c history \<Rightarrow> bool" where
  "no_start_events h \<longleftrightarrow>
     (\<forall>ev\<in>set h. (\<exists>c err. ev = TerminateReturn c err) \<or> (\<exists>n err. ev = InitReturn n err))"

lemma no_start_events_append [simp]:
  "no_start_events (xs @ ys) \<longleftrightarrow> no_start_events xs \<and> no_start_events ys"
  by (auto simp: no_start_events_def)

lemma only_terminates_no_start: "only_terminates h \<Longrightarrow> no_start_events h"
  by (auto simp: only_terminates_def no_start_events_def)

lemma no_start_events_Cons [simp]:
  "no_start_events (ev # h) \<longleftrightarrow>
     ((\<exists>c err. ev = TerminateReturn c err) \<or> (\<exists>n err. ev = InitReturn n err)) \<and> no_start_events h"
  by (simp add: no_start_events_def)

lemma no_start_events_same:
  "no_start_events new \<Longrightarrow>
   called_names (new @ log) = called_names log \<and> returned_names (new @ log) = returned_names log \<and>
   returned_container (new @ log) n = returned_container log n"
proof (induction new)
  case (Cons ev new)
  then consider c err where "ev = TerminateReturn c err" | m err where "ev = InitReturn m err" by auto
  then show ?case using Cons by cases simp_all
qed simp

lemma returned_in_order_append:
  "no_start_events new \<Longrightarrow> returned_in_order regs (new @ log) = returned_in_order regs log"
  by (simp add: returned_in_order_def no_start_events_same)

lemma inits_terminated: "\<forall>ev\<in>set h. \<exists>n err. ev = InitReturn n err \<Longrightarrow> terminated h = [] \<and> no_start_events h"
  by (induction h) (auto simp: no_start_events_def)

text \<open>Every registration has its container when nothing was cancelled from outside.\<close>

lemma all_names_returned:
  assumes "pool_events regs dn log" "\<not> start_error log" "map_of_returned m log"
    and "\<not> dn" "ContextCancelled \<notin> set log" "r \<in> set regs"
  shows "map_of m (reg_Name r) \<noteq> None"
proof -
  have "reg_Name r \<in># returned_names log"
    using assms by (auto simp: pool_events_def)
  then obtain c err where "StartReturn (reg_Name r) c err \<in> set log"
    by (auto simp: returned_names_mem)
  with assms(2,3) show ?thesis
    by (cases err) (auto simp: start_error_def map_of_returned_def)
qed

lemma StartAll_stopped_cases:
  assumes "bundle_ok b" "\<not> bd_started b" "StartAll trm sched dn b h = Some (res, b', h')"
  obtains (pool) e where "res = Some e" "b' = b" "startAllContainers trm sched (bd_regs b) dn h = Some (Inl e, h')"
  | (missing) m h1 n e err where "startAllContainers trm sched (bd_regs b) dn h = Some (Inr m, h1)"
      "adopt (bd_regs b) m b = (Some n, b')" "res = Some e"
      "terminateCreatedContainers trm (bd_regs b) m h1 = (err, h')"
  | (init) m h1 b1 n e h2 err where "startAllContainers trm sched (bd_regs b) dn h = Some (Inr m, h1)"
      "adopt (bd_regs b) m b = (None, b1)" "run_inits (bd_regs b) h1 = (Some (n, e), h2)"
      "stopAllContainers trm b1 h2 = (err, h')" "b' = resetState b1" "res \<noteq> None"
  | (ok) m h1 b1 where "startAllContainers trm sched (bd_regs b) dn h = Some (Inr m, h1)"
      "adopt (bd_regs b) m b = (None, b1)" "run_inits (bd_regs b) h1 = (None, h')"
      "b' = b1\<lparr>bd_started := True\<rparr>" "res = None"
  using assms
  by (auto simp: StartAll_def rollback_def split: option.splits sum.splits prod.splits)

lemma adopted_bundle:
  assumes "bundle_ok b" "\<not> bd_started b" and "adopt (bd_regs b) m b = (None, b1)"
    and "map_of_returned m log" "pool_events (bd_regs b) dn log"
  shows "b1 = b\<lparr>bd_startOrder := map reg_Name (bd_regs b),
                bd_cleanup := map (\<lambda>r. returned_container log (reg_Name r)) (bd_regs b),
                bd_containerBy := bd_containerBy b1\<rparr>"
    and "map_of (bd_containerBy b1) = map_of (zip (bd_startOrder b1) (bd_cleanup b1))"
    and "resetState b1 = b"
proof -
  have all: "\<forall>r\<in>set (bd_regs b). map_of m (reg_Name r) \<noteq> None"
    using assms(3) adopt_fst_None [of "bd_regs b" m b] by simp
  have the: "the (map_of m (reg_Name r)) = returned_container log (reg_Name r)" if "r \<in> set (bd_regs b)" for r
    using all that assms(5) looked_up_container [OF assms(4), of "reg_Name r"]
    by (auto simp: pool_events_def)
  have b1: "b1 = b\<lparr>bd_startOrder := map reg_Name (bd_regs b),
      bd_cleanup := map (\<lambda>r. the (map_of m (reg_Name r))) (bd_regs b),
      bd_containerBy := fold (\<lambda>r. AList.update (reg_Name r) (the (map_of m (reg_Name r)))) (bd_regs b) []\<rparr>"
    using assms(1-3) adopt_all [OF all, of b] by (simp add: bundle_ok_def)
  with the show "b1 = b\<lparr>bd_startOrder := map reg_Name (bd_regs b),
      bd_cleanup := map (\<lambda>r. returned_container log (reg_Name r)) (bd_regs b),
      bd_containerBy := bd_containerBy b1\<rparr>" by (simp cong: map_cong)
  show "map_of (bd_containerBy b1) = map_of (zip (bd_startOrder b1) (bd_cleanup b1))"
    using assms(1) by (simp add: b1 bundle_ok_def valid_regs_def map_of_fold_update)
  show "resetState b1 = b"
    using assms(1,2) by (simp add: b1 resetState_def bundle_ok_def)
qed

section \<open>Properties\<close>

text \<open>Two registrations whose starts succeed, and a complete schedule of their pool.\<close>

definition sample_reg :: "string \<Rightarrow> nat \<Rightarrow> nat ContainerRegistration" where
  "sample_reg n c = \<lparr>reg_Name = n, reg_Start = Some (\<lambda>h. (Some c, None)), reg_Init = Some (\<lambda>h. None)\<rparr>"

definition sample_regs :: "nat ContainerRegistration list" where
  "sample_regs = [sample_reg ''redis'' 1, sample_reg ''mysql'' 2]"

definition sample_bundle :: "nat Bundle" where
  "sample_bundle = \<lparr>bd_started = False, bd_regs = sample_regs, bd_startOrder = [], bd_cleanup = [],
                    bd_containerBy = []\<rparr>"

definition sample_sched :: "pool_actor list" where
  "sample_sched = replicate 7 (Worker 0) @ [Worker 1, Closer, Collector, Collector, Collector]"

lemma sample_valid [simp]: "valid_regs sample_regs" "bundle_ok sample_bundle" "\<not> bd_started sample_bundle"
  by (simp_all add: valid_regs_def sample_regs_def sample_reg_def bundle_ok_def sample_bundle_def)

lemmas pool_eval =
  pool_init_def maxCreateConcurrency_def sample_regs_def sample_reg_def sample_sched_def
  worker_step_def set_worker_def start_returns_def pool_hist_def collect_def numeral_eq_Suc

text \<open>
  Construction: \<open>NewBundle\<close> succeeds exactly on a non-empty list of registrations whose trimmed
  names are non-empty and pairwise different and whose start functions are not nil; the new bundle
  is stopped, holds these registrations, and satisfies the invariant of bundles.
\<close>

theorem NewBundle_validates:
  "(\<exists>b. NewBundle regs = Inr b \<and> bundle_ok b \<and> \<not> Started b \<and> bd_regs b = regs) \<longleftrightarrow>
   regs \<noteq> [] \<and> distinct (map (strings_TrimSpace \<circ> reg_Name) regs) \<and>
   list_all (\<lambda>r. strings_TrimSpace (reg_Name r) \<noteq> [] \<and> reg_Start r \<noteq> None) regs"
proof -
  have "(\<exists>b. NewBundle regs = Inr b) \<longleftrightarrow> regs \<noteq> [] \<and> check_registrations regs [] = None"
    by (auto simp: NewBundle_def split: option.splits)
  moreover have "NewBundle regs = Inr b \<Longrightarrow> bundle_ok b \<and> \<not> Started b \<and> bd_regs b = regs" for b
    using bundle_ok_NewBundle by (simp add: Started_def)
  ultimately show ?thesis
    by (auto simp: check_registrations_None list_all_iff)
qed

text \<open>
  C27. The concurrent start always ends, also when nobody cancels it: for registrations with distinct names and a
  start function each, some schedule of the pool's own goroutines, without a cancellation by the
  caller, returns a result, no schedule makes more than \<open>7n + 3\<close> moves for \<open>n\<close> registrations, and when none of the
  goroutines can move any more the collector has left its loop: no interleaving deadlocks, waiting for the caller to
  give up.
\<close>

theorem start_pool_terminates:
  assumes "valid_regs regs"
  shows "(\<exists>sched r. Parent \<notin> set sched \<and> startAllContainers trm sched regs dn h = Some r) \<and>
    (\<forall>sched p. run_steps pool_step sched (pool_init regs dn h) = Some p \<longrightarrow>
       length sched \<le> 7 * length regs + 3 \<and> ((\<forall>a. a \<noteq> Parent \<longrightarrow> pool_step a p = None) \<longrightarrow> pl_finished p))"
proof -
  have inv: "pool_inv regs dn (pool_init regs dn h)"
    using assms by (intro pool_inv_init) (simp_all add: valid_regs_def)
  obtain sched p where "run_steps goroutine_step sched (pool_init regs dn h) = Some p" "pl_finished p"
    using goroutines.completes [OF inv] by blast
  then have "Parent \<notin> set sched \<and> run_steps pool_step sched (pool_init regs dn h) = Some p" "pl_finished p"
    using goroutine_run by blast+
  then have "\<exists>sched r. Parent \<notin> set sched \<and> startAllContainers trm sched regs dn h = Some r"
    using assms by (intro exI [of _ sched]) (auto simp: startAllContainers_def valid_regs_def split: option.split prod.split)
  moreover have "length sched \<le> 7 * length regs + 3 \<and> ((\<forall>a. a \<noteq> Parent \<longrightarrow> pool_step a p = None) \<longrightarrow> pl_finished p)"
    if run: "run_steps pool_step sched (pool_init regs dn h) = Some p" for sched p
    using start_pool.run_bounded [OF inv run] pool_weight_init [of regs dn h]
      goroutines.stuck_final [OF start_pool.run_inv [OF inv run]] by (auto simp: goroutine_step_def)
  ultimately show ?thesis by blast
qed

theorem start_pool_terminates_witness:
  "\<exists>sched r. Parent \<notin> set sched \<and> startAllContainers (\<lambda>h c. None) sched sample_regs False [] = Some r"
  using start_pool_terminates [OF sample_valid(1)] by blast

text \<open>
  C28. At every moment of every schedule at most four \<open>Start\<close> calls (and at most as many as there are
  registrations) are under way, no name is started twice, and the channel of results never holds
  more than its capacity, so that no worker ever blocks on sending.
\<close>

theorem start_pool_bounded:
  assumes "valid_regs regs" and "run_steps pool_step sched (pool_init regs dn h) = Some p"
  shows "outstanding_starts (pl_log p) \<le> 4 \<and> outstanding_starts (pl_log p) \<le> length regs \<and>
         count (called_names (pl_log p)) n \<le> 1 \<and> length (pl_results p) \<le> length regs"
  using pool_bounds [OF pool_run_spec(1) [OF assms]] called_once [OF pool_run_spec(1) [OF assms]]
  by (simp add: maxCreateConcurrency_def)

theorem start_pool_bounded_witness:
  "\<exists>p. run_steps pool_step [Worker 0, Worker 1, Worker 0, Worker 1] (pool_init sample_regs False []) = Some p \<and>
       outstanding_starts (pl_log p) = 2 \<and> outstanding_starts (pl_log p) \<le> 4"
proof -
  obtain p where p: "run_steps pool_step [Worker 0, Worker 1, Worker 0, Worker 1] (pool_init sample_regs False []) = Some p"
    "outstanding_starts (pl_log p) = 2"
    by (simp add: pool_eval outstanding_starts_def)
  with start_pool_bounded [OF sample_valid(1) p(1)] show ?thesis by blast
qed

end
