(* ===== verification/Bundle_Lifecycle.thy ===== *)
theory Bundle_Lifecycle
  imports Bundle
begin

text \<open>
  What a start and a stop of all containers guarantee together: the state and the interactions
  after a successful start, the rollback of a failed one, the stop, and what is left behind when
  the context of the caller is cancelled while the containers are being created.
\<close>

section \<open>The events of a start\<close>

lemma returned_in_order_mem:
  assumes "\<forall>n. count (returned_names log) n \<le> 1" and "c \<in> set (returned_in_order regs log)"
  shows "\<exists>n. StartReturn n (Some c) None \<in> set log"
proof -
  have "Some c \<in> (\<lambda>r. returned_container log (reg_Name r)) ` set regs"
    using assms(2) by (simp add: returned_in_order_def)
  then obtain r :: "'a ContainerRegistration" where "Some c = returned_container log (reg_Name r)" by (rule imageE)
  note r = this [symmetric]
  then have "\<exists>d. StartReturn (reg_Name r) d None \<in> set log"
    using returned_container_None [of "reg_Name r" log] r by fastforce
  with assms(1) show ?thesis
    using returned_container_eq r by metis
qed

lemma adopt_frame: "bd_started (snd (adopt rs m b)) = bd_started b \<and> bd_regs (snd (adopt rs m b)) = bd_regs b"
  by (induction rs m b rule: adopt.induct) (auto split: option.splits)

lemma success_returned:
  assumes "pool_events regs dn log" "\<not> start_error log" "map_of_returned m log"
    and "map_of m n = Some c"
  shows "StartReturn n (returned_container log n) None \<in> set log"
proof -
  from assms(3,4) have "StartReturn n c None \<in> set log" by (auto simp: map_of_returned_def)
  moreover from assms(1) this have "returned_container log n = c"
    by (auto simp: pool_events_def intro: returned_container_eq)
  ultimately show ?thesis by simp
qed

lemma all_returned:
  assumes "pool_events regs dn log" and "distinct (map reg_Name regs)"
    and "\<forall>r\<in>set regs. StartReturn (reg_Name r) (c r) None \<in> set log"
  shows "returned_names log = mset (map reg_Name regs)"
proof (rule subset_mset.antisym)
  show "returned_names log \<subseteq># mset (map reg_Name regs)"
    using assms(1) by (simp add: pool_events_def)
  show "mset (map reg_Name regs) \<subseteq># returned_names log"
  proof (rule mset_subset_eqI)
    fix n
    show "count (mset (map reg_Name regs)) n \<le> count (returned_names log) n"
    proof (cases "n \<in> set (map reg_Name regs)")
      case True
      with assms(3) have "n \<in># returned_names log" by (auto simp: returned_names_mem)
      then have "1 \<le> count (returned_names log) n" by (simp add: Suc_le_eq)
      moreover have "count (mset (map reg_Name regs)) n \<le> 1"
        using assms(2) by (simp only: distinct_count_atmost_1) simp
      ultimately show ?thesis by (rule order_trans [rotated])
    next
      case False
      then have "count (mset (map reg_Name regs)) n = 0" by (simp only: count_mset_0_iff simp_thms)
      then show ?thesis by (simp only: le0)
    qed
  qed
qed

text \<open>What every failure of a start leaves: rolled back events and a stopped bundle.\<close>

lemma failed_StartAll:
  assumes ok: "bundle_ok b" "\<not> bd_started b" and run: "StartAll trm sched dn b h = Some (Some e, b', h')"
  obtains log new where "h' = new @ log @ h" "pool_events (bd_regs b) dn log" "no_start_events new"
    "terminated new = returned_in_order (bd_regs b) log" "\<not> bd_started b'" "bd_regs b' = bd_regs b"
    "\<not> dn \<Longrightarrow> ContextCancelled \<notin> set log \<Longrightarrow> b' = b"
proof -
  have valid: "valid_regs (bd_regs b)" using ok by (simp add: bundle_ok_def)
  from ok run show thesis
  proof (cases rule: StartAll_stopped_cases)
    case (pool e')
    from startAllContainers_Inl [OF valid pool(3)] obtain log new where
      "h' = new @ log @ h" "pool_events (bd_regs b) dn log" "only_terminates new"
      "terminated new = returned_in_order (bd_regs b) log" by metis
    with pool(2) ok(2) that show thesis by (blast intro: only_terminates_no_start)
  next
    case (missing m h1 n e' err)
    from startAllContainers_Inr [OF valid missing(1)] obtain log where log:
      "h1 = log @ h" "pool_events (bd_regs b) dn log" "map_of_returned m log" "\<not> start_error log" .
    from terminateCreated_spec [OF missing(4) log(3,2)] obtain new where new:
      "h' = new @ h1" "only_terminates new" "terminated new = returned_in_order (bd_regs b) log" .
    have "\<not> (\<forall>r\<in>set (bd_regs b). map_of m (reg_Name r) \<noteq> None)"
      using missing(2) adopt_fst_None [of "bd_regs b" m b] by simp
    then have "\<not> (\<not> dn \<and> ContextCancelled \<notin> set log)"
      using all_names_returned [OF log(2,4,3)] by blast
    moreover have "\<not> bd_started b'" "bd_regs b' = bd_regs b"
      using adopt_frame [of "bd_regs b" m b] missing(2) ok(2) by simp_all
    ultimately show thesis
      using that new log only_terminates_no_start by metis
  next
    case (init m h1 b1 n e' h2 err)
    from startAllContainers_Inr [OF valid init(1)] obtain log where log:
      "h1 = log @ h" "pool_events (bd_regs b) dn log" "map_of_returned m log" "\<not> start_error log" .
    note b1 = adopted_bundle [OF ok init(2) log(3,2)]
    from run_inits_spec [OF init(3)] obtain inits where inits:
      "h2 = inits @ h1" "\<forall>ev\<in>set inits. \<exists>n err. ev = InitReturn n err" by metis
    from init(4) obtain new where new: "h' = new @ h2" "only_terminates new"
      "terminated new = rev (somes (rev (bd_cleanup b1)))"
      unfolding stopAllContainers_def by (rule terminate_all_spec)
    have "bd_cleanup b1 = map (\<lambda>r. returned_container log (reg_Name r)) (bd_regs b)"
      by (subst b1(1)) simp
    with new(3) have "terminated (new @ inits) = returned_in_order (bd_regs b) log"
      using inits_terminated [OF inits(2)] by (simp add: returned_in_order_def)
    moreover have "no_start_events (new @ inits)"
      using new(2) inits_terminated [OF inits(2)] by (simp add: only_terminates_no_start)
    moreover have "b' = b" using init(5) b1(3) by simp
    ultimately show thesis
      using that [of "new @ inits" log] new(1) inits(1) log(1,2) ok(2) by simp
  qed simp
qed

lemma succeeded_StartAll:
  assumes ok: "bundle_ok b" "\<not> bd_started b" and run: "StartAll trm sched dn b h = Some (None, b', h')"
  obtains log where
    "h' = rev (map (\<lambda>r. InitReturn (reg_Name r) None) (filter (\<lambda>r. reg_Init r \<noteq> None) (bd_regs b))) @ log @ h"
    "pool_events (bd_regs b) dn log" "bd_started b'" "bd_regs b' = bd_regs b" "bundle_ok b'"
    "bd_cleanup b' = map (\<lambda>r. returned_container log (reg_Name r)) (bd_regs b)"
    "bd_startOrder b' = map reg_Name (bd_regs b)" "resetState b' = b"
    "\<And>r. r \<in> set (bd_regs b) \<Longrightarrow>
        StartReturn (reg_Name r) (returned_container log (reg_Name r)) None \<in> set log"
proof -
  have valid: "valid_regs (bd_regs b)" using ok by (simp add: bundle_ok_def)
  from ok run obtain m h1 b1 where st: "startAllContainers trm sched (bd_regs b) dn h = Some (Inr m, h1)"
    "adopt (bd_regs b) m b = (None, b1)" "run_inits (bd_regs b) h1 = (None, h')"
    "b' = b1\<lparr>bd_started := True\<rparr>"
    by (cases rule: StartAll_stopped_cases) auto
  from startAllContainers_Inr [OF valid st(1)] obtain log where log:
    "h1 = log @ h" "pool_events (bd_regs b) dn log" "map_of_returned m log" "\<not> start_error log" .
  note b1 = adopted_bundle [OF ok st(2) log(3,2)]
  have regs: "bd_regs b1 = bd_regs b" "bd_startOrder b1 = map reg_Name (bd_regs b)"
    "bd_cleanup b1 = map (\<lambda>r. returned_container log (reg_Name r)) (bd_regs b)"
    by (subst b1(1), simp)+
  have "bundle_ok b'"
    using valid b1(2) by (simp add: bundle_ok_def st(4) regs)
  moreover have "resetState b' = b"
    using b1(3) by (simp add: st(4) resetState_def)
  moreover have "StartReturn (reg_Name r) (returned_container log (reg_Name r)) None \<in> set log"
    if "r \<in> set (bd_regs b)" for r
    using that adopt_fst_None [of "bd_regs b" m b] st(2) success_returned [OF log(2,4,3)] by auto
  moreover obtain new where "h' = new @ h1"
    "new = rev (map (\<lambda>r. InitReturn (reg_Name r) None) (filter (\<lambda>r. reg_Init r \<noteq> None) (bd_regs b)))"
    using run_inits_spec [OF st(3)] by metis
  ultimately show thesis
    using that log regs by (simp add: st(4))
qed

lemma StopAll_spec:
  "\<exists>err new. StopAll trm b h = (err, if err = None then resetState b else b, new @ h) \<and>
     only_terminates new \<and> terminated new = somes (bd_cleanup b) \<and>
     (err = None \<longleftrightarrow> (\<forall>c e. TerminateReturn c e \<in> set new \<longrightarrow> e = None))"
proof -
  obtain err h' where stop: "stopAllContainers trm b h = (err, h')" by fastforce
  then obtain new where "h' = new @ h" "only_terminates new" "terminated new = somes (bd_cleanup b)"
    "err = None \<longleftrightarrow> (\<forall>c e. TerminateReturn c e \<in> set new \<longrightarrow> e = None)"
    unfolding stopAllContainers_def by (rule terminate_all_spec) simp
  with stop show ?thesis
    by (intro exI [of _ err] exI [of _ new]) (auto simp: StopAll_def split: option.split)
qed

section \<open>Properties\<close>

text \<open>
  C26. From a consistent bundle, that is a new one or one that stops and starts without a cancelled context have left (the
  invariant \<open>bundle_ok\<close>; a cancelled start can break it, and then this fails: \<open>cancelled_start_leaves_stale_entries\<close>), a
  successful start leaves a started bundle that satisfies the invariant again: every registration's
  \<open>Start\<close> was called and returned exactly once, entry by entry the bundle holds the container that
  the start of that name returned, in the order of registration, nothing was terminated, and after
  all starts every \<open>Init\<close> ran once, in the order of registration.
\<close>

theorem StartAll_success:
  assumes "bundle_ok b" "\<not> Started b" and "StartAll trm sched dn b h = Some (None, b', h')"
  shows "Started b' \<and> bundle_ok b' \<and> bd_regs b' = bd_regs b \<and>
    bd_startOrder b' = map reg_Name (bd_regs b) \<and>
    (\<exists>log. h' = rev (map (\<lambda>r. InitReturn (reg_Name r) None) (filter (\<lambda>r. reg_Init r \<noteq> None) (bd_regs b))) @ log @ h \<and>
      called_names log = returned_names log \<and> returned_names log = mset (bd_startOrder b') \<and>
      terminated log = [] \<and>
      list_all2 (\<lambda>n c. StartReturn n c None \<in> set log) (bd_startOrder b') (bd_cleanup b'))"
proof -
  from assms obtain log where log:
    "h' = rev (map (\<lambda>r. InitReturn (reg_Name r) None) (filter (\<lambda>r. reg_Init r \<noteq> None) (bd_regs b))) @ log @ h"
    "pool_events (bd_regs b) dn log" "bd_started b'" "bd_regs b' = bd_regs b" "bundle_ok b'"
    "bd_cleanup b' = map (\<lambda>r. returned_container log (reg_Name r)) (bd_regs b)"
    "bd_startOrder b' = map reg_Name (bd_regs b)"
    "\<And>r. r \<in> set (bd_regs b) \<Longrightarrow> StartReturn (reg_Name r) (returned_container log (reg_Name r)) None \<in> set log"
    unfolding Started_def using succeeded_StartAll by metis
  have all: "list_all2 (\<lambda>n c. StartReturn n c None \<in> set log) (bd_startOrder b') (bd_cleanup b')"
    using log(8) by (simp add: log(6,7) list_all2_conv_all_nth)
  moreover have "returned_names log = mset (map reg_Name (bd_regs b))"
    by (rule all_returned [OF log(2)]) (use assms(1) log(8) in \<open>auto simp: bundle_ok_def valid_regs_def\<close>)
  ultimately show ?thesis
    using log unfolding Started_def pool_events_def by metis
qed

lemmas bundle_eval =
  pool_eval StartAll_def startAllContainers_def sample_bundle_def adopt_fst_None terminateCreatedContainers_def
  stopAllContainers_def rollback_def resetState_def errorf_w_def start_failed_def Let_def

lemma sample_start:
  "\<exists>b' h'. StartAll (\<lambda>h c. None) sample_sched False sample_bundle [] = Some (None, b', h')"
  by (simp add: bundle_eval)

theorem StartAll_success_witness:
  "\<exists>b' h'. StartAll (\<lambda>h c. None) sample_sched False sample_bundle [] = Some (None, b', h') \<and>
     bd_startOrder b' = [''redis'', ''mysql''] \<and> Started b'"
proof -
  obtain b' h' where run: "StartAll (\<lambda>h c. None) sample_sched False sample_bundle [] = Some (None, b', h')"
    using sample_start by blast
  have "\<not> Started sample_bundle" by (simp add: Started_def sample_bundle_def)
  from StartAll_success [OF sample_valid(2) this run] have
    "Started b'" "bd_startOrder b' = map reg_Name (bd_regs sample_bundle)" by blast+
  with run show ?thesis by (simp add: sample_bundle_def sample_regs_def sample_reg_def)
qed

text \<open>
  C5. A failed start of a consistent bundle (the invariant \<open>bundle_ok\<close>) is rolled back: every container that some \<open>Start\<close> returned without an error is
  terminated, once and in the reverse order of registration, whatever failed (a start, an \<open>Init\<close>,
  a missing container) and whatever the interleaving; the bundle is not started, and unless the
  caller's context was cancelled it is in the state it was in before.
\<close>

theorem failed_start_rolls_back:
  assumes "bundle_ok b" "\<not> Started b" and "StartAll trm sched dn b h = Some (Some e, b', h')"
  shows "\<exists>new. h' = new @ h \<and> terminated new = returned_in_order (bd_regs b) new \<and>
    called_names new = returned_names new \<and> \<not> Started b' \<and>
    (\<not> dn \<and> ContextCancelled \<notin> set new \<longrightarrow> b' = b)"
proof -
  from assms obtain log new where log: "h' = new @ log @ h" "pool_events (bd_regs b) dn log"
    "no_start_events new" "terminated new = returned_in_order (bd_regs b) log" "\<not> bd_started b'"
    "\<not> dn \<Longrightarrow> ContextCancelled \<notin> set log \<Longrightarrow> b' = b"
    unfolding Started_def using failed_StartAll by metis
  have "called_names (new @ log) = called_names log" "returned_names (new @ log) = returned_names log"
    using no_start_events_same [OF log(3)] by blast+
  with log show ?thesis
    by (intro exI [of _ "new @ log"])
      (auto simp: returned_in_order_append pool_events_def Started_def)
qed

text \<open>A second container that cannot be started, with the first one already running.\<close>

definition failing_bundle :: "nat Bundle" where
  "failing_bundle = sample_bundle\<lparr>bd_regs :=
     [sample_reg ''redis'' 1, (sample_reg ''mysql'' 2)\<lparr>reg_Start := Some (\<lambda>h. (Some 2, Some (ErrorNew ''no port'')))\<rparr>]\<rparr>"

definition failing_sched :: "pool_actor list" where
  "failing_sched = replicate 7 (Worker 0) @ [Worker 0, Worker 1, Closer, Collector, Collector, Collector]"

lemma failing_ok: "bundle_ok failing_bundle" "\<not> Started failing_bundle"
  by (simp_all add: failing_bundle_def sample_bundle_def bundle_ok_def valid_regs_def sample_reg_def Started_def)

lemma failing_start:
  "\<exists>e b' h'. StartAll (\<lambda>h c. None) failing_sched False failing_bundle [] = Some (Some e, b', h') \<and>
     ContextCancelled \<notin> set h' \<and> terminated h' = [1] \<and>
     StartReturn ''mysql'' (Some 2) (Some (ErrorNew ''no port'')) \<in> set h' \<and>
     (\<forall>n. StartReturn n (Some 2) None \<notin> set h')"
  by (simp add: bundle_eval failing_bundle_def failing_sched_def)

theorem failed_start_rolls_back_witness:
  "\<exists>e b' h'. StartAll (\<lambda>h c. None) failing_sched False failing_bundle [] = Some (Some e, b', h') \<and>
     b' = failing_bundle \<and> terminated h' = [1]"
proof -
  obtain e b' h' where run:
    "StartAll (\<lambda>h c. None) failing_sched False failing_bundle [] = Some (Some e, b', h')"
    "ContextCancelled \<notin> set h'" "terminated h' = [1]"
    using failing_start by blast
  from failed_start_rolls_back [OF failing_ok run(1)] run(2) have "b' = failing_bundle" by auto
  with run show ?thesis by blast
qed

text \<open>
  A container that \<open>Start\<close> handed over together with an error is never terminated: neither the
  worker nor the rollback keeps it, so it is left running when the start fails.
\<close>

theorem errored_container_never_terminated:
  assumes "bundle_ok b" "\<not> Started b" and "StartAll trm sched dn b h = Some (Some e, b', h')"
    and "h' = new @ h" and "StartReturn n (Some c) (Some err) \<in> set new"
    and "\<forall>m. StartReturn m (Some c) None \<notin> set new"
  shows "c \<notin> set (terminated new)"
proof -
  from assms(1-4) obtain log rb where log: "new = rb @ log" "pool_events (bd_regs b) dn log"
    "no_start_events rb" "terminated rb = returned_in_order (bd_regs b) log"
    unfolding Started_def using failed_StartAll by (metis append.assoc append_same_eq)
  then have "terminated new = returned_in_order (bd_regs b) log" "\<forall>n. count (returned_names log) n \<le> 1"
    by (simp_all add: pool_events_def)
  with assms(6) log(1) show ?thesis
    using returned_in_order_mem [of log c "bd_regs b"] by auto
qed

theorem errored_container_never_terminated_witness:
  "\<exists>e b' h'. StartAll (\<lambda>h c. None) failing_sched False failing_bundle [] = Some (Some e, b', h') \<and>
     StartReturn ''mysql'' (Some 2) (Some (ErrorNew ''no port'')) \<in> set h' \<and> 2 \<notin> set (terminated h')"
proof -
  obtain e b' h' where run:
    "StartAll (\<lambda>h c. None) failing_sched False failing_bundle [] = Some (Some e, b', h')"
    "StartReturn ''mysql'' (Some 2) (Some (ErrorNew ''no port'')) \<in> set h'"
    "\<forall>n. StartReturn n (Some 2) None \<notin> set h'"
    using failing_start by blast
  from errored_container_never_terminated [OF failing_ok run(1) _ run(2,3)] run show ?thesis by auto
qed

text \<open>
  \<open>StopAll\<close> terminates every container it holds, the last one first, and goes on after a failure;
  it succeeds exactly when every \<open>Terminate\<close> did, and only then forgets its containers. After an
  error the bundle is unchanged, so the next \<open>StopAll\<close> tries all of them again.
\<close>

theorem StopAll_terminates_everything:
  "\<exists>err new. StopAll trm b h = (err, if err = None then resetState b else b, new @ h) \<and>
     only_terminates new \<and> terminated new = somes (bd_cleanup b) \<and>
     (err = None \<longleftrightarrow> (\<forall>c e. TerminateReturn c e \<in> set new \<longrightarrow> e = None)) \<and>
     (bundle_ok b \<longrightarrow> bundle_ok (fst (snd (StopAll trm b h))))"
proof -
  obtain err new where "StopAll trm b h = (err, if err = None then resetState b else b, new @ h)"
    "only_terminates new" "terminated new = somes (bd_cleanup b)"
    "err = None \<longleftrightarrow> (\<forall>c e. TerminateReturn c e \<in> set new \<longrightarrow> e = None)"
    using StopAll_spec by metis
  then show ?thesis by (auto simp: bundle_ok_resetState)
qed

theorem StopAll_terminates_everything_witness:
  "\<exists>new. StopAll (\<lambda>h c. if c = 1 then Some (ErrorNew ''busy'') else None)
       (sample_bundle\<lparr>bd_cleanup := [Some (1::nat), None, Some 2]\<rparr>) [] =
     (Some (ErrorNew ''busy''), sample_bundle\<lparr>bd_cleanup := [Some 1, None, Some 2]\<rparr>, new) \<and>
     only_terminates new \<and> terminated new = [1, 2]"
proof -
  let ?trm = "\<lambda>h c. if c = 1 then Some (ErrorNew ''busy'') else None"
  let ?b = "sample_bundle\<lparr>bd_cleanup := [Some (1::nat), None, Some 2]\<rparr>"
  have "fst (StopAll ?trm ?b []) = Some (ErrorNew ''busy'')"
    by (simp add: StopAll_def stopAllContainers_def Let_def)
  with StopAll_terminates_everything [of ?trm ?b "[]"] show ?thesis by auto
qed

text \<open>
  C25. Start and stop are balanced for a consistent bundle, that is a new one or one that stops and starts without a
  cancelled context have left (the invariant \<open>bundle_ok\<close>; a cancelled start can break it, and then this fails:
  \<open>cancelled_start_leaves_stale_entries\<close>): after a successful start and a successful stop it is in
  the state it began with, and the containers that were terminated are exactly those the starts
  returned, each once, in the reverse order of registration.
\<close>

theorem start_stop_balanced:
  assumes "bundle_ok b" "\<not> Started b" and "StartAll trm sched dn b h = Some (None, b1, h1)"
    and "StopAll trm b1 h1 = (None, b2, h2)"
  shows "b2 = b \<and> (\<exists>new. h2 = new @ h \<and> terminated new = returned_in_order (bd_regs b) new \<and>
    called_names new = mset (map reg_Name (bd_regs b)) \<and> returned_names new = called_names new)"
proof -
  from assms(1-3) obtain log where log:
    "h1 = rev (map (\<lambda>r. InitReturn (reg_Name r) None) (filter (\<lambda>r. reg_Init r \<noteq> None) (bd_regs b))) @ log @ h"
    "pool_events (bd_regs b) dn log" "resetState b1 = b"
    "bd_cleanup b1 = map (\<lambda>r. returned_container log (reg_Name r)) (bd_regs b)"
    "\<And>r. r \<in> set (bd_regs b) \<Longrightarrow> StartReturn (reg_Name r) (returned_container log (reg_Name r)) None \<in> set log"
    unfolding Started_def using succeeded_StartAll by metis
  let ?inits = "rev (map (\<lambda>r. InitReturn (reg_Name r) None) (filter (\<lambda>r. reg_Init r \<noteq> None) (bd_regs b))) :: 'a history"
  have inits: "terminated ?inits = [] \<and> no_start_events ?inits" by (rule inits_terminated) auto
  from StopAll_spec [of trm b1 h1] assms(4) obtain new where new:
    "h2 = new @ h1" "only_terminates new" "terminated new = somes (bd_cleanup b1)" "b2 = resetState b1"
    by auto
  have quiet: "no_start_events (new @ ?inits)"
    using new(2) inits by (simp add: only_terminates_no_start)
  have names: "called_names (rb @ log) = called_names log \<and> returned_names (rb @ log) = returned_names log"
    if "no_start_events rb" for rb
    using no_start_events_same [OF that] by blast
  have "returned_names log = mset (map reg_Name (bd_regs b))"
    by (rule all_returned [OF log(2)]) (use assms(1) log(5) in \<open>auto simp: bundle_ok_def valid_regs_def\<close>)
  moreover have "terminated (new @ ?inits @ log) = returned_in_order (bd_regs b) (new @ ?inits @ log)"
    using returned_in_order_append [OF quiet, of "bd_regs b" log] new(3) log(2,4) inits
    by (simp add: pool_events_def returned_in_order_def)
  ultimately show ?thesis
    using names [OF quiet] log(1-3) new(1,4)
    by (intro conjI exI [of _ "new @ ?inits @ log"]) (simp_all add: pool_events_def)
qed

theorem start_stop_balanced_witness:
  "\<exists>b1 h1 h2. StartAll (\<lambda>h c. None) sample_sched False sample_bundle [] = Some (None, b1, h1) \<and>
     StopAll (\<lambda>h c. None) b1 h1 = (None, sample_bundle, h2)"
proof -
  obtain b1 h1 where run: "StartAll (\<lambda>h c. None) sample_sched False sample_bundle [] = Some (None, b1, h1)"
    using sample_start by blast
  have "fst (terminate_all (\<lambda>h c. None) cs None h) = None" for cs :: "nat option list" and h
    by (induction cs arbitrary: h rule: somes.induct) auto
  then obtain h2 where "stopAllContainers (\<lambda>h c. None) b1 h1 = (None, h2)"
    unfolding stopAllContainers_def by (metis prod.collapse)
  then have stop: "StopAll (\<lambda>h c. None) b1 h1 = (None, resetState b1, h2)" by (simp add: StopAll_def)
  have "\<not> Started sample_bundle" by (simp add: Started_def sample_bundle_def)
  from start_stop_balanced [OF sample_valid(2) this run stop] run stop show ?thesis by auto
qed

text \<open>Containers numbered in the order of their starts, and a cancellation between the two starts.\<close>

definition fresh_reg :: "string \<Rightarrow> nat ContainerRegistration" where
  "fresh_reg n = \<lparr>reg_Name = n, reg_Start = Some (\<lambda>h. (Some (size (returned_names h)), None)), reg_Init = None\<rparr>"

definition fresh_bundle :: "nat Bundle" where
  "fresh_bundle = sample_bundle\<lparr>bd_regs := [fresh_reg ''redis'', fresh_reg ''mysql'']\<rparr>"

definition cancelling_sched :: "pool_actor list" where
  "cancelling_sched = replicate 3 (Worker 0) @ [Parent] @ replicate 3 (Worker 0) @ [Worker 1, Closer, Collector, Collector]"

text \<open>
  A caller whose context is cancelled while the containers are created can leave the bundle in a
  state that violates its invariant: the first container is terminated, but its entry stays. The
  next successful start adds its entries behind the stale one, \<open>Containers\<close> lists the name twice, and
  the stop terminates the dead container a second time.
\<close>

theorem cancelled_start_leaves_stale_entries:
  "\<exists>e b1 h1 b2 h2 b3 h3. bundle_ok fresh_bundle \<and>
     StartAll (\<lambda>h c. None) cancelling_sched False fresh_bundle [] = Some (Some e, b1, h1) \<and>
     terminated h1 = [0] \<and> \<not> bundle_ok b1 \<and>
     StartAll (\<lambda>h c. None) sample_sched False b1 h1 = Some (None, b2, h2) \<and>
     bundle_Containers b2 = [''mysql'', ''redis'', ''redis''] \<and>
     StopAll (\<lambda>h c. None) b2 h2 = (None, b3, h3) \<and> terminated h3 = [0, 1, 2, 0]"
  by (simp add: bundle_eval fresh_bundle_def fresh_reg_def cancelling_sched_def bundle_ok_def valid_regs_def
      StopAll_def bundle_Containers_def)

text \<open>
  C20. Every operation keeps the invariant of the bundle: the stop always, the start whenever the
  context of its caller is not cancelled before or while the containers are created.
\<close>

theorem bundle_invariant_kept:
  assumes "bundle_ok b"
  shows "bundle_ok (fst (snd (StopAll trm b h))) \<and> bundle_ok (fst (snd (rollback trm b h))) \<and>
    (\<forall>sched r b' new. StartAll trm sched False b h = Some (r, b', new @ h) \<and> ContextCancelled \<notin> set new
       \<longrightarrow> bundle_ok b' \<and> (Started b' \<longleftrightarrow> r = None))"
proof -
  have "bundle_ok b' \<and> (Started b' \<longleftrightarrow> r = None)"
    if run: "StartAll trm sched False b h = Some (r, b', new @ h)" and quiet: "ContextCancelled \<notin> set new"
    for sched r b' new
  proof (cases "bd_started b")
    case True
    with run assms show ?thesis by (auto simp: StartAll_def Started_def)
  next
    case stopped: False
    show ?thesis
    proof (cases r)
      case None
      with run assms stopped show ?thesis unfolding Started_def using succeeded_StartAll by metis
    next
      case (Some e)
      from failed_StartAll [OF assms stopped run [unfolded Some]] quiet have "b' = b"
        by (metis Un_iff append.assoc append_same_eq set_append)
      with assms stopped Some show ?thesis by (simp add: Started_def)
    qed
  qed
  with assms show ?thesis
    using StopAll_spec [of trm b h]
    by (auto simp: rollback_def bundle_ok_resetState split: prod.split)
qed

theorem bundle_invariant_kept_witness:
  "bundle_ok (fst (snd (StopAll (\<lambda>h c. None) sample_bundle [])))"
  using bundle_invariant_kept [OF sample_valid(2)] by blast

end
