(* ===== verification/Runtime_Paths.thy ===== *)
theory Runtime_Paths
  imports Protocol
begin

text \<open>
  The paths of \<^verbatim>\<open>tcdruntime/path.go\<close>: the runtime file of a project and the artifacts beside it,
  on a system whose separator is the slash. \<open>tmp\<close> is what \<^verbatim>\<open>os.TempDir\<close> returns.
\<close>

section \<open>The package \<^verbatim>\<open>path/filepath\<close>\<close>

fun split_byte :: "char \<Rightarrow> string \<Rightarrow> string list" where
  "split_byte c [] = [[]]"
| "split_byte c (x # xs) =
     (if x = c then [] # split_byte c xs
      else case split_byte c xs of [] \<Rightarrow> [[x]] | w # ws \<Rightarrow> (x # w) # ws)"

text \<open>\<^verbatim>\<open>Clean\<close> goes through the elements of the path and keeps those passed so far, the last one first.\<close>

definition clean_element :: "bool \<Rightarrow> string \<Rightarrow> string list \<Rightarrow> string list" where
  "clean_element rooted el st =
     (if el = [] \<or> el = ''.'' then st
      else if el = ''..'' then
        (case st of
           [] \<Rightarrow> if rooted then [] else [''..'']
         | top' # rest \<Rightarrow> if top' = ''..'' then ''..'' # st else rest)
      else el # st)"

definition render_path :: "bool \<Rightarrow> string list \<Rightarrow> string" where
  "render_path rooted els =
     (let s = (if rooted then ''/'' else []) @ strings_Join els ''/'' in if s = [] then ''.'' else s)"

definition is_rooted :: "string \<Rightarrow> bool" where
  "is_rooted path = strings_HasPrefix path ''/''"

definition clean_elements :: "string \<Rightarrow> string list" where
  "clean_elements path = rev (fold (clean_element (is_rooted path)) (split_byte (CHR ''/'') path) [])"

definition filepath_Clean :: "string \<Rightarrow> string" where
  "filepath_Clean path = render_path (is_rooted path) (clean_elements path)"

fun filepath_Join :: "string list \<Rightarrow> string" where
  "filepath_Join [] = []"
| "filepath_Join (el # els) =
     (if el = [] then filepath_Join els else filepath_Clean (strings_Join (el # els) ''/''))"

definition filepath_Dir :: "string \<Rightarrow> string" where
  "filepath_Dir path =
     filepath_Clean (case last_index_byte (CHR ''/'') path of None \<Rightarrow> [] | Some i \<Rightarrow> take (Suc i) path)"

section \<open>The paths of a project\<close>

definition sanitizeProject :: "string \<Rightarrow> string" where
  "sanitizeProject project =
     (let p0 = strings_TrimSpace project in
      if p0 = [] then ''default''
      else let p1 = replace_byte (CHR 0x5C) (CHR ''_'') p0;
               p2 = replace_byte (CHR ''/'') (CHR ''_'') p1;
               p3 = replace_byte (CHR '':'') (CHR ''_'') p2;
               p4 = replace_byte (CHR '' '') (CHR ''_'') p3
           in if p4 = [] then ''default'' else p4)"

definition DefaultRuntimePath :: "string \<Rightarrow> string \<Rightarrow> string" where
  "DefaultRuntimePath tmp project =
     filepath_Join [tmp, ''tcd'', sanitizeProject project, ''runtime.json'']"

definition ArtifactDir :: "string \<Rightarrow> string \<Rightarrow> string" where
  "ArtifactDir tmp runtimePath =
     (let p = strings_TrimSpace runtimePath
      in filepath_Dir (if p = [] then DefaultRuntimePath tmp ''default'' else p))"

definition AppLogPath :: "string \<Rightarrow> string \<Rightarrow> string" where
  "AppLogPath tmp runtimePath = filepath_Join [ArtifactDir tmp runtimePath, ''app.log'']"

definition DaemonLogPath :: "string \<Rightarrow> string \<Rightarrow> string" where
  "DaemonLogPath tmp runtimePath = filepath_Join [ArtifactDir tmp runtimePath, ''daemon.log'']"

definition RunnerDir :: "string \<Rightarrow> string \<Rightarrow> string" where
  "RunnerDir tmp runtimePath = filepath_Join [ArtifactDir tmp runtimePath, ''runner'']"

section \<open>Lemmas on splitting and joining\<close>

lemma split_byte_nonempty [simp]: "split_byte c s \<noteq> []"
  by (induction s) (auto split: list.split)

lemma split_byte_append: "split_byte c (xs @ c # ys) = split_byte c xs @ split_byte c ys"
  by (induction xs) (auto split: list.splits)

lemma split_byte_free: "c \<notin> set w \<Longrightarrow> split_byte c w = [w]"
  by (induction w) auto

lemma split_byte_elements: "w \<in> set (split_byte c s) \<Longrightarrow> c \<notin> set w"
  by (induction s arbitrary: w) (auto split: if_splits list.splits)

lemma split_byte_Join:
  "els \<noteq> [] \<Longrightarrow> \<forall>el\<in>set els. c \<notin> set el \<Longrightarrow> split_byte c (strings_Join els [c]) = els"
  by (induction els "[c]" rule: strings_Join.induct) (auto simp: split_byte_free split_byte_append)

lemma Join_append:
  "xs \<noteq> [] \<Longrightarrow> ys \<noteq> [] \<Longrightarrow> strings_Join (xs @ ys) sep = strings_Join xs sep @ sep @ strings_Join ys sep"
proof (induction xs sep rule: strings_Join.induct)
  case (2 x sep)
  then show ?case by (cases ys) auto
qed auto

section \<open>Lemmas on cleaning\<close>

definition normal_element :: "string \<Rightarrow> bool" where
  "normal_element el \<longleftrightarrow> el \<noteq> [] \<and> el \<noteq> ''.'' \<and> el \<noteq> ''..'' \<and> CHR ''/'' \<notin> set el"

lemma normal_literals [simp]:
  "normal_element ''tcd''" "normal_element ''runtime.json''" "normal_element ''app.log''"
  "normal_element ''daemon.log''" "normal_element ''runner''"
  by (simp_all add: normal_element_def)

lemma clean_normal [simp]: "normal_element el \<Longrightarrow> clean_element r el st = el # st"
  by (auto simp: clean_element_def normal_element_def)

lemma fold_clean_normal: "list_all normal_element els \<Longrightarrow> fold (clean_element r) els st = rev els @ st"
  by (induction els arbitrary: st) auto

lemma clean_element_rooted:
  "list_all normal_element st \<Longrightarrow> CHR ''/'' \<notin> set el \<Longrightarrow> list_all normal_element (clean_element True el st)"
  by (auto simp: clean_element_def normal_element_def split: list.split)

lemma clean_elements_rooted:
  assumes "is_rooted path"
  shows "list_all normal_element (clean_elements path)"
proof -
  have "\<forall>el\<in>set els. CHR ''/'' \<notin> set el \<Longrightarrow> list_all normal_element st \<Longrightarrow>
      list_all normal_element (fold (clean_element True) els st)" for els st
    by (induction els arbitrary: st) (auto simp: clean_element_rooted)
  with assms show ?thesis
    by (simp add: clean_elements_def list_all_rev split_byte_elements)
qed

lemma is_rooted_append [simp]: "s \<noteq> [] \<Longrightarrow> is_rooted (s @ t) = is_rooted s"
  by (cases s) (auto simp: is_rooted_def strings_HasPrefix_def starts_with_def)

lemma render_rooted: "render_path True els = CHR ''/'' # strings_Join els ''/''"
  by (simp add: render_path_def)

lemma Clean_render_rooted:
  assumes "list_all normal_element els"
  shows "clean_elements (render_path True els) = els" and "is_rooted (render_path True els)"
proof -
  show rooted: "is_rooted (render_path True els)"
    by (simp add: render_rooted is_rooted_def strings_HasPrefix_def starts_with_def)
  have "split_byte (CHR ''/'') (render_path True els) = [] # split_byte (CHR ''/'') (strings_Join els ''/'')"
    by (simp add: render_rooted)
  moreover have "fold (clean_element True) (split_byte (CHR ''/'') (strings_Join els ''/'')) [] = rev els"
  proof (cases "els = []")
    case True
    then show ?thesis by (simp add: clean_element_def)
  next
    case False
    moreover have "\<forall>el\<in>set els. CHR ''/'' \<notin> set el"
      using assms by (simp add: list_all_iff normal_element_def)
    ultimately show ?thesis
      using assms by (simp add: split_byte_Join fold_clean_normal)
  qed
  ultimately show "clean_elements (render_path True els) = els"
    by (simp add: clean_elements_def rooted) (simp add: clean_element_def)
qed

lemma Join_rooted:
  assumes "is_rooted d" "list_all normal_element els" "els \<noteq> []"
  shows "filepath_Join (d # els) = render_path True (clean_elements d @ els)"
proof -
  have d: "d \<noteq> []" using assms(1) by (auto simp: is_rooted_def strings_HasPrefix_def starts_with_def)
  have s: "strings_Join (d # els) ''/'' = d @ CHR ''/'' # strings_Join els ''/''"
    using Join_append [of "[d]" els "''/''"] assms(3) by simp
  have "split_byte (CHR ''/'') (strings_Join els ''/'') = els"
    using assms(2,3) by (intro split_byte_Join) (auto simp: list_all_iff normal_element_def)
  with d assms show ?thesis
    by (simp add: s filepath_Clean_def clean_elements_def split_byte_append fold_clean_normal)
qed

lemma Dir_render:
  assumes "list_all normal_element (els @ [el])"
  shows "filepath_Dir (render_path True (els @ [el])) = render_path True els"
proof -
  have el: "CHR ''/'' \<notin> set el" using assms by (simp add: normal_element_def)
  have split: "render_path True (els @ [el]) = (if els = [] then [] else render_path True els) @ CHR ''/'' # el"
    by (simp add: render_rooted Join_append)
  have "filepath_Dir (render_path True (els @ [el])) =
      filepath_Clean ((if els = [] then [] else render_path True els) @ ''/'')"
    unfolding split filepath_Dir_def by (simp add: last_index_byte_append [OF el])
  also have "\<dots> = render_path True els"
  proof (cases "els = []")
    case True
    then show ?thesis
      by (simp add: filepath_Clean_def clean_elements_def clean_element_def is_rooted_def
          strings_HasPrefix_def starts_with_def)
  next
    case False
    have "render_path True els \<noteq> []" by (simp add: render_rooted)
    with assms Clean_render_rooted [of els] False show ?thesis
      by (simp add: filepath_Clean_def clean_elements_def split_byte_append)
        (simp add: clean_element_def)
  qed
  finally show ?thesis .
qed

section \<open>Properties\<close>

lemma replace_byte_simps [simp]:
  "replace_byte old new s = [] \<longleftrightarrow> s = []"
  "old \<noteq> new \<Longrightarrow> old \<notin> set (replace_byte old new s)"
  "c \<noteq> new \<Longrightarrow> c \<notin> set s \<Longrightarrow> c \<notin> set (replace_byte old new s)"
  by (auto simp: replace_byte_def)

lemma sanitize_chars:
  "sanitizeProject p \<noteq> [] \<and> CHR ''/'' \<notin> set (sanitizeProject p) \<and> CHR 0x5C \<notin> set (sanitizeProject p) \<and>
   CHR '':'' \<notin> set (sanitizeProject p) \<and> CHR '' '' \<notin> set (sanitizeProject p)"
  by (simp add: sanitizeProject_def Let_def)

lemma space_byte_literals [simp]:
  "\<not> space_byte (CHR ''/'')" "\<not> space_byte (CHR ''n'')" "\<not> space_byte (CHR '':'')"
  by (simp_all add: space_byte_def space_runes_def)

lemma TrimSpace_runtime_path:
  "strings_TrimSpace (render_path True (els @ [''runtime.json''])) = render_path True (els @ [''runtime.json''])"
proof (rule TrimSpace_id)
  have "last (strings_Join (els @ [''runtime.json'']) ''/'') = CHR ''n''"
    by (cases "els = []") (simp_all add: Join_append)
  moreover have "strings_Join (els @ [''runtime.json'']) ''/'' \<noteq> []"
    by (cases "els = []") (simp_all add: Join_append)
  ultimately show "\<not> space_byte (last (render_path True (els @ [''runtime.json''])))"
    by (simp add: render_rooted)
qed (simp_all add: render_rooted)

text \<open>
  C33. When the system's directory for temporary files is an absolute path, a project whose sanitized name is not a dot or two dots owns the directory of that name below
  \<^verbatim>\<open>tcd\<close> in the temporary directory: its runtime file, its two logs and its runner directory are
  exactly there, so two projects with different sanitized names share none of them.
\<close>

theorem project_paths:
  assumes "is_rooted tmp" and "sanitizeProject p \<noteq> ''.''" "sanitizeProject p \<noteq> ''..''"
  defines "dir \<equiv> filepath_Join [tmp, ''tcd''] @ ''/'' @ sanitizeProject p"
  shows "DefaultRuntimePath tmp p = dir @ ''/runtime.json'' \<and>
    ArtifactDir tmp (DefaultRuntimePath tmp p) = dir \<and>
    AppLogPath tmp (DefaultRuntimePath tmp p) = dir @ ''/app.log'' \<and>
    DaemonLogPath tmp (DefaultRuntimePath tmp p) = dir @ ''/daemon.log'' \<and>
    RunnerDir tmp (DefaultRuntimePath tmp p) = dir @ ''/runner''"
proof -
  let ?els = "clean_elements tmp @ [''tcd'', sanitizeProject p]"
  have norm: "list_all normal_element (?els @ [f])" if "normal_element f" for f
    using that assms(2,3) sanitize_chars [of p] clean_elements_rooted [OF assms(1)]
    by (simp add: normal_element_def)
  have dir: "dir = render_path True ?els"
    using assms(1) Join_append [of "clean_elements tmp @ [''tcd'']" "[sanitizeProject p]" "''/''"]
    by (simp add: dir_def Join_rooted render_rooted del: filepath_Join.simps)
  have path: "render_path True (?els @ [f]) = dir @ ''/'' @ f" for f
    using Join_append [of ?els "[f]" "''/''"] by (simp add: dir render_rooted)
  have run: "DefaultRuntimePath tmp p = render_path True (?els @ [''runtime.json''])"
    using Join_rooted [of tmp "[''tcd'', sanitizeProject p, ''runtime.json'']"] assms(1) norm [of "''runtime.json''"]
    by (simp add: DefaultRuntimePath_def)
  have ne: "render_path True (?els @ [''runtime.json'']) \<noteq> []" by (simp add: render_rooted)
  have art: "ArtifactDir tmp (DefaultRuntimePath tmp p) = dir"
    unfolding ArtifactDir_def run TrimSpace_runtime_path dir Let_def if_not_P [OF ne]
    by (rule Dir_render [OF norm]) simp
  have below: "filepath_Join [dir, f] = dir @ ''/'' @ f" if "normal_element f" for f
    using Join_rooted [of dir "[f]"] norm [OF that] Clean_render_rooted [of ?els] path [of f] that dir by simp
  show ?thesis
    using run path [of "''runtime.json''"] art below [of "''app.log''"] below [of "''daemon.log''"] below [of "''runner''"]
    by (simp add: AppLogPath_def DaemonLogPath_def RunnerDir_def)
qed

theorem project_paths_witness:
  "AppLogPath ''/tmp'' (DefaultRuntimePath ''/tmp'' ''a b'') = filepath_Join [''/tmp'', ''tcd''] @ ''/a_b/app.log''"
proof -
  have s: "sanitizeProject ''a b'' = ''a_b''"
    by (simp add: sanitizeProject_def TrimSpace_id space_byte_def space_runes_def replace_byte_def Let_def)
  have "is_rooted ''/tmp''" "sanitizeProject ''a b'' \<noteq> ''.''" "sanitizeProject ''a b'' \<noteq> ''..''"
    by (simp_all add: s is_rooted_def strings_HasPrefix_def starts_with_def)
  note paths = project_paths [OF this, THEN conjunct2, THEN conjunct2, THEN conjunct1]
  from paths [unfolded s append_assoc] show ?thesis by (simp only: append.simps)
qed

text \<open>
  Projects are not always isolated: names that differ only in separators, colons and spaces get
  the same runtime file, and the project \<open>..\<close> gets a runtime file outside the directory \<^verbatim>\<open>tcd\<close>.
\<close>

theorem project_isolation_fails:
  "DefaultRuntimePath ''/tmp'' ''shop/api'' = DefaultRuntimePath ''/tmp'' ''shop api'' \<and>
   DefaultRuntimePath ''/tmp'' ''shop/api'' = DefaultRuntimePath ''/tmp'' ''shop_api'' \<and>
   DefaultRuntimePath ''/tmp'' ''..'' = ''/tmp/runtime.json''"
  by (simp add: DefaultRuntimePath_def sanitizeProject_def TrimSpace_id space_byte_def space_runes_def
      replace_byte_def filepath_Clean_def clean_elements_def clean_element_def is_rooted_def
      strings_HasPrefix_def starts_with_def render_path_def)

end
