(* ===== verification/Process_Control.thy ===== *)
theory Process_Control
  imports Effects Runtime_Paths
begin

text \<open>
  Commands, the operating system as the daemon sees it, and the platform files
  \<^verbatim>\<open>daemon/process_control_unix.go\<close> and \<^verbatim>\<open>daemon/process_control_windows.go\<close>: how a process is
  prepared, bound to its group or job object, killed and released. The interface the SUT manager
  relies on is the locale \<open>process_control\<close>, interpreted on both platforms.
\<close>

section \<open>Commands and the system\<close>

text \<open>
  The fields of \<^verbatim>\<open>exec.Cmd\<close> that the program reads or writes. \<open>cmd_Process\<close> is the process id once
  the command has been started; \<open>cmd_Setpgid\<close> stands for \<^verbatim>\<open>SysProcAttr.Setpgid\<close>, and \<open>cmd_Output\<close> for
  the file that both \<^verbatim>\<open>Stdout\<close> and \<^verbatim>\<open>Stderr\<close> are redirected to.
\<close>

record exec_Cmd =
  cmd_Path :: string
  cmd_Args :: "string list"
  cmd_Dir :: string
  cmd_Env :: "string list"
  cmd_Output :: "string option"
  cmd_Setpgid :: bool
  cmd_Process :: "nat option"

text \<open>The state of the daemon process that is not inside a component: the history and \<^verbatim>\<open>sutJobStore\<close>.\<close>

record 'c sys =
  sys_log :: "'c history"
  sys_jobs :: "(nat, nat) gomap"

definition emit :: "'c event \<Rightarrow> 'c sys \<Rightarrow> 'c sys" where
  "emit ev s = s\<lparr>sys_log := ev # sys_log s\<rparr>"

lemma emit_simps [simp]:
  "sys_log (emit ev s) = ev # sys_log s" "sys_jobs (emit ev s) = sys_jobs s"
  by (simp_all add: emit_def)

text \<open>
  The answers of the operating system. \<open>os_recv h pid\<close> is what a receive from the wait channel of the
  process yields, \<open>None\<close> while it would block; \<open>os_pick\<close> decides a \<^verbatim>\<open>select\<close> between several ready
  cases.
\<close>

datatype choice = PickCtx | PickTimer | PickChan

record 'c os_env =
  os_now :: "'c history \<Rightarrow> go_time"
  os_recv :: "'c history \<Rightarrow> nat \<Rightarrow> (go_error option \<times> bool) option"
  os_pick :: "'c history \<Rightarrow> choice"
  os_stat :: "'c history \<Rightarrow> string \<Rightarrow> go_error + bool"
  os_environ :: "string list"
  os_TempDir :: string
  os_MkdirAll :: "'c history \<Rightarrow> string \<Rightarrow> go_error option"
  os_OpenAppend :: "'c history \<Rightarrow> string \<Rightarrow> go_error option"
  os_spawn :: "'c history \<Rightarrow> exec_Cmd \<Rightarrow> go_error + nat"
  os_dial :: "'c history \<Rightarrow> string \<Rightarrow> bool"
  os_getpgid :: "'c history \<Rightarrow> nat \<Rightarrow> go_error + int"
  os_kill_group :: "'c history \<Rightarrow> int \<Rightarrow> go_error option"
  os_kill :: "'c history \<Rightarrow> nat \<Rightarrow> go_error option"
  win_CreateJobObject :: "'c history \<Rightarrow> go_error + nat"
  win_SetInformation :: "'c history \<Rightarrow> nat \<Rightarrow> go_error option"
  win_OpenProcess :: "'c history \<Rightarrow> nat \<Rightarrow> go_error + nat"
  win_AssignProcess :: "'c history \<Rightarrow> nat \<Rightarrow> nat \<Rightarrow> go_error option"

text \<open>A context as the error it reports, \<open>None\<close> while it is live.\<close>

type_synonym 'c ctx = "'c history \<Rightarrow> go_error option"

definition Background :: "'c ctx" where
  "Background = (\<lambda>h. None)"

definition kill_process :: "'c os_env \<Rightarrow> nat \<Rightarrow> 'c sys \<Rightarrow> go_error option \<times> 'c sys" where
  "kill_process os pid s =
     (let err = os_kill os (sys_log s) pid in (err, emit (KillReturn pid err) s))"

text \<open>The process of a command, \<open>None\<close> also for a nil command.\<close>

definition process_of :: "exec_Cmd option \<Rightarrow> nat option" where
  "process_of cmd = Option.bind cmd cmd_Process"

section \<open>Log files\<close>

text \<open>\<^verbatim>\<open>tcdruntime/log.go\<close>; an open log file is represented by its path.\<close>

definition openLogFile :: "'c os_env \<Rightarrow> string \<Rightarrow> 'c sys \<Rightarrow> (go_error + string) \<times> 'c sys" where
  "openLogFile os logPath s =
     (case os_MkdirAll os (sys_log s) (filepath_Dir logPath) of
        Some e \<Rightarrow> (Inl e, s)
      | None \<Rightarrow>
          (let err = os_OpenAppend os (sys_log s) logPath;
               s' = emit (LogOpened logPath err) s
           in case err of Some e \<Rightarrow> (Inl e, s') | None \<Rightarrow> (Inr logPath, s')))"

definition OpenAppLogFile :: "'c os_env \<Rightarrow> string \<Rightarrow> 'c sys \<Rightarrow> (go_error + string) \<times> 'c sys" where
  "OpenAppLogFile os runtimePath = openLogFile os (AppLogPath (os_TempDir os) runtimePath)"

definition OpenDaemonLogFile :: "'c os_env \<Rightarrow> string \<Rightarrow> 'c sys \<Rightarrow> (go_error + string) \<times> 'c sys" where
  "OpenDaemonLogFile os runtimePath = openLogFile os (DaemonLogPath (os_TempDir os) runtimePath)"

fun AttachCmdOutput :: "exec_Cmd option \<Rightarrow> string option \<Rightarrow> exec_Cmd option" where
  "AttachCmdOutput (Some c) (Some f) = Some (c\<lparr>cmd_Output := Some f\<rparr>)"
| "AttachCmdOutput cmd output = cmd"

section \<open>Unix\<close>

definition unix_prepareSUTCommand :: "exec_Cmd option \<Rightarrow> exec_Cmd option" where
  "unix_prepareSUTCommand cmd = map_option (\<lambda>c. c\<lparr>cmd_Setpgid := True\<rparr>) cmd"

definition unix_afterSUTStart :: "exec_Cmd option \<Rightarrow> 'c sys \<Rightarrow> go_error option \<times> 'c sys" where
  "unix_afterSUTStart cmd s = (None, s)"

definition unix_terminateSUTProcess :: "'c os_env \<Rightarrow> exec_Cmd option \<Rightarrow> 'c sys \<Rightarrow> go_error option \<times> 'c sys" where
  "unix_terminateSUTProcess os cmd s =
     (case process_of cmd of
        None \<Rightarrow> (None, s)
      | Some pid \<Rightarrow>
          (case os_getpgid os (sys_log s) pid of
             Inl e \<Rightarrow> kill_process os pid s
           | Inr pgid \<Rightarrow>
               if pgid > 0 then
                 (let err = os_kill_group os (sys_log s) pgid;
                      s' = emit (KillGroupReturn pid pgid err) s
                  in if err = None then (None, s') else kill_process os pid s')
               else kill_process os pid s))"

definition unix_releaseSUTProcess :: "exec_Cmd option \<Rightarrow> 'c sys \<Rightarrow> 'c sys" where
  "unix_releaseSUTProcess cmd s = s"

section \<open>Windows\<close>

definition win_prepareSUTCommand :: "exec_Cmd option \<Rightarrow> exec_Cmd option" where
  "win_prepareSUTCommand cmd = cmd"

definition win_afterSUTStart :: "'c os_env \<Rightarrow> exec_Cmd option \<Rightarrow> 'c sys \<Rightarrow> go_error option \<times> 'c sys" where
  "win_afterSUTStart os cmd s =
     (case process_of cmd of
        None \<Rightarrow> (Some (ErrorNew ''sut process is nil''), s)
      | Some pid \<Rightarrow>
          (case win_CreateJobObject os (sys_log s) of
             Inl e \<Rightarrow> (Some e, s)
           | Inr job \<Rightarrow>
               (let s1 = emit (HandleOpened job) s in
                case win_SetInformation os (sys_log s1) job of
                  Some e \<Rightarrow> (Some e, emit (HandleClosed job) s1)
                | None \<Rightarrow>
                    (case win_OpenProcess os (sys_log s1) pid of
                       Inl e \<Rightarrow> (Some e, emit (HandleClosed job) s1)
                     | Inr ph \<Rightarrow>
                         (let s2 = emit (HandleOpened ph) s1 in
                          case win_AssignProcess os (sys_log s2) job ph of
                            Some e \<Rightarrow> (Some e, emit (HandleClosed ph) (emit (HandleClosed job) s2))
                          | None \<Rightarrow>
                              (None, emit (HandleClosed ph)
                                 (s2\<lparr>sys_jobs := AList.update pid job (sys_jobs s2)\<rparr>)))))))"

definition win_terminateSUTProcess :: "'c os_env \<Rightarrow> exec_Cmd option \<Rightarrow> 'c sys \<Rightarrow> go_error option \<times> 'c sys" where
  "win_terminateSUTProcess os cmd s =
     (case process_of cmd of
        None \<Rightarrow> (None, s)
      | Some pid \<Rightarrow>
          (let s1 = (case map_of (sys_jobs s) pid of
                       None \<Rightarrow> s
                     | Some job \<Rightarrow> emit (HandleClosed job) (emit (JobTerminated job)
                                     (s\<lparr>sys_jobs := AList.delete pid (sys_jobs s)\<rparr>)));
               s2 = emit (TaskKilled pid) s1;
               s3 = snd (kill_process os pid s2)
           in (None, s3)))"

definition win_releaseSUTProcess :: "exec_Cmd option \<Rightarrow> 'c sys \<Rightarrow> 'c sys" where
  "win_releaseSUTProcess cmd s =
     (case process_of cmd of
        None \<Rightarrow> s
      | Some pid \<Rightarrow>
          (case map_of (sys_jobs s) pid of
             None \<Rightarrow> s
           | Some job \<Rightarrow> emit (HandleClosed job) (s\<lparr>sys_jobs := AList.delete pid (sys_jobs s)\<rparr>)))"

section \<open>The build for one platform\<close>

datatype goos = Unix | Windows

definition prepareSUTCommand :: "goos \<Rightarrow> exec_Cmd option \<Rightarrow> exec_Cmd option" where
  "prepareSUTCommand g = (case g of Unix \<Rightarrow> unix_prepareSUTCommand | Windows \<Rightarrow> win_prepareSUTCommand)"

definition afterSUTStart :: "goos \<Rightarrow> 'c os_env \<Rightarrow> exec_Cmd option \<Rightarrow> 'c sys \<Rightarrow> go_error option \<times> 'c sys" where
  "afterSUTStart g os = (case g of Unix \<Rightarrow> unix_afterSUTStart | Windows \<Rightarrow> win_afterSUTStart os)"

definition terminateSUTProcess :: "goos \<Rightarrow> 'c os_env \<Rightarrow> exec_Cmd option \<Rightarrow> 'c sys \<Rightarrow> go_error option \<times> 'c sys" where
  "terminateSUTProcess g os =
     (case g of Unix \<Rightarrow> unix_terminateSUTProcess os | Windows \<Rightarrow> win_terminateSUTProcess os)"

definition releaseSUTProcess :: "goos \<Rightarrow> exec_Cmd option \<Rightarrow> 'c sys \<Rightarrow> 'c sys" where
  "releaseSUTProcess g = (case g of Unix \<Rightarrow> unix_releaseSUTProcess | Windows \<Rightarrow> win_releaseSUTProcess)"

section \<open>What the platform promises\<close>

text \<open>
  The processes that were started and have since neither been killed nor seen to exit: a process whose
  kill failed stays alive. \<open>kill_failed\<close> are those for which the call to \<^verbatim>\<open>Process.Kill\<close> reported an error, which
  the program logs and then leaves at that.
\<close>

fun live_pids :: "'c history \<Rightarrow> nat set" where
  "live_pids [] = {}"
| "live_pids (SpawnReturn (Inr pid) # h) = insert pid (live_pids h)"
| "live_pids (ExitObserved pid err # h) = live_pids h - {pid}"
| "live_pids (KillGroupReturn pid pgid None # h) = live_pids h - {pid}"
| "live_pids (KillReturn pid None # h) = live_pids h - {pid}"
| "live_pids (ev # h) = live_pids h"

fun kill_failed :: "'c history \<Rightarrow> nat set" where
  "kill_failed [] = {}"
| "kill_failed (SpawnReturn (Inr pid) # h) = kill_failed h - {pid}"
| "kill_failed (KillReturn pid (Some err) # h) = insert pid (kill_failed h)"
| "kill_failed (ev # h) = kill_failed h"

text \<open>What the program still has to care for: the processes alive whose kill has not failed.\<close>

fun unsettled_pids :: "'c history \<Rightarrow> nat set" where
  "unsettled_pids [] = {}"
| "unsettled_pids (SpawnReturn (Inr pid) # h) = insert pid (unsettled_pids h)"
| "unsettled_pids (ExitObserved pid err # h) = unsettled_pids h - {pid}"
| "unsettled_pids (KillGroupReturn pid pgid None # h) = unsettled_pids h - {pid}"
| "unsettled_pids (KillReturn pid err # h) = unsettled_pids h - {pid}"
| "unsettled_pids (ev # h) = unsettled_pids h"

lemma unsettled_live: "unsettled_pids h = live_pids h - kill_failed h"
  by (induction h rule: live_pids.induct) auto

lemma unsettled_empty: "unsettled_pids h = {} \<longleftrightarrow> live_pids h \<subseteq> kill_failed h"
  by (auto simp: unsettled_live)

lemma unsettled_subset: "unsettled_pids h \<subseteq> X \<longleftrightarrow> live_pids h \<subseteq> X \<union> kill_failed h"
  by (auto simp: unsettled_live)

fun spawned_pids :: "'c history \<Rightarrow> nat list" where
  "spawned_pids [] = []"
| "spawned_pids (SpawnReturn (Inr pid) # h) = pid # spawned_pids h"
| "spawned_pids (ev # h) = spawned_pids h"

lemma spawned_pids_append [simp]: "spawned_pids (xs @ ys) = spawned_pids xs @ spawned_pids ys"
  by (induction xs rule: spawned_pids.induct) auto

text \<open>
  The laws the SUT manager uses: preparing keeps the command's fields, binding and killing start
  no process, binding kills none, and killing leaves the process dead.
\<close>

locale process_control =
  fixes prepare :: "exec_Cmd option \<Rightarrow> exec_Cmd option"
    and after :: "exec_Cmd option \<Rightarrow> 'c sys \<Rightarrow> go_error option \<times> 'c sys"
    and terminate :: "exec_Cmd option \<Rightarrow> 'c sys \<Rightarrow> go_error option \<times> 'c sys"
  assumes prepare_Some: "\<exists>c'. prepare (Some c) = Some c' \<and> cmd_Path c' = cmd_Path c \<and>
      cmd_Dir c' = cmd_Dir c \<and> cmd_Env c' = cmd_Env c \<and> cmd_Process c' = cmd_Process c"
    and after_extends: "\<exists>new. sys_log (snd (after cmd s)) = new @ sys_log s \<and> spawned_pids new = [] \<and>
      unsettled_pids (sys_log (snd (after cmd s))) = unsettled_pids (sys_log s)"
    and terminate_extends: "\<exists>new. sys_log (snd (terminate cmd s)) = new @ sys_log s \<and> spawned_pids new = []"
    and terminate_kills:
      "unsettled_pids (sys_log (snd (terminate cmd s))) = unsettled_pids (sys_log s) - set_option (process_of cmd)"
begin

lemma terminate_no_process: "process_of cmd = None \<Longrightarrow>
    unsettled_pids (sys_log (snd (terminate cmd s))) = unsettled_pids (sys_log s)"
  by (simp add: terminate_kills)

lemma terminate_dead: "process_of cmd = Some pid \<Longrightarrow> pid \<notin> unsettled_pids (sys_log (snd (terminate cmd s)))"
  by (simp add: terminate_kills)

end

interpretation platform: process_control "prepareSUTCommand g" "afterSUTStart g os" "terminateSUTProcess g os"
  for g and os :: "'c os_env"
proof
  show "\<exists>c'. prepareSUTCommand g (Some c) = Some c' \<and> cmd_Path c' = cmd_Path c \<and>
      cmd_Dir c' = cmd_Dir c \<and> cmd_Env c' = cmd_Env c \<and> cmd_Process c' = cmd_Process c" for c
    by (cases g) (simp_all add: prepareSUTCommand_def unix_prepareSUTCommand_def win_prepareSUTCommand_def)
  show "\<exists>new. sys_log (snd (afterSUTStart g os cmd s)) = new @ sys_log s \<and> spawned_pids new = [] \<and>
      unsettled_pids (sys_log (snd (afterSUTStart g os cmd s))) = unsettled_pids (sys_log s)" for cmd s
    by (cases g)
      (auto simp: afterSUTStart_def unix_afterSUTStart_def win_afterSUTStart_def Let_def
        split: option.splits sum.splits)
  show "\<exists>new. sys_log (snd (terminateSUTProcess g os cmd s)) = new @ sys_log s \<and> spawned_pids new = []" for cmd s
    by (cases g)
      (auto simp: terminateSUTProcess_def unix_terminateSUTProcess_def win_terminateSUTProcess_def
        kill_process_def Let_def split: option.splits sum.splits)
  show "unsettled_pids (sys_log (snd (terminateSUTProcess g os cmd s))) =
      unsettled_pids (sys_log s) - set_option (process_of cmd)" for cmd s
    by (cases g)
      (auto simp: terminateSUTProcess_def unix_terminateSUTProcess_def win_terminateSUTProcess_def
        kill_process_def Let_def split: option.splits sum.splits)
qed

section \<open>Job handles\<close>

fun open_handles :: "'c history \<Rightarrow> nat multiset" where
  "open_handles [] = {#}"
| "open_handles (HandleOpened x # h) = add_mset x (open_handles h)"
| "open_handles (HandleClosed x # h) = open_handles h - {#x#}"
| "open_handles (ev # h) = open_handles h"

text \<open>The open handles are those of the stored jobs, and every process has at most one job.\<close>

definition jobs_ok :: "'c sys \<Rightarrow> bool" where
  "jobs_ok s \<longleftrightarrow> gomap_ok (sys_jobs s) \<and> open_handles (sys_log s) = mset (map snd (sys_jobs s))"

lemma jobs_ok_delete:
  assumes "jobs_ok s" "map_of (sys_jobs s) pid = Some job"
  shows "mset (map snd (AList.delete pid (sys_jobs s))) = open_handles (sys_log s) - {#job#}"
  using assms mset_values_delete [of "sys_jobs s" pid job] by (simp add: jobs_ok_def)

text \<open>
  On Windows no job or process handle leaks: binding a new process either fails with every
  handle it opened closed again and nothing stored, or stores exactly the one handle it leaves open;
  killing and releasing a process close its job. Killing terminates the job before the handle is
  closed and then always goes on to \<^verbatim>\<open>taskkill\<close> and \<^verbatim>\<open>Process.Kill\<close>, and reports no error.
\<close>

theorem windows_job_handles:
  assumes ok: "jobs_ok s" and pid: "process_of cmd = Some pid"
  shows "(map_of (sys_jobs s) pid = None \<longrightarrow>
      jobs_ok (snd (win_afterSUTStart os cmd s)) \<and>
      (if fst (win_afterSUTStart os cmd s) = None
       then \<exists>job. sys_jobs (snd (win_afterSUTStart os cmd s)) = sys_jobs s @ [(pid, job)]
       else sys_jobs (snd (win_afterSUTStart os cmd s)) = sys_jobs s)) \<and>
    (jobs_ok (snd (win_terminateSUTProcess os cmd s)) \<and> fst (win_terminateSUTProcess os cmd s) = None \<and>
      sys_jobs (snd (win_terminateSUTProcess os cmd s)) = AList.delete pid (sys_jobs s) \<and>
      (\<exists>err job. sys_log (snd (win_terminateSUTProcess os cmd s)) =
         KillReturn pid err # TaskKilled pid #
         (if map_of (sys_jobs s) pid = None then [] else [HandleClosed job, JobTerminated job]) @ sys_log s)) \<and>
    jobs_ok (win_releaseSUTProcess cmd s) \<and>
    sys_jobs (win_releaseSUTProcess cmd s) = AList.delete pid (sys_jobs s)"
proof (cases "map_of (sys_jobs s) pid")
  case None
  with ok pid show ?thesis
    by (auto simp: win_afterSUTStart_def win_terminateSUTProcess_def win_releaseSUTProcess_def
        kill_process_def jobs_ok_def Let_def update_new_key
        split: option.splits sum.splits)
next
  case (Some job)
  with ok pid jobs_ok_delete [OF ok Some] show ?thesis
    by (simp add: win_terminateSUTProcess_def win_releaseSUTProcess_def kill_process_def jobs_ok_def Let_def)
qed

theorem windows_job_handles_witness:
  "\<exists>s' :: nat sys. jobs_ok s' \<and> sys_jobs s' = [] \<and>
     sys_log s' = [KillReturn 7 None, TaskKilled 7, HandleClosed 3, JobTerminated 3, HandleOpened 3]"
proof -
  let ?cmd = "Some \<lparr>cmd_Path = ''app.exe'', cmd_Args = [], cmd_Dir = ''C:'', cmd_Env = [], cmd_Output = None,
    cmd_Setpgid = False, cmd_Process = Some 7\<rparr>"
  let ?s = "\<lparr>sys_log = [HandleOpened 3], sys_jobs = [(7, 3)]\<rparr> :: nat sys"
  have "jobs_ok ?s" "process_of ?cmd = Some 7" by (simp_all add: jobs_ok_def gomap_ok_def process_of_def)
  note spec = windows_job_handles [OF this, of "undefined\<lparr>os_kill := \<lambda>h p. None\<rparr>"]
  let ?s' = "snd (win_terminateSUTProcess (undefined\<lparr>os_kill := \<lambda>h p. None\<rparr>) ?cmd ?s)"
  have "sys_log ?s' = [KillReturn 7 None, TaskKilled 7, HandleClosed 3, JobTerminated 3, HandleOpened 3]"
    by (simp add: win_terminateSUTProcess_def process_of_def kill_process_def Let_def)
  moreover have "jobs_ok ?s'" "sys_jobs ?s' = AList.delete 7 (sys_jobs ?s)" using spec by blast+
  ultimately show ?thesis by (intro exI [of _ ?s']) simp
qed

end
