(* ===== verification/Sut_Probe.thy ===== *)
theory Sut_Probe
  imports Process_Control
begin

text \<open>
  The readiness probe of the service under test (\<^verbatim>\<open>waitSUTReady\<close> and \<^verbatim>\<open>normalizeProbeAddrs\<close> of
  \<^verbatim>\<open>daemon/sut_manager.go\<close>): which addresses are probed, that the wait ends within its time-out
  when the clock moves, and what each of its results means.
\<close>

section \<open>Selecting\<close>

text \<open>
  A \<^verbatim>\<open>select\<close> over the context, the wait channel of a process and a timer. While it blocks, time
  passes and the outside may act (the event \<open>Blocked\<close>); what is received is the process's exit.
\<close>

datatype wake = CtxDone go_error | TimerFired | Received "go_error option" bool

definition blocking_select :: "'c os_env \<Rightarrow> 'c ctx \<Rightarrow> nat \<Rightarrow> duration \<Rightarrow> 'c sys \<Rightarrow> wake \<times> 'c sys" where
  "blocking_select os ctx ch d s =
     (let s1 = emit (Blocked d) s; h = sys_log s1 in
      case (os_pick os h, ctx h, os_recv os h ch) of
        (PickCtx, Some e, r) \<Rightarrow> (CtxDone e, s1)
      | (PickChan, c, Some (err, ok)) \<Rightarrow> (Received err ok, emit (ExitObserved ch err) s1)
      | (k, c, r) \<Rightarrow> (TimerFired, s1))"

text \<open>The \<^verbatim>\<open>select\<close> with a default case, which is taken (\<open>None\<close>) only when nothing is ready.\<close>

definition poll_select :: "'c os_env \<Rightarrow> 'c ctx \<Rightarrow> nat \<Rightarrow> 'c sys \<Rightarrow> wake option \<times> 'c sys" where
  "poll_select os ctx ch s =
     (let h = sys_log s in
      case (ctx h, os_recv os h ch) of
        (None, None) \<Rightarrow> (None, s)
      | (Some e, None) \<Rightarrow> (Some (CtxDone e), s)
      | (None, Some (err, ok)) \<Rightarrow> (Some (Received err ok), emit (ExitObserved ch err) s)
      | (Some e, Some (err, ok)) \<Rightarrow>
          if os_pick os h = PickCtx then (Some (CtxDone e), s)
          else (Some (Received err ok), emit (ExitObserved ch err) s))"

section \<open>Probe addresses\<close>

definition normalize_addr :: "string \<Rightarrow> string option" where
  "normalize_addr raw =
     (let addr = strings_TrimSpace raw in
      if addr = [] then None
      else let addr' = (if strings_HasPrefix addr '':'' then ''127.0.0.1'' @ addr else addr) in
        case net_SplitHostPort addr' of
          None \<Rightarrow> None
        | Some (host, port) \<Rightarrow>
            let host' = (if strings_TrimSpace host = [] then ''127.0.0.1'' else host) in
            case strconv_Atoi port of
              None \<Rightarrow> None
            | Some v \<Rightarrow> Some (net_JoinHostPort host' port))"

fun normalizeProbeAddrs :: "string list \<Rightarrow> string list" where
  "normalizeProbeAddrs [] = []"
| "normalizeProbeAddrs (raw # raws) =
     (case normalize_addr raw of
        None \<Rightarrow> normalizeProbeAddrs raws
      | Some addr \<Rightarrow> addr # normalizeProbeAddrs raws)"

section \<open>Waiting\<close>

text \<open>One sweep over the addresses, which returns those that cannot be reached.\<close>

fun probe_sweep :: "'c os_env \<Rightarrow> string list \<Rightarrow> 'c sys \<Rightarrow> string list \<times> 'c sys" where
  "probe_sweep os [] s = ([], s)"
| "probe_sweep os (addr # addrs) s =
     (let ok = os_dial os (sys_log s) addr;
          (failed, s') = probe_sweep os addrs (emit (DialReturn addr ok) s)
      in (if ok then failed else addr # failed, s'))"

definition exit_error :: "string \<Rightarrow> go_error option \<Rightarrow> bool \<Rightarrow> go_error" where
  "exit_error msg err ok =
     (case err of
        Some e \<Rightarrow> if \<not> ok then ErrorNew msg else errorf_w (msg @ '': '') e []
      | None \<Rightarrow> ErrorNew msg)"

definition timeout_error :: "string list \<Rightarrow> go_error" where
  "timeout_error failed = ErrorNew (''wait sut ready timeout, failed addrs: '' @ strings_Join failed '','')"

text \<open>The loop may run forever if the clock stands still; then it is \<open>None\<close>.\<close>

partial_function (option) ready_loop ::
  "'c os_env \<Rightarrow> 'c ctx \<Rightarrow> nat \<Rightarrow> string list \<Rightarrow> go_time \<Rightarrow> 'c sys \<Rightarrow> (go_error option \<times> 'c sys) option" where
  "ready_loop os ctx ch addrs deadline s =
     (let (failed, s1) = probe_sweep os addrs s in
      if failed = [] then Some (None, s1)
      else let (w, s2) = poll_select os ctx ch s1 in
        case w of
          Some (CtxDone e) \<Rightarrow> Some (Some e, s2)
        | Some (Received err ok) \<Rightarrow> Some (Some (exit_error ''sut process exited before ready'' err ok), s2)
        | d \<Rightarrow>
            if time_After (os_now os (sys_log s2)) deadline
            then Some (Some (timeout_error failed), s2)
            else ready_loop os ctx ch addrs deadline (emit (Slept (150 * time_Millisecond)) s2))"

definition waitSUTReady ::
  "'c os_env \<Rightarrow> 'c ctx \<Rightarrow> nat \<Rightarrow> string list \<Rightarrow> duration \<Rightarrow> 'c sys \<Rightarrow> (go_error option \<times> 'c sys) option" where
  "waitSUTReady os ctx ch probeAddrs readyTimeout s =
     (let addrs = normalizeProbeAddrs probeAddrs in
      if addrs = [] then
        (let (w, s') = blocking_select os ctx ch (400 * time_Millisecond) s in
         case w of
           CtxDone e \<Rightarrow> Some (Some e, s')
         | Received err ok \<Rightarrow> Some (Some (exit_error ''sut process exited before startup completed'' err ok), s')
         | TimerFired \<Rightarrow> Some (None, s'))
      else
        (let timeout = (if readyTimeout \<le> 0 then 8 * time_Second else readyTimeout)
         in ready_loop os ctx ch addrs (time_Add (os_now os (sys_log s)) timeout) s))"

section \<open>Lemmas on addresses\<close>

lemma Atoi_no_colon: "strconv_Atoi p = Some v \<Longrightarrow> CHR '':'' \<notin> set p \<and> bracket_free p"
  using Atoi_chars [of p v "CHR '':''"] Atoi_chars [of p v "CHR ''[''"] Atoi_chars [of p v "CHR '']''"]
  by (auto simp: bracket_free_def is_digit_def)

lemma normalize_addr_Some:
  assumes "normalize_addr raw = Some a"
  obtains h p v where "a = net_JoinHostPort h p" "net_SplitHostPort a = Some (h, p)"
    "strings_TrimSpace h \<noteq> []" "strconv_Atoi p = Some v"
proof -
  from assms obtain addr h p v where split: "net_SplitHostPort addr = Some (h, p)"
    and a: "a = net_JoinHostPort (if strings_TrimSpace h = [] then ''127.0.0.1'' else h) p"
    and v: "strconv_Atoi p = Some v"
    by (auto simp: normalize_addr_def Let_def split: if_splits option.splits)
  let ?h = "if strings_TrimSpace h = [] then ''127.0.0.1'' else h"
  have "bracket_free ?h" using SplitHostPort_clean [OF split] by (simp add: bracket_free_def)
  moreover have "strings_TrimSpace ''127.0.0.1'' \<noteq> []"
    by (subst TrimSpace_id) (simp_all add: space_byte_def space_runes_def)
  ultimately show thesis
    using that [OF a] Split_Join_hostport [of ?h p] Atoi_no_colon [OF v] v a by simp
qed

lemma set_normalizeProbeAddrs: "a \<in> set (normalizeProbeAddrs raws) \<longleftrightarrow> (\<exists>raw\<in>set raws. normalize_addr raw = Some a)"
  by (induction raws) (auto split: option.splits)

lemma normalizeProbeAddrs_append [simp]:
  "normalizeProbeAddrs (xs @ ys) = normalizeProbeAddrs xs @ normalizeProbeAddrs ys"
  by (induction xs) (auto split: option.split)

lemma digit_not_space: "is_digit c \<Longrightarrow> \<not> space_byte c"
  by (auto simp: is_digit_def space_byte_def space_runes_def)

lemma Atoi_edges: "strconv_Atoi p = Some v \<Longrightarrow> p \<noteq> [] \<and> \<not> space_byte (last p)"
  using Atoi_nonempty [of p v] Atoi_chars [of p v "last p"] digit_not_space
  by (auto simp: space_byte_def space_runes_def)

text \<open>An address with a numeric port and a host that is not blank is kept as it is.\<close>

lemma normalize_addr_keeps:
  assumes "strconv_Atoi p = Some v" "h \<noteq> []" "\<not> space_byte (hd h)" "hd h \<noteq> CHR '':''"
    and "strings_TrimSpace h \<noteq> []" "bracket_free h"
  shows "normalize_addr (net_JoinHostPort h p) = Some (net_JoinHostPort h p)"
proof -
  let ?a = "net_JoinHostPort h p"
  have edges: "?a \<noteq> []" "\<not> space_byte (hd ?a)" "last ?a = last p" "hd ?a \<noteq> CHR '':''"
    using assms(2-4) Atoi_edges [OF assms(1)]
    by (auto simp: net_JoinHostPort_def space_byte_def space_runes_def)
  then have "strings_TrimSpace ?a = ?a"
    using Atoi_edges [OF assms(1)] by (intro TrimSpace_id) simp_all
  moreover have "\<not> strings_HasPrefix ?a '':''"
    using edges by (cases ?a) (auto simp: strings_HasPrefix_def starts_with_def)
  moreover have "net_SplitHostPort ?a = Some (h, p)"
    using assms(6) Atoi_no_colon [OF assms(1)] by (intro Split_Join_hostport) simp_all
  ultimately show ?thesis
    using assms(1,5) edges(1) by (simp add: normalize_addr_def)
qed

lemma normalize_addr_port:
  assumes "strconv_Atoi p = Some v"
  shows "normalize_addr (CHR '':'' # p) = Some (''127.0.0.1:'' @ p)"
proof -
  have "strings_TrimSpace (CHR '':'' # p) = CHR '':'' # p"
    using Atoi_edges [OF assms] by (intro TrimSpace_id) (auto simp: space_byte_def space_runes_def)
  moreover have "net_SplitHostPort (''127.0.0.1:'' @ p) = Some (''127.0.0.1'', p)"
    using Split_Join_hostport [of "''127.0.0.1''" p] Atoi_no_colon [OF assms]
    by (simp add: net_JoinHostPort_def bracket_free_def)
  moreover have "strings_TrimSpace ''127.0.0.1'' = ''127.0.0.1''"
    by (rule TrimSpace_id) (simp_all add: space_byte_def space_runes_def)
  ultimately show ?thesis
    using assms by (simp add: normalize_addr_def strings_HasPrefix_def starts_with_def net_JoinHostPort_def)
qed

section \<open>Lemmas on waiting\<close>

lemma probe_sweep_spec:
  assumes "probe_sweep os addrs s = (failed, s')"
  obtains new where "sys_log s' = new @ sys_log s" "\<forall>ev\<in>set new. \<exists>a ok. ev = DialReturn a ok"
    "failed = [] \<Longrightarrow> new = rev (map (\<lambda>a. DialReturn a True) addrs)" "set failed \<subseteq> set addrs"
    "\<forall>a\<in>set failed. DialReturn a False \<in> set new"
  using assms
proof (induction os addrs s arbitrary: failed s' thesis rule: probe_sweep.induct)
  case (1 os s)
  then show ?case by auto
next
  case (2 os addr addrs s)
  let ?ok = "os_dial os (sys_log s) addr"
  obtain failed1 s1 where s1: "probe_sweep os addrs (emit (DialReturn addr ?ok) s) = (failed1, s1)"
    by fastforce
  with 2(3) have f: "failed = (if ?ok then failed1 else addr # failed1)" "s' = s1"
    by (simp_all add: Let_def)
  from 2(1) [OF refl _ s1] obtain new where "sys_log s1 = new @ DialReturn addr ?ok # sys_log s"
    "\<forall>ev\<in>set new. \<exists>a ok. ev = DialReturn a ok"
    "failed1 = [] \<Longrightarrow> new = rev (map (\<lambda>a. DialReturn a True) addrs)" "set failed1 \<subseteq> set addrs"
    "\<forall>a\<in>set failed1. DialReturn a False \<in> set new"
    by (metis emit_simps(1))
  then show ?case
    by (intro 2(2) [of "new @ [DialReturn addr ?ok]"]) (auto simp: f split: if_splits)
qed

text \<open>What the clock must do: never go back, and advance by at least what a sleep asked for.\<close>

definition clock_ok :: "'c os_env \<Rightarrow> bool" where
  "clock_ok os \<longleftrightarrow>
     (\<forall>ev h. os_now os h \<le> os_now os (ev # h)) \<and> (\<forall>d h. os_now os h + d \<le> os_now os (Slept d # h))"

lemma clock_mono: "clock_ok os \<Longrightarrow> os_now os h \<le> os_now os (new @ h)"
  by (induction new) (auto simp: clock_ok_def intro: order_trans)

fun sleeps :: "'c history \<Rightarrow> nat" where
  "sleeps [] = 0"
| "sleeps (Slept d # h) = Suc (sleeps h)"
| "sleeps (ev # h) = sleeps h"

lemma sleeps_append [simp]: "sleeps (xs @ ys) = sleeps xs + sleeps ys"
  by (induction xs rule: sleeps.induct) auto

lemma sleeps_dials: "\<forall>ev\<in>set new. \<exists>a ok. ev = DialReturn a ok \<Longrightarrow> sleeps new = 0"
  by (induction new) auto

lemma poll_select_log:
  assumes "poll_select os ctx ch s = (w, s')"
  shows "\<exists>new. sys_log s' = new @ sys_log s \<and> sleeps new = 0 \<and> spawned_pids new = [] \<and>
    (w = None \<longrightarrow> s' = s \<and> ctx (sys_log s) = None \<and> os_recv os (sys_log s) ch = None) \<and> w \<noteq> Some TimerFired \<and>
    (\<forall>e. w = Some (CtxDone e) \<longrightarrow> ctx (sys_log s) = Some e) \<and>
    (\<forall>err ok. w = Some (Received err ok) \<longrightarrow> os_recv os (sys_log s) ch = Some (err, ok))"
  using assms by (auto simp: poll_select_def Let_def split: option.splits prod.splits if_splits)

text \<open>
  What the result of a finished loop says, given the events \<open>new\<close> since it began and the whole history
  \<open>h'\<close>: success is a sweep in which every address answered; a failure is the context's error, the
  exit of the process, or a passed deadline with addresses that did not answer.
\<close>

definition ready_verdict ::
  "'c os_env \<Rightarrow> 'c ctx \<Rightarrow> nat \<Rightarrow> string list \<Rightarrow> go_time \<Rightarrow> 'c history \<Rightarrow> 'c history \<Rightarrow> go_error option \<Rightarrow> bool" where
  "ready_verdict os ctx ch addrs deadline new h' res \<longleftrightarrow>
     (case res of
        None \<Rightarrow> \<exists>earlier. new = rev (map (\<lambda>a. DialReturn a True) addrs) @ earlier
      | Some e \<Rightarrow>
          ctx h' = Some e \<or>
          (\<exists>err ok earlier. new = ExitObserved ch err # earlier \<and> e = exit_error ''sut process exited before ready'' err ok) \<or>
          (\<exists>failed. deadline < os_now os h' \<and> failed \<noteq> [] \<and> set failed \<subseteq> set addrs \<and>
             (\<forall>a\<in>set failed. DialReturn a False \<in> set new) \<and>
             e = timeout_error failed))"

lemma ready_verdict_append:
  assumes "ready_verdict os ctx ch addrs deadline new h' res"
  shows "ready_verdict os ctx ch addrs deadline (new @ older) h' res"
proof (cases res)
  case None
  with assms show ?thesis by (auto simp: ready_verdict_def)
next
  case (Some e)
  from assms consider "ctx h' = Some e"
    | err ok earlier where "new = ExitObserved ch err # earlier" "e = exit_error ''sut process exited before ready'' err ok"
    | failed where "deadline < os_now os h'" "failed \<noteq> []" "set failed \<subseteq> set addrs"
      "\<forall>a\<in>set failed. DialReturn a False \<in> set new"
      "e = timeout_error failed"
    unfolding ready_verdict_def Some option.case by blast
  then show ?thesis
  proof cases
    case 1
    then show ?thesis by (simp add: ready_verdict_def Some)
  next
    case 2
    then show ?thesis unfolding ready_verdict_def Some option.case by (metis append_Cons)
  next
    case 3
    then show ?thesis unfolding ready_verdict_def Some option.case set_append by blast
  qed
qed

definition ready_outcome ::
  "'c os_env \<Rightarrow> 'c ctx \<Rightarrow> nat \<Rightarrow> string list \<Rightarrow> go_time \<Rightarrow> 'c sys \<Rightarrow> go_error option \<Rightarrow> 'c sys \<Rightarrow> bool" where
  "ready_outcome os ctx ch addrs deadline s res s' \<longleftrightarrow>
     (\<exists>new. sys_log s' = new @ sys_log s \<and> spawned_pids new = [] \<and>
        ready_verdict os ctx ch addrs deadline new (sys_log s') res)"

lemma ready_outcome_later:
  assumes "ready_outcome os ctx ch addrs deadline t res s'" "sys_log t = new @ sys_log s" "spawned_pids new = []"
  shows "ready_outcome os ctx ch addrs deadline s res s'"
proof -
  from assms(1) obtain new' where "sys_log s' = new' @ sys_log t" "spawned_pids new' = []"
    "ready_verdict os ctx ch addrs deadline new' (sys_log s') res"
    unfolding ready_outcome_def by blast
  with assms(2,3) ready_verdict_append show ?thesis
    unfolding ready_outcome_def by (intro exI [of _ "new' @ new"]) simp
qed

lemma spawned_dials: "\<forall>ev\<in>set new. \<exists>a ok. ev = DialReturn a ok \<Longrightarrow> spawned_pids new = []"
  by (induction new) auto

text \<open>One round of the loop: it is over with its outcome, or it sleeps.\<close>

lemma ready_round:
  assumes "probe_sweep os addrs s = (failed, s1)"
  obtains (reached) "failed = []" "ready_outcome os ctx ch addrs deadline s None s1"
      "\<exists>new. sys_log s1 = new @ sys_log s \<and> sleeps new = 0"
  | (stop) w s2 where "failed \<noteq> []" "poll_select os ctx ch s1 = (Some w, s2)" "w \<noteq> TimerFired"
      "\<And>e. w = CtxDone e \<Longrightarrow> ready_outcome os ctx ch addrs deadline s (Some e) s2"
      "\<And>err ok. w = Received err ok \<Longrightarrow> ready_outcome os ctx ch addrs deadline s
          (Some (exit_error ''sut process exited before ready'' err ok)) s2"
      "\<exists>new. sys_log s2 = new @ sys_log s \<and> sleeps new = 0"
  | (again) new where "failed \<noteq> []" "poll_select os ctx ch s1 = (None, s1)" "sys_log s1 = new @ sys_log s"
      "spawned_pids new = []" "sleeps new = 0"
      "deadline < os_now os (sys_log s1) \<Longrightarrow> ready_outcome os ctx ch addrs deadline s
          (Some (timeout_error failed)) s1"
proof -
  from probe_sweep_spec [OF assms] obtain new where new: "sys_log s1 = new @ sys_log s"
    "\<forall>ev\<in>set new. \<exists>a ok. ev = DialReturn a ok"
    "failed = [] \<Longrightarrow> new = rev (map (\<lambda>a. DialReturn a True) addrs)" "set failed \<subseteq> set addrs"
    "\<forall>a\<in>set failed. DialReturn a False \<in> set new" by metis
  note quiet = spawned_dials [OF new(2)] sleeps_dials [OF new(2)]
  show thesis
  proof (cases "failed = []")
    case True
    with new(3) have "ready_verdict os ctx ch addrs deadline new (sys_log s1) None"
      by (simp add: ready_verdict_def)
    with True new(1) quiet that(1) show thesis unfolding ready_outcome_def by blast
  next
    case False
    obtain w s2 where w: "poll_select os ctx ch s1 = (w, s2)" by fastforce
    show thesis
    proof (cases w)
      case None
      have "ready_verdict os ctx ch addrs deadline new (sys_log s1)
          (Some (timeout_error failed))"
        if "deadline < os_now os (sys_log s1)"
        unfolding ready_verdict_def option.case using that False new(4,5) by blast
      moreover have "s2 = s1" using poll_select_log [OF w] None by blast
      ultimately show thesis
        using that(3) [of new] w None False new(1) quiet unfolding ready_outcome_def by blast
    next
      case (Some wk)
      have ctx: "ready_outcome os ctx ch addrs deadline s (Some e) s2" if "wk = CtxDone e" for e
      proof -
        have "sys_log s2 = sys_log s1" "ctx (sys_log s1) = Some e"
          using w Some that by (auto simp: poll_select_def Let_def split: option.splits if_splits)
        with new(1) quiet show ?thesis
          unfolding ready_outcome_def ready_verdict_def by (intro exI [of _ new]) simp
      qed
      have recv: "ready_outcome os ctx ch addrs deadline s (Some (exit_error ''sut process exited before ready'' err ok)) s2"
        if "wk = Received err ok" for err ok
      proof -
        have "sys_log s2 = ExitObserved ch err # sys_log s1"
          using w Some that by (auto simp: poll_select_def Let_def split: option.splits if_splits)
        with new(1) quiet show ?thesis
          unfolding ready_outcome_def ready_verdict_def
          by (intro exI [of _ "ExitObserved ch err # new"]) auto
      qed
      from poll_select_log [OF w] Some have "wk \<noteq> TimerFired" by blast
      moreover from poll_select_log [OF w] obtain new2 where "sys_log s2 = new2 @ sys_log s1" "sleeps new2 = 0"
        by blast
      then have "\<exists>new. sys_log s2 = new @ sys_log s \<and> sleeps new = 0"
        using new(1) quiet(2) by (intro exI [of _ "new2 @ new"]) simp
      ultimately show thesis
        using that(2) [OF False] w Some ctx recv by blast
    qed
  qed
qed

lemma ready_loop_outcome:
  assumes "ready_loop os ctx ch addrs deadline s = Some y"
  shows "ready_outcome os ctx ch addrs deadline s (fst y) (snd y)"
proof (rule ready_loop.raw_induct [OF _ assms])
  fix loop os ctx ch addrs deadline s y
  assume IH: "\<And>os ctx ch addrs deadline s y. loop os ctx ch addrs deadline s = Some y \<Longrightarrow>
      ready_outcome os ctx ch addrs deadline s (fst y) (snd y)"
    and body: "(let (failed, s1) = probe_sweep os addrs s in
      if failed = [] then Some (None, s1)
      else let (w, s2) = poll_select os ctx ch s1 in
        case w of
          Some (CtxDone e) \<Rightarrow> Some (Some e, s2)
        | Some (Received err ok) \<Rightarrow> Some (Some (exit_error ''sut process exited before ready'' err ok), s2)
        | d \<Rightarrow>
            if time_After (os_now os (sys_log s2)) deadline
            then Some (Some (timeout_error failed), s2)
            else loop os ctx ch addrs deadline (emit (Slept (150 * time_Millisecond)) s2)) = Some y"
  obtain failed s1 where sweep: "probe_sweep os addrs s = (failed, s1)" by fastforce
  show "ready_outcome os ctx ch addrs deadline s (fst y) (snd y)"
  proof (cases rule: ready_round [OF sweep, of ctx ch deadline, case_names reached stop again])
    case reached
    with body sweep show ?thesis by auto
  next
    case (stop w s2)
    with body sweep show ?thesis by (cases w) auto
  next
    case (again new)
    show ?thesis
    proof (cases "deadline < os_now os (sys_log s1)")
      case True
      with body sweep again show ?thesis by (auto simp: time_After_def)
    next
      case False
      with body sweep again(1,2) have
        "loop os ctx ch addrs deadline (emit (Slept (150 * time_Millisecond)) s1) = Some y"
        by (simp add: time_After_def)
      from IH [OF this] show ?thesis
        by (rule ready_outcome_later [of _ _ _ _ _ _ _ _ "Slept (150 * time_Millisecond) # new"])
          (simp_all add: again(3,4))
    qed
  qed
qed

lemma less_next_multiple: "0 < m \<Longrightarrow> (t :: int) < (t div m + 1) * m"
proof -
  assume "0 < m"
  then have "t mod m < m" by simp
  moreover have "t = t div m * m + t mod m" by simp
  ultimately show ?thesis unfolding distrib_right by linarith
qed

lemma ready_loop_ends:
  assumes clock: "clock_ok os"
  shows "deadline < os_now os (sys_log s) + int k * (150 * time_Millisecond) \<Longrightarrow>
    \<exists>res s' new. ready_loop os ctx ch addrs deadline s = Some (res, s') \<and>
      sys_log s' = new @ sys_log s \<and> sleeps new \<le> k"
proof (induction k arbitrary: s)
  case 0
  obtain failed s1 where sweep: "probe_sweep os addrs s = (failed, s1)" by fastforce
  show ?case
  proof (cases rule: ready_round [OF sweep, of ctx ch deadline, case_names reached stop again])
    case reached
    with sweep show ?thesis by (subst ready_loop.simps) auto
  next
    case (stop w s2)
    with sweep show ?thesis by (subst ready_loop.simps) (cases w, auto)
  next
    case (again new)
    have "deadline < os_now os (sys_log s1)"
      using 0 clock_mono [OF clock, of "sys_log s" new] again(3) by simp
    with again sweep show ?thesis by (subst ready_loop.simps) (auto simp: time_After_def)
  qed
next
  case (Suc k)
  obtain failed s1 where sweep: "probe_sweep os addrs s = (failed, s1)" by fastforce
  show ?case
  proof (cases rule: ready_round [OF sweep, of ctx ch deadline, case_names reached stop again])
    case reached
    with sweep show ?thesis by (subst ready_loop.simps) (auto intro: le_SucI)
  next
    case (stop w s2)
    with sweep show ?thesis by (subst ready_loop.simps) (cases w, auto intro: le_SucI)
  next
    case (again new)
    let ?t = "emit (Slept (150 * time_Millisecond)) s1"
    have "os_now os (sys_log s) \<le> os_now os (sys_log s1)"
      using clock_mono [OF clock] again(3) by simp
    moreover have "os_now os (sys_log s1) + 150 * time_Millisecond \<le> os_now os (sys_log ?t)"
      using clock by (simp add: clock_ok_def)
    ultimately have "deadline < os_now os (sys_log ?t) + int k * (150 * time_Millisecond)"
      using Suc.prems by (simp add: algebra_simps)
    from Suc.IH [OF this] obtain res s' new' where rec:
      "ready_loop os ctx ch addrs deadline ?t = Some (res, s')" "sys_log s' = new' @ sys_log ?t" "sleeps new' \<le> k"
      by blast
    show ?thesis
    proof (cases "deadline < os_now os (sys_log s1)")
      case True
      with sweep again show ?thesis by (subst ready_loop.simps) (auto simp: time_After_def intro: le_SucI)
    next
      case False
      with sweep again(1,2) have "ready_loop os ctx ch addrs deadline s = Some (res, s')"
        by (subst ready_loop.simps) (simp add: time_After_def rec(1) [simplified])
      with rec(2,3) again(3,5) show ?thesis
        by (intro exI [of _ res] exI [of _ s'] exI [of _ "new' @ Slept (150 * time_Millisecond) # new"]) simp
    qed
  qed
qed

section \<open>Properties\<close>

text \<open>
  Every address that is probed can be split into a host that is not blank and a numeric port;
  conversely an address of that kind is probed as it is given, and a bare port means the loopback
  address. Bad addresses are dropped one by one and never stop the others.
\<close>

theorem normalizeProbeAddrs_exact:
  "(\<forall>a\<in>set (normalizeProbeAddrs raws). \<exists>h p v. net_SplitHostPort a = Some (h, p) \<and> a = net_JoinHostPort h p \<and>
      strings_TrimSpace h \<noteq> [] \<and> strconv_Atoi p = Some v) \<and>
   (\<forall>h p v. strconv_Atoi p = Some v \<and> h \<noteq> [] \<and> \<not> space_byte (hd h) \<and> hd h \<noteq> CHR '':'' \<and>
      strings_TrimSpace h \<noteq> [] \<and> bracket_free h \<longrightarrow>
      normalizeProbeAddrs (net_JoinHostPort h p # raws) = net_JoinHostPort h p # normalizeProbeAddrs raws) \<and>
   (\<forall>p v. strconv_Atoi p = Some v \<longrightarrow>
      normalizeProbeAddrs ((CHR '':'' # p) # raws) = (''127.0.0.1:'' @ p) # normalizeProbeAddrs raws) \<and>
   normalizeProbeAddrs (raws @ raws') = normalizeProbeAddrs raws @ normalizeProbeAddrs raws'"
proof (intro conjI ballI)
  fix a
  assume "a \<in> set (normalizeProbeAddrs raws)"
  then obtain raw where "normalize_addr raw = Some a" by (auto simp: set_normalizeProbeAddrs)
  then show "\<exists>h p v. net_SplitHostPort a = Some (h, p) \<and> a = net_JoinHostPort h p \<and>
      strings_TrimSpace h \<noteq> [] \<and> strconv_Atoi p = Some v"
    by (rule normalize_addr_Some) blast
qed (simp_all add: normalize_addr_keeps normalize_addr_port)

theorem normalizeProbeAddrs_exact_witness:
  "normalizeProbeAddrs ['':8080'', ''nonsense''] = ''127.0.0.1:8080'' # normalizeProbeAddrs [''nonsense'']"
proof -
  have "strconv_Atoi ''8080'' = Some 8080"
    by (simp add: strconv_Atoi_def starts_with_def is_digit_def digits_value_def Let_def)
  note spec = normalizeProbeAddrs_exact [of "[''nonsense'']" "[]", THEN conjunct2, THEN conjunct2, THEN conjunct1,
      rule_format, OF this]
  then show ?thesis by (simp only: append_Cons append_Nil)
qed

text \<open>
  The port of a probe address is not checked: an address whose port is out of range passes the
  normalization, although no connection to it can succeed.
\<close>

theorem impossible_ports_are_probed:
  "normalizeProbeAddrs [''localhost:99999'', ''localhost:-1''] = [''localhost:99999'', ''localhost:-1'']"
  by (simp add: normalize_addr_def TrimSpace_id space_byte_def space_runes_def strings_HasPrefix_def
      starts_with_def net_SplitHostPort_def last_index_byte_def split_checked_def net_JoinHostPort_def
      strconv_Atoi_def is_digit_def digits_value_def Let_def)

text \<open>A system for concrete runs: its clock is the time slept, every call succeeds.\<close>

fun slept_time :: "'c history \<Rightarrow> go_time" where
  "slept_time [] = 1"
| "slept_time (Slept d # h) = slept_time h + max 0 d"
| "slept_time (Blocked d # h) = slept_time h + max 0 d"
| "slept_time (ev # h) = slept_time h"

definition sample_os :: "nat os_env" where
  "sample_os = \<lparr>os_now = slept_time, os_recv = (\<lambda>h pid. None), os_pick = (\<lambda>h. PickTimer),
     os_stat = (\<lambda>h d. Inr True), os_environ = [''HOME=/root''], os_TempDir = ''/tmp'',
     os_MkdirAll = (\<lambda>h d. None), os_OpenAppend = (\<lambda>h f. None),
     os_spawn = (\<lambda>h c. Inr (100 + length (spawned_pids h))), os_dial = (\<lambda>h a. True),
     os_getpgid = (\<lambda>h pid. Inr (int pid)), os_kill_group = (\<lambda>h g. None), os_kill = (\<lambda>h pid. None),
     win_CreateJobObject = (\<lambda>h. Inr (size (open_handles h))), win_SetInformation = (\<lambda>h j. None),
     win_OpenProcess = (\<lambda>h pid. Inr (size (open_handles h))), win_AssignProcess = (\<lambda>h j p. None)\<rparr>"

lemma sample_os_simps [simp]:
  "os_now sample_os = slept_time" "os_recv sample_os h pid = None" "os_pick sample_os h = PickTimer"
  "os_stat sample_os h d = Inr True" "os_environ sample_os = [''HOME=/root'']" "os_TempDir sample_os = ''/tmp''"
  "os_MkdirAll sample_os h d = None" "os_OpenAppend sample_os h d = None"
  "os_spawn sample_os h c = Inr (100 + length (spawned_pids h))" "os_dial sample_os h a = True"
  "os_getpgid sample_os h pid = Inr (int pid)" "os_kill_group sample_os h x = None" "os_kill sample_os h pid = None"
  by (simp_all add: sample_os_def)

lemma slept_time_mono: "slept_time h \<le> slept_time (ev # h)"
  by (cases ev) auto

lemma sample_clock: "clock_ok sample_os"
  using slept_time_mono by (auto simp: clock_ok_def sample_os_def)

text \<open>
  C31. The readiness probe always ends when the clock moves: it returns a result after at most one
  more sleep of 150 milliseconds than fit into the time-out (8 seconds when none is configured).
\<close>

theorem waitSUTReady_terminates:
  assumes "clock_ok os"
  shows "\<exists>res s' new. waitSUTReady os ctx ch addrs readyTimeout s = Some (res, s') \<and> sys_log s' = new @ sys_log s \<and>
    sleeps new \<le> nat ((if readyTimeout \<le> 0 then 8 * time_Second else readyTimeout) div (150 * time_Millisecond)) + 1"
proof (cases "normalizeProbeAddrs addrs = []")
  case True
  obtain w s' where w: "blocking_select os ctx ch (400 * time_Millisecond) s = (w, s')" by fastforce
  then obtain new where "sys_log s' = new @ sys_log s" "sleeps new = 0"
    by (auto simp: blocking_select_def Let_def split: choice.splits option.splits)
  with w True show ?thesis
    by (cases w) (auto simp: waitSUTReady_def)
next
  case False
  define timeout where "timeout = (if readyTimeout \<le> 0 then 8 * time_Second else readyTimeout)"
  let ?k = "nat (timeout div (150 * time_Millisecond)) + 1"
  have pos: "0 < timeout" by (simp add: timeout_def)
  then have "int ?k = timeout div (150 * time_Millisecond) + 1" by (simp add: pos_imp_zdiv_nonneg_iff)
  then have "timeout < int ?k * (150 * time_Millisecond)"
    using less_next_multiple [of "150 * time_Millisecond" timeout] by simp
  from ready_loop_ends [OF assms, of "os_now os (sys_log s) + timeout" s ?k ctx ch "normalizeProbeAddrs addrs"] this
  show ?thesis using False by (auto simp: waitSUTReady_def time_Add_def timeout_def)
qed

theorem waitSUTReady_terminates_witness:
  "\<exists>res s'. waitSUTReady (sample_os\<lparr>os_dial := \<lambda>h a. False\<rparr>) Background 100 [''localhost:80''] 0 \<lparr>sys_log = [], sys_jobs = []\<rparr> =
     Some (res, s') \<and> sleeps (sys_log s') \<le> 54"
proof -
  have "clock_ok (sample_os\<lparr>os_dial := \<lambda>h a. False\<rparr>)"
    using sample_clock by (simp add: clock_ok_def)
  from waitSUTReady_terminates [OF this, of Background 100 "[''localhost:80'']" 0 "\<lparr>sys_log = [], sys_jobs = []\<rparr>"]
  show ?thesis by auto
qed

lemma waitSUTReady_verdict':
  assumes "waitSUTReady os ctx ch addrs readyTimeout s = Some (res, s')"
  obtains new where "sys_log s' = new @ sys_log s" "spawned_pids new = []"
    "normalizeProbeAddrs addrs \<noteq> [] \<Longrightarrow> ready_verdict os ctx ch (normalizeProbeAddrs addrs)
        (os_now os (sys_log s) + (if readyTimeout \<le> 0 then 8 * time_Second else readyTimeout)) new (sys_log s') res"
    "normalizeProbeAddrs addrs = [] \<Longrightarrow> res = None \<Longrightarrow> new = [Blocked (400 * time_Millisecond)]"
    "\<And>e. normalizeProbeAddrs addrs = [] \<Longrightarrow> res = Some e \<Longrightarrow> ctx (sys_log s') = Some e \<or>
        (\<exists>err ok. new = [ExitObserved ch err, Blocked (400 * time_Millisecond)] \<and>
           e = exit_error ''sut process exited before startup completed'' err ok)"
proof (cases "normalizeProbeAddrs addrs = []")
  case True
  obtain w s1 where w: "blocking_select os ctx ch (400 * time_Millisecond) s = (w, s1)" by fastforce
  show ?thesis
  proof (cases w)
    case (CtxDone e)
    with w True assms that [of "[Blocked (400 * time_Millisecond)]"] show ?thesis
      by (auto simp: waitSUTReady_def blocking_select_def Let_def split: choice.splits option.splits)
  next
    case TimerFired
    with w True assms that [of "[Blocked (400 * time_Millisecond)]"] show ?thesis
      by (auto simp: waitSUTReady_def blocking_select_def Let_def split: choice.splits option.splits)
  next
    case (Received err ok)
    with w True assms have "sys_log s' = [ExitObserved ch err, Blocked (400 * time_Millisecond)] @ sys_log s"
      "res = Some (exit_error ''sut process exited before startup completed'' err ok)"
      by (auto simp: waitSUTReady_def blocking_select_def Let_def split: choice.splits option.splits)
    with True that [of "[ExitObserved ch err, Blocked (400 * time_Millisecond)]"] show ?thesis by auto
  qed
next
  case False
  with assms have "ready_loop os ctx ch (normalizeProbeAddrs addrs)
      (os_now os (sys_log s) + (if readyTimeout \<le> 0 then 8 * time_Second else readyTimeout)) s = Some (res, s')"
    by (auto simp: waitSUTReady_def time_Add_def split: if_splits)
  from ready_loop_outcome [OF this] False that show ?thesis
    unfolding ready_outcome_def fst_conv snd_conv by blast
qed

lemma waitSUTReady_unprobed:
  assumes "normalizeProbeAddrs addrs = []" "waitSUTReady os ctx ch addrs readyTimeout s = Some (res, s')"
  shows "let h = Blocked (400 * time_Millisecond) # sys_log s in
    res = None \<longleftrightarrow> (os_pick os h = PickCtx \<longrightarrow> ctx h = None) \<and> (os_pick os h = PickChan \<longrightarrow> os_recv os h ch = None)"
  using assms by (auto simp: waitSUTReady_def blocking_select_def Let_def split: choice.splits option.splits)

text \<open>
  C32. The verdict of the readiness probe is right: it reports success only if in one uninterrupted
  sweep, made after everything else, every probe address answered. Without addresses it waits once for 400
  milliseconds and reports success exactly when the wait was ended neither by the context, being cancelled,
  nor by the process, having exited. Every failure is the context's own error, an exit of the process that was
  received, or a passed deadline with the addresses that failed.
\<close>

theorem waitSUTReady_verdict:
  assumes "waitSUTReady os ctx ch addrs readyTimeout s = Some (res, s')"
  shows "\<exists>new. sys_log s' = new @ sys_log s \<and> spawned_pids new = [] \<and>
    (if normalizeProbeAddrs addrs \<noteq> []
     then ready_verdict os ctx ch (normalizeProbeAddrs addrs)
            (os_now os (sys_log s) + (if readyTimeout \<le> 0 then 8 * time_Second else readyTimeout)) new (sys_log s') res
     else (let h = Blocked (400 * time_Millisecond) # sys_log s in
             res = None \<longleftrightarrow> (os_pick os h = PickCtx \<longrightarrow> ctx h = None) \<and> (os_pick os h = PickChan \<longrightarrow> os_recv os h ch = None)) \<and>
          (res = None \<longrightarrow> new = [Blocked (400 * time_Millisecond)]) \<and>
          (\<forall>e. res = Some e \<longrightarrow> ctx (sys_log s') = Some e \<or>
             (\<exists>err ok. new = [ExitObserved ch err, Blocked (400 * time_Millisecond)] \<and>
                e = exit_error ''sut process exited before startup completed'' err ok)))"
proof (rule waitSUTReady_verdict' [OF assms])
  fix new
  assume new: "sys_log s' = new @ sys_log s" "spawned_pids new = []"
    "normalizeProbeAddrs addrs \<noteq> [] \<Longrightarrow> ready_verdict os ctx ch (normalizeProbeAddrs addrs)
        (os_now os (sys_log s) + (if readyTimeout \<le> 0 then 8 * time_Second else readyTimeout)) new (sys_log s') res"
    "normalizeProbeAddrs addrs = [] \<Longrightarrow> res = None \<Longrightarrow> new = [Blocked (400 * time_Millisecond)]"
    "\<And>e. normalizeProbeAddrs addrs = [] \<Longrightarrow> res = Some e \<Longrightarrow> ctx (sys_log s') = Some e \<or>
        (\<exists>err ok. new = [ExitObserved ch err, Blocked (400 * time_Millisecond)] \<and>
           e = exit_error ''sut process exited before startup completed'' err ok)"
  show ?thesis
  proof (cases "normalizeProbeAddrs addrs = []")
    case True
    note waitSUTReady_unprobed [OF True assms]
    moreover have "res = None \<longrightarrow> new = [Blocked (400 * time_Millisecond)]" using new(4) True by blast
    moreover have "\<forall>e. res = Some e \<longrightarrow> ctx (sys_log s') = Some e \<or>
        (\<exists>err ok. new = [ExitObserved ch err, Blocked (400 * time_Millisecond)] \<and>
           e = exit_error ''sut process exited before startup completed'' err ok)" using new(5) True by blast
    ultimately show ?thesis using new(1,2) True by (intro exI [of _ new]) (simp only: refl not_True_eq_False if_False simp_thms)
  next
    case False
    with new(1-3) show ?thesis by (intro exI [of _ new]) simp
  qed
qed

lemma sample_wait:
  "\<exists>s'. waitSUTReady sample_os Background 100 [''localhost:80''] 0 \<lparr>sys_log = [], sys_jobs = []\<rparr> = Some (None, s')"
  by (subst waitSUTReady_def, subst ready_loop.simps)
    (simp add: normalize_addr_def TrimSpace_id space_byte_def space_runes_def strings_HasPrefix_def
      starts_with_def net_SplitHostPort_def last_index_byte_def split_checked_def net_JoinHostPort_def
      strconv_Atoi_def is_digit_def digits_value_def Let_def sample_os_def)

lemma sample_addr: "normalizeProbeAddrs [''localhost:80''] = [''localhost:80'']"
  by (simp add: normalize_addr_def TrimSpace_id space_byte_def space_runes_def strings_HasPrefix_def
      starts_with_def net_SplitHostPort_def last_index_byte_def split_checked_def net_JoinHostPort_def
      strconv_Atoi_def is_digit_def digits_value_def Let_def)

theorem waitSUTReady_verdict_witness:
  "\<exists>s' earlier. waitSUTReady sample_os Background 100 [''localhost:80''] 0 \<lparr>sys_log = [], sys_jobs = []\<rparr> = Some (None, s') \<and>
     sys_log s' = DialReturn ''localhost:80'' True # earlier"
proof -
  obtain s' where run: "waitSUTReady sample_os Background 100 [''localhost:80''] 0 \<lparr>sys_log = [], sys_jobs = []\<rparr> = Some (None, s')"
    using sample_wait by blast
  from waitSUTReady_verdict [OF this] run show ?thesis
    unfolding sample_addr by (auto simp: ready_verdict_def)
qed

end
