(* ===== verification/Sut_Manager.thy ===== *)
theory Sut_Manager
  imports Sut_Probe
begin

text \<open>
  The manager of the service under test (\<^verbatim>\<open>daemon/sut_manager.go\<close>): one process, started on
  demand, probed, stopped gracefully and killed when it does not go. The manager's mutex makes
  \<open>ensureStarted\<close> and \<open>snapshot\<close> single steps; \<open>stop\<close> gives it up before it waits for the process,
  so it is split into the part under the mutex and the part after it.
\<close>

section \<open>State\<close>

record StartSUTInput =
  in_Project :: string
  in_RuntimePath :: string

text \<open>
  The boot plan is an interface that the user implements. Its getters are configuration values,
  \<open>GetCommand\<close> is a call to the outside.
\<close>

record 'c SUTBootPlan =
  bp_IsEnable :: bool
  bp_IdleTTL :: duration
  bp_ReadyTimeout :: duration
  bp_GracePeriod :: duration
  bp_GetCommand :: "'c history \<Rightarrow> StartSUTInput \<Rightarrow> exec_Cmd option \<times> go_error option"
  bp_ProbeAddrs :: "string list"

record sutState =
  st_Ready :: bool
  st_PID :: int
  st_StartedAt :: go_time
  st_RestartCount :: int
  st_LastError :: string

text \<open>A wait channel is named by the process whose exit it reports.\<close>

record 'c sutManager =
  sm_boot :: "'c SUTBootPlan option"
  sm_cmd :: "exec_Cmd option"
  sm_waitCh :: "nat option"
  sm_startedAt :: go_time
  sm_restartCount :: int
  sm_lastErr :: string

definition newSUTManager :: "'c SUTBootPlan option \<Rightarrow> 'c sutManager" where
  "newSUTManager boot =
     \<lparr>sm_boot = boot, sm_cmd = None, sm_waitCh = None, sm_startedAt = 0, sm_restartCount = 0, sm_lastErr = []\<rparr>"

section \<open>Configuration with its defaults\<close>

definition idleTTL :: "'c sutManager \<Rightarrow> duration" where
  "idleTTL m =
     (case sm_boot m of
        None \<Rightarrow> 2 * time_Second
      | Some b \<Rightarrow> if bp_IdleTTL b > 0 then bp_IdleTTL b else 2 * time_Second)"

definition gracePeriod :: "'c sutManager \<Rightarrow> duration" where
  "gracePeriod m =
     (case sm_boot m of
        None \<Rightarrow> 4 * time_Second
      | Some b \<Rightarrow> if bp_GracePeriod b > 0 then bp_GracePeriod b else 4 * time_Second)"

definition readyTimeout :: "'c sutManager \<Rightarrow> duration" where
  "readyTimeout m =
     (case sm_boot m of
        None \<Rightarrow> 8 * time_Second
      | Some b \<Rightarrow> if bp_ReadyTimeout b > 0 then bp_ReadyTimeout b else 8 * time_Second)"

definition isEnabled :: "'c sutManager \<Rightarrow> bool" where
  "isEnabled m = (case sm_boot m of None \<Rightarrow> False | Some b \<Rightarrow> bp_IsEnable b)"

section \<open>Processes\<close>

definition isRunningLocked :: "'c os_env \<Rightarrow> 'c sutManager \<Rightarrow> 'c sys \<Rightarrow> bool \<times> 'c sutManager \<times> 'c sys" where
  "isRunningLocked os m s =
     (case (process_of (sm_cmd m), sm_waitCh m) of
        (Some pid, Some ch) \<Rightarrow>
          (case os_recv os (sys_log s) ch of
             Some (err, ok) \<Rightarrow>
               (False,
                m\<lparr>sm_lastErr := (case err of Some e \<Rightarrow> if ok then error_text e else sm_lastErr m | None \<Rightarrow> sm_lastErr m),
                  sm_cmd := None, sm_waitCh := None\<rparr>,
                emit (ExitObserved ch err) s)
           | None \<Rightarrow> (True, m, s))
      | (p, c) \<Rightarrow> (False, m, s))"

definition terminateProcess ::
  "goos \<Rightarrow> 'c os_env \<Rightarrow> exec_Cmd option \<Rightarrow> nat option \<Rightarrow> duration \<Rightarrow> 'c sys \<Rightarrow> 'c sys" where
  "terminateProcess g os cmd waitCh waitTimeout s =
     (case process_of cmd of
        None \<Rightarrow> s
      | Some pid \<Rightarrow>
          (let s1 = snd (terminateSUTProcess g os cmd s) in
           case waitCh of
             None \<Rightarrow> s1
           | Some ch \<Rightarrow>
               (let timeout = (if waitTimeout \<le> 0 then 5 * time_Second else waitTimeout)
                in snd (blocking_select os Background ch timeout s1))))"

definition forceStopLocked :: "goos \<Rightarrow> 'c os_env \<Rightarrow> exec_Cmd option \<Rightarrow> nat option \<Rightarrow> 'c sys \<Rightarrow> 'c sys" where
  "forceStopLocked g os cmd waitCh s =
     (case process_of cmd of
        None \<Rightarrow> s
      | Some pid \<Rightarrow> terminateProcess g os cmd waitCh (5 * time_Second) s)"

definition validateCommand :: "'c os_env \<Rightarrow> exec_Cmd option \<Rightarrow> 'c sys \<Rightarrow> go_error option" where
  "validateCommand os cmd s =
     (case cmd of
        None \<Rightarrow> Some (ErrorNew ''sut command is nil'')
      | Some c \<Rightarrow>
          if strings_TrimSpace (cmd_Path c) = [] then Some (ErrorNew ''sut command path is required'')
          else if strings_TrimSpace (cmd_Dir c) = [] then Some (ErrorNew ''sut workdir is required'')
          else case os_stat os (sys_log s) (cmd_Dir c) of
                 Inl e \<Rightarrow> Some (errorf_w ''sut workdir stat failed: '' e [])
               | Inr isDir \<Rightarrow>
                   if \<not> isDir then Some (ErrorNew (''sut workdir is not directory: '' @ cmd_Dir c)) else None)"

section \<open>Starting\<close>

text \<open>The start of a command and its binding to the platform's process control.\<close>

definition start_process :: "goos \<Rightarrow> 'c os_env \<Rightarrow> exec_Cmd \<Rightarrow> string \<Rightarrow> 'c sys \<Rightarrow> (go_error + exec_Cmd) \<times> 'c sys" where
  "start_process g os c logFile s =
     (let started = os_spawn os (sys_log s) c;
          s1 = emit (SpawnReturn started) s
      in case started of
           Inl e \<Rightarrow> (Inl e, emit (LogClosed logFile) s1)
         | Inr pid \<Rightarrow>
             (let c1 = c\<lparr>cmd_Process := Some pid\<rparr> in
              case afterSUTStart g os (Some c1) s1 of
                (Some e, s2) \<Rightarrow>
                  (Inl e, emit (LogClosed logFile) (terminateProcess g os (Some c1) None (2 * time_Second) s2))
              | (None, s2) \<Rightarrow> (Inr c1, s2)))"

text \<open>
  Everything up to the running process: the command from the plan, its checks, the log file, and
  the start. After the validation the command is not nil.
\<close>

definition launch :: "goos \<Rightarrow> 'c os_env \<Rightarrow> 'c SUTBootPlan \<Rightarrow> StartSUTInput \<Rightarrow> 'c sys \<Rightarrow> (go_error + exec_Cmd) \<times> 'c sys" where
  "launch g os boot inp s =
     (case bp_GetCommand boot (sys_log s) inp of
        (cmd, Some e) \<Rightarrow> (Inl e, s)
      | (cmd, None) \<Rightarrow>
          (case validateCommand os cmd s of
             Some e \<Rightarrow> (Inl e, s)
           | None \<Rightarrow>
               (let c0 = the (prepareSUTCommand g cmd);
                    c1 = (if cmd_Env c0 = [] then c0\<lparr>cmd_Env := os_environ os\<rparr> else c0)
                in case OpenAppLogFile os (in_RuntimePath inp) s of
                     (Inl e, s1) \<Rightarrow> (Inl e, s1)
                   | (Inr f, s1) \<Rightarrow> start_process g os (the (AttachCmdOutput (Some c1) (Some f))) f s1)))"

text \<open>What the goroutine that waits for the process does once it has exited and the result is sent.\<close>

definition wait_goroutine :: "goos \<Rightarrow> exec_Cmd \<Rightarrow> string option \<Rightarrow> 'c sys \<Rightarrow> 'c sys" where
  "wait_goroutine g c logFile s =
     (let s1 = releaseSUTProcess g (Some c) s
      in case logFile of None \<Rightarrow> s1 | Some f \<Rightarrow> emit (LogClosed f) s1)"

definition sut_failed :: "go_error \<Rightarrow> 'c sutManager \<Rightarrow> 'c sutManager" where
  "sut_failed e m = m\<lparr>sm_lastErr := error_text e\<rparr>"

definition sut_started :: "exec_Cmd \<Rightarrow> nat \<Rightarrow> go_time \<Rightarrow> 'c sutManager \<Rightarrow> 'c sutManager" where
  "sut_started c ch now m =
     m\<lparr>sm_restartCount := (if time_IsZero (sm_startedAt m) then sm_restartCount m else sm_restartCount m + 1),
       sm_cmd := Some c, sm_waitCh := Some ch, sm_startedAt := now, sm_lastErr := []\<rparr>"

definition ensureStarted ::
  "goos \<Rightarrow> 'c os_env \<Rightarrow> 'c ctx \<Rightarrow> StartSUTInput \<Rightarrow> 'c sutManager \<Rightarrow> 'c sys \<Rightarrow>
   (go_error option \<times> 'c sutManager \<times> 'c sys) option" where
  "ensureStarted g os ctx inp m s =
     (if \<not> isEnabled m then Some (None, m, s)
      else let (running, m1, s1) = isRunningLocked os m s in
        if running then Some (None, m1, s1)
        else case sm_boot m1 of
          None \<Rightarrow> (let e = ErrorNew ''sut boot plan is nil'' in Some (Some e, sut_failed e m1, s1))
        | Some boot \<Rightarrow>
            (case launch g os boot inp s1 of
               (Inl e, s2) \<Rightarrow> Some (Some e, sut_failed e m1, s2)
             | (Inr c, s2) \<Rightarrow>
                 (let ch = the (cmd_Process c) in
                  case waitSUTReady os ctx ch (bp_ProbeAddrs boot) (readyTimeout m1) s2 of
                    None \<Rightarrow> None
                  | Some (Some e, s3) \<Rightarrow>
                      Some (Some e, sut_failed e m1, forceStopLocked g os (Some c) (Some ch) s3)
                  | Some (None, s3) \<Rightarrow>
                      Some (None, sut_started c ch (os_now os (sys_log s3)) m1, s3))))"

section \<open>Stopping\<close>

definition stop_locked :: "'c os_env \<Rightarrow> 'c sutManager \<Rightarrow> 'c sys \<Rightarrow> (exec_Cmd \<times> nat) option \<times> 'c sutManager \<times> 'c sys" where
  "stop_locked os m s =
     (if \<not> isEnabled m then (None, m, s)
      else let (running, m1, s1) = isRunningLocked os m s;
               m2 = m1\<lparr>sm_cmd := None, sm_waitCh := None\<rparr>
           in if \<not> running then (None, m2, s1)
              else (Some (the (sm_cmd m1), the (sm_waitCh m1)), m2, s1))"

definition stop_waiting ::
  "goos \<Rightarrow> 'c os_env \<Rightarrow> 'c ctx \<Rightarrow> duration \<Rightarrow> exec_Cmd \<Rightarrow> nat \<Rightarrow> 'c sys \<Rightarrow> go_error option \<times> 'c sys" where
  "stop_waiting g os ctx grace c ch s =
     (let s1 = (case cmd_Process c of None \<Rightarrow> s | Some pid \<Rightarrow> emit (SignalInterrupt pid) s) in
      case blocking_select os ctx ch grace s1 of
        (CtxDone e, s2) \<Rightarrow> (Some e, terminateProcess g os (Some c) (Some ch) (5 * time_Second) s2)
      | (TimerFired, s2) \<Rightarrow> (None, terminateProcess g os (Some c) (Some ch) (5 * time_Second) s2)
      | (Received err ok, s2) \<Rightarrow> (None, s2))"

definition sut_stop :: "goos \<Rightarrow> 'c os_env \<Rightarrow> 'c ctx \<Rightarrow> 'c sutManager \<Rightarrow> 'c sys \<Rightarrow> go_error option \<times> 'c sutManager \<times> 'c sys" where
  "sut_stop g os ctx m s =
     (case stop_locked os m s of
        (None, m1, s1) \<Rightarrow> (None, m1, s1)
      | (Some (c, ch), m1, s1) \<Rightarrow>
          (case stop_waiting g os ctx (gracePeriod m1) c ch s1 of
             (Some e, s2) \<Rightarrow> (Some e, sut_failed e m1, s2)
           | (None, s2) \<Rightarrow> (None, m1, s2)))"

section \<open>Queries\<close>

definition snapshot :: "'c os_env \<Rightarrow> 'c sutManager \<Rightarrow> 'c sys \<Rightarrow> sutState \<times> 'c sutManager \<times> 'c sys" where
  "snapshot os m s =
     (let (running, m1, s1) = isRunningLocked os m s
      in (\<lparr>st_Ready = running,
           st_PID = (case process_of (sm_cmd m1) of None \<Rightarrow> 0 | Some pid \<Rightarrow> int pid),
           st_StartedAt = sm_startedAt m1, st_RestartCount = sm_restartCount m1,
           st_LastError = sm_lastErr m1\<rparr>, m1, s1))"

section \<open>Lemmas\<close>

lemma live_pids_group [simp]:
  "unsettled_pids (KillGroupReturn pid pgid err # h) = (if err = None then unsettled_pids h - {pid} else unsettled_pids h)"
  by (cases err) auto

lemma live_pids_append: "spawned_pids new = [] \<Longrightarrow> unsettled_pids (new @ h) \<subseteq> unsettled_pids h"
  by (induction new rule: spawned_pids.induct) auto

lemmas sut_defs = ensureStarted_def sut_stop_def snapshot_def

text \<open>
  The invariant: the command and its wait channel are set together and belong to one process, and
  no other process that was started is unaccounted for.
\<close>

definition sut_ok :: "'c sutManager \<Rightarrow> 'c sys \<Rightarrow> bool" where
  "sut_ok m s \<longleftrightarrow>
     sm_waitCh m = process_of (sm_cmd m) \<and> (sm_cmd m \<noteq> None \<longrightarrow> sm_waitCh m \<noteq> None) \<and>
     unsettled_pids (sys_log s) \<subseteq> set_option (sm_waitCh m)"

lemma sut_ok_same_live: "unsettled_pids (sys_log t) = unsettled_pids (sys_log s) \<Longrightarrow> sut_ok m t = sut_ok m s"
  by (simp add: sut_ok_def)

lemma isRunning_spec:
  assumes "isRunningLocked os m s = (running, m1, s1)" "sut_ok m s"
  shows "sut_ok m1 s1 \<and> sm_boot m1 = sm_boot m \<and> sm_startedAt m1 = sm_startedAt m \<and>
    sm_restartCount m1 = sm_restartCount m \<and> sys_jobs s1 = sys_jobs s \<and>
    (if running then m1 = m \<and> s1 = s \<and> sm_cmd m \<noteq> None else sm_cmd m1 = None \<and> sm_waitCh m1 = None \<and> unsettled_pids (sys_log s1) = {})"
  using assms
  by (auto simp: isRunningLocked_def sut_ok_def process_of_def bind_eq_Some_conv split: option.splits)

lemma blocking_select_live:
  assumes "blocking_select os ctx ch d s = (w, s')"
  shows "unsettled_pids (sys_log s') \<subseteq> unsettled_pids (sys_log s)" "sys_jobs s' = sys_jobs s"
    "\<And>err ok. w = Received err ok \<Longrightarrow> ch \<notin> unsettled_pids (sys_log s')"
    "\<exists>new. sys_log s' = new @ sys_log s \<and> spawned_pids new = []"
  using assms
  by (auto simp: blocking_select_def Let_def split: choice.splits option.splits)

lemma terminateProcess_live:
  "unsettled_pids (sys_log (terminateProcess g os cmd waitCh t s)) \<subseteq> unsettled_pids (sys_log s) - set_option (process_of cmd)"
proof (cases "process_of cmd")
  case None
  then show ?thesis by (simp add: terminateProcess_def)
next
  case (Some pid)
  let ?s1 = "snd (terminateSUTProcess g os cmd s)"
  have "unsettled_pids (sys_log ?s1) = unsettled_pids (sys_log s) - {pid}"
    using platform.terminate_kills [of g os cmd s] Some by simp
  moreover have "unsettled_pids (sys_log (snd (blocking_select os Background ch d ?s1))) \<subseteq> unsettled_pids (sys_log ?s1)" for ch d
    using blocking_select_live(1) [of os Background ch d ?s1] by (metis prod.collapse)
  ultimately show ?thesis
    using Some by (auto simp: terminateProcess_def Let_def split: option.split)
qed

lemma terminateProcess_extends: "\<exists>new. sys_log (terminateProcess g os cmd waitCh t s) = new @ sys_log s"
proof (cases "process_of cmd")
  case None
  then show ?thesis by (simp add: terminateProcess_def)
next
  case (Some pid)
  let ?s1 = "snd (terminateSUTProcess g os cmd s)"
  obtain new where new: "sys_log ?s1 = new @ sys_log s"
    using platform.terminate_extends [of g os cmd s] by blast
  have "\<exists>more. sys_log (snd (blocking_select os Background ch d ?s1)) = more @ sys_log s" for ch d
  proof -
    obtain more where "sys_log (snd (blocking_select os Background ch d ?s1)) = more @ sys_log ?s1"
      using blocking_select_live(4) [of os Background ch d ?s1] by (metis prod.collapse)
    with new show ?thesis by simp
  qed
  with new Some show ?thesis
    by (cases waitCh) (simp_all add: terminateProcess_def Let_def)
qed

lemma openLogFile_live:
  assumes "OpenAppLogFile os p s = (r, s')"
  shows "unsettled_pids (sys_log s') = unsettled_pids (sys_log s)"
  using assms by (auto simp: OpenAppLogFile_def openLogFile_def Let_def split: option.splits)

lemma prepare_not_nil: "validateCommand os cmd s = None \<Longrightarrow> \<exists>c. prepareSUTCommand g cmd = Some c"
  using platform.prepare_Some [of g] by (cases cmd) (auto simp: validateCommand_def)

text \<open>The outcomes of a launch: nothing was started, or a start that was killed again; or a process.\<close>

lemma start_process_live:
  assumes "start_process g os c f s = (r, s')"
  shows "(\<exists>e. r = Inl e \<and> unsettled_pids (sys_log s') \<subseteq> unsettled_pids (sys_log s)) \<or>
    (\<exists>c1 pid. r = Inr c1 \<and> cmd_Process c1 = Some pid \<and> unsettled_pids (sys_log s') = insert pid (unsettled_pids (sys_log s)))"
proof (cases "os_spawn os (sys_log s) c")
  case (Inl e)
  with assms show ?thesis by (auto simp: start_process_def Let_def)
next
  case (Inr pid)
  let ?c1 = "c\<lparr>cmd_Process := Some pid\<rparr>"
  let ?s1 = "emit (SpawnReturn (Inr pid)) s"
  obtain ae s2 where after: "afterSUTStart g os (Some ?c1) ?s1 = (ae, s2)" by fastforce
  have live: "unsettled_pids (sys_log s2) = insert pid (unsettled_pids (sys_log s))"
    using platform.after_extends [of g os "Some ?c1" ?s1] after by auto
  have "unsettled_pids (sys_log (terminateProcess g os (Some ?c1) None (2 * time_Second) s2)) \<subseteq> unsettled_pids (sys_log s2) - {pid}"
    using terminateProcess_live [of g os "Some ?c1" None "2 * time_Second" s2] by (simp add: process_of_def)
  then have "unsettled_pids (sys_log (terminateProcess g os (Some ?c1) None (2 * time_Second) s2)) \<subseteq> unsettled_pids (sys_log s)"
    using live by blast
  with assms Inr after live show ?thesis
    by (cases ae) (simp_all add: start_process_def Let_def, force+)
qed

lemma launch_live:
  assumes "launch g os boot inp s = (r, s')"
  shows "(\<exists>e. r = Inl e \<and> unsettled_pids (sys_log s') \<subseteq> unsettled_pids (sys_log s)) \<or>
    (\<exists>c pid. r = Inr c \<and> cmd_Process c = Some pid \<and> unsettled_pids (sys_log s') = insert pid (unsettled_pids (sys_log s)))"
  using assms
  by (auto simp: launch_def Let_def openLogFile_live split: prod.splits option.splits sum.splits
      dest!: openLogFile_live start_process_live)

text \<open>What each operation leaves, case by case.\<close>

lemma forceStop_live:
  "unsettled_pids (sys_log (forceStopLocked g os cmd waitCh s)) \<subseteq> unsettled_pids (sys_log s) - set_option (process_of cmd)"
  using terminateProcess_live [of g os cmd waitCh "5 * time_Second" s]
  by (cases "process_of cmd") (simp_all add: forceStopLocked_def)

lemma waitSUTReady_live:
  assumes "waitSUTReady os ctx ch addrs t s = Some (res, s')"
  shows "unsettled_pids (sys_log s') \<subseteq> unsettled_pids (sys_log s)"
  using waitSUTReady_verdict' [OF assms] live_pids_append by metis

lemma ensureStarted_cases [consumes 2, case_names disabled running refused started]:
  assumes "ensureStarted g os ctx inp m s = Some (r, m', s')" "sut_ok m s"
  obtains (disabled) "\<not> isEnabled m" "r = None" "m' = m" "s' = s"
  | (running) "isEnabled m" "isRunningLocked os m s = (True, m, s)" "r = None" "m' = m" "s' = s" "sm_cmd m \<noteq> None"
  | (refused) m1 e where "isEnabled m" "fst (isRunningLocked os m s) = False" "m1 = fst (snd (isRunningLocked os m s))"
      "r = Some e" "m' = sut_failed e m1" "unsettled_pids (sys_log s') = {}"
  | (started) m1 s1 boot c pid s2 where "isEnabled m" "isRunningLocked os m s = (False, m1, s1)" "sm_boot m = Some boot"
      "launch g os boot inp s1 = (Inr c, s2)" "cmd_Process c = Some pid" "unsettled_pids (sys_log s2) = {pid}"
      "waitSUTReady os ctx pid (bp_ProbeAddrs boot) (readyTimeout m) s2 = Some (None, s')" "r = None"
      "m' = sut_started c pid (os_now os (sys_log s')) m1"
      "unsettled_pids (sys_log s') \<subseteq> {pid}"
proof (cases "isEnabled m")
  case False
  with assms(1) have "r = None" "m' = m" "s' = s" by (simp_all add: ensureStarted_def)
  with False show thesis by (rule disabled)
next
  case en: True
  obtain running m1 s1 where run: "isRunningLocked os m s = (running, m1, s1)" by (rule prod_cases3)
  note spec = isRunning_spec [OF run assms(2)]
  show thesis
  proof (cases running)
    case True
    with spec have same: "m1 = m" "s1 = s" "sm_cmd m \<noteq> None" by simp_all
    with assms(1) run en True have "r = None" "m' = m" "s' = s" by (simp_all add: ensureStarted_def)
    with en run True same show thesis by (intro running) simp_all
  next
    case False
    with spec have dead: "unsettled_pids (sys_log s1) = {}" by simp
    obtain boot where boot: "sm_boot m = Some boot" using en by (auto simp: isEnabled_def split: option.splits)
    obtain l s2 where l: "launch g os boot inp s1 = (l, s2)" by fastforce
    have ready: "readyTimeout m1 = readyTimeout m" using spec by (simp add: readyTimeout_def)
    have boot1: "sm_boot m1 = Some boot" using boot spec by simp
    have off: "fst (isRunningLocked os m s) = False" "m1 = fst (snd (isRunningLocked os m s))"
      using run False by simp_all
    show thesis
    proof (cases l)
      case (Inl e)
      with assms(1) en run False boot1 l have "r = Some e" "m' = sut_failed e m1" "s' = s2"
        by (simp_all add: ensureStarted_def)
      moreover have "unsettled_pids (sys_log s2) = {}" using launch_live [OF l] Inl dead by auto
      ultimately show thesis by (intro refused [OF en off]) simp_all
    next
      case (Inr c)
      with launch_live [OF l] dead obtain pid where pid: "cmd_Process c = Some pid" "unsettled_pids (sys_log s2) = {pid}"
        by auto
      have body: "(case waitSUTReady os ctx pid (bp_ProbeAddrs boot) (readyTimeout m) s2 of
          None \<Rightarrow> None
        | Some (Some e, s3) \<Rightarrow> Some (Some e, sut_failed e m1, forceStopLocked g os (Some c) (Some pid) s3)
        | Some (None, s3) \<Rightarrow> Some (None, sut_started c pid (os_now os (sys_log s3)) m1, s3)) =
          Some (r, m', s')"
        using assms(1) en run False boot1 l Inr pid(1) by (simp add: ensureStarted_def ready)
      then obtain res s3 where
        w: "waitSUTReady os ctx pid (bp_ProbeAddrs boot) (readyTimeout m) s2 = Some (res, s3)"
        by (auto split: option.splits)
      note live3 = waitSUTReady_live [OF w]
      show thesis
      proof (cases res)
        case None
        with body w have "r = None" "s' = s3" "m' = sut_started c pid (os_now os (sys_log s3)) m1"
          by auto
        with en run False boot l Inr pid w None live3 show thesis
          by (intro started [of m1 s1 boot c s2 pid]) simp_all
      next
        case (Some e)
        with body w have "r = Some e" "m' = sut_failed e m1" "s' = forceStopLocked g os (Some c) (Some pid) s3"
          by simp_all
        moreover have "unsettled_pids (sys_log (forceStopLocked g os (Some c) (Some pid) s3)) = {}"
          using forceStop_live [of g os "Some c" "Some pid" s3] live3 pid by (auto simp: process_of_def)
        ultimately show thesis by (intro refused [OF en off]) simp_all
      qed
    qed
  qed
qed

lemma release_live: "unsettled_pids (sys_log (releaseSUTProcess g cmd s)) = unsettled_pids (sys_log s)"
  by (cases g)
    (simp_all add: releaseSUTProcess_def unix_releaseSUTProcess_def win_releaseSUTProcess_def split: option.split)

lemma wait_goroutine_live: "unsettled_pids (sys_log (wait_goroutine g c f s)) = unsettled_pids (sys_log s)"
  by (cases f) (simp_all add: wait_goroutine_def Let_def release_live)

lemma stop_waiting_live:
  assumes "stop_waiting g os ctx grace c ch s = (r, s')" "cmd_Process c = Some ch"
  shows "unsettled_pids (sys_log s') \<subseteq> unsettled_pids (sys_log s) - {ch}"
proof -
  let ?s1 = "emit (SignalInterrupt ch) s"
  obtain w s2 where w: "blocking_select os ctx ch grace ?s1 = (w, s2)" by fastforce
  have live: "unsettled_pids (sys_log s2) \<subseteq> unsettled_pids (sys_log s)"
    using blocking_select_live(1) [OF w] by simp
  have kill: "unsettled_pids (sys_log (terminateProcess g os (Some c) (Some ch) (5 * time_Second) s2)) \<subseteq> unsettled_pids (sys_log s) - {ch}"
    using terminateProcess_live [of g os "Some c" "Some ch" "5 * time_Second" s2] live assms(2)
    by (auto simp: process_of_def)
  show ?thesis
  proof (cases w)
    case (Received err ok)
    with assms w live blocking_select_live(3) [OF w] show ?thesis by (auto simp: stop_waiting_def)
  qed (use assms w kill in \<open>simp_all add: stop_waiting_def\<close>)
qed

lemma stop_locked_spec:
  assumes "stop_locked os m s = (x, m1, s1)" "sut_ok m s" "isEnabled m"
  shows "sm_cmd m1 = None \<and> sm_waitCh m1 = None \<and> sm_boot m1 = sm_boot m \<and>
    (case x of None \<Rightarrow> unsettled_pids (sys_log s1) = {}
     | Some (c, ch) \<Rightarrow> cmd_Process c = Some ch \<and> sm_cmd m = Some c \<and> s1 = s \<and> unsettled_pids (sys_log s1) \<subseteq> {ch})"
proof -
  obtain running m2 s2 where run: "isRunningLocked os m s = (running, m2, s2)" by (rule prod_cases3)
  note spec = isRunning_spec [OF run assms(2)]
  show ?thesis
  proof (cases running)
    case True
    with spec obtain c where "sm_cmd m = Some c" "m2 = m" "s2 = s" by auto
    moreover from this assms(2) obtain ch where "cmd_Process c = Some ch" "sm_waitCh m = Some ch"
      "unsettled_pids (sys_log s) \<subseteq> {ch}"
      by (cases "cmd_Process c") (auto simp: sut_ok_def process_of_def)
    ultimately show ?thesis using assms(1,3) run True by (auto simp: stop_locked_def)
  next
    case False
    with assms(1,3) run spec show ?thesis by (auto simp: stop_locked_def)
  qed
qed

lemma sut_stop_dead:
  assumes "sut_stop g os ctx m s = (r, m', s')" "sut_ok m s" "isEnabled m"
  shows "unsettled_pids (sys_log s') = {} \<and> sm_cmd m' = None \<and> sm_waitCh m' = None \<and> sm_boot m' = sm_boot m"
proof -
  obtain x m1 s1 where x: "stop_locked os m s = (x, m1, s1)" by (rule prod_cases3)
  note spec = stop_locked_spec [OF x assms(2,3)]
  show ?thesis
  proof (cases x)
    case None
    with assms(1) x spec show ?thesis by (simp add: sut_stop_def)
  next
    case (Some p)
    then obtain c ch where p: "p = (c, ch)" by fastforce
    obtain e s2 where w: "stop_waiting g os ctx (gracePeriod m1) c ch s1 = (e, s2)" by fastforce
    have "unsettled_pids (sys_log s2) = {}"
      using stop_waiting_live [OF w] spec Some p by auto
    with assms(1) x Some p w spec show ?thesis
      by (cases e) (auto simp: sut_stop_def sut_failed_def)
  qed
qed

lemma sut_ok_dead: "sm_cmd m = None \<Longrightarrow> sm_waitCh m = None \<Longrightarrow> unsettled_pids (sys_log s) = {} \<Longrightarrow> sut_ok m s"
  by (simp add: sut_ok_def process_of_def)

lemma isRunning_off:
  "sut_ok m s \<Longrightarrow> fst (isRunningLocked os m s) = False \<Longrightarrow>
   sm_cmd (fst (snd (isRunningLocked os m s))) = None \<and> sm_waitCh (fst (snd (isRunningLocked os m s))) = None"
  by (cases "isRunningLocked os m s" rule: prod_cases3) (auto dest: isRunning_spec)

lemma sut_ok_ensureStarted:
  assumes "ensureStarted g os ctx inp m s = Some (r, m', s')" "sut_ok m s"
  shows "sut_ok m' s'"
  using assms
proof (cases rule: ensureStarted_cases)
  case (refused m1 e)
  with isRunning_off [OF assms(2)] show ?thesis
    by (intro sut_ok_dead) (simp_all add: sut_failed_def)
next
  case (started m1 s1 boot c pid s2)
  then show ?thesis by (simp add: sut_ok_def sut_started_def process_of_def)
qed (use assms(2) in simp_all)

lemma ensureStarted_dead:
  assumes "ensureStarted g os ctx inp m s = Some (Some e, m', s')" "sut_ok m s"
  shows "unsettled_pids (sys_log s') = {} \<and> sm_cmd m' = None \<and> sm_waitCh m' = None"
  using assms
proof (cases rule: ensureStarted_cases)
  case (refused m1 e')
  with isRunning_off [OF assms(2)] show ?thesis by (simp add: sut_failed_def)
qed simp_all

section \<open>Properties\<close>

text \<open>A plan and a command for concrete runs.\<close>

definition sample_cmd :: exec_Cmd where
  "sample_cmd = \<lparr>cmd_Path = ''/bin/app'', cmd_Args = [], cmd_Dir = ''/srv'', cmd_Env = [], cmd_Output = None,
     cmd_Setpgid = False, cmd_Process = None\<rparr>"

definition sample_plan :: "nat SUTBootPlan" where
  "sample_plan = \<lparr>bp_IsEnable = True, bp_IdleTTL = 0, bp_ReadyTimeout = 0, bp_GracePeriod = 0,
     bp_GetCommand = (\<lambda>h inp. (Some sample_cmd, None)), bp_ProbeAddrs = []\<rparr>"

definition sample_input :: StartSUTInput where
  "sample_input = \<lparr>in_Project = ''shop'', in_RuntimePath = ''/tmp/tcd/shop/runtime.json''\<rparr>"

definition empty_sys :: "nat sys" where
  "empty_sys = \<lparr>sys_log = [], sys_jobs = []\<rparr>"

lemma sample_new: "sut_ok (newSUTManager (Some sample_plan)) empty_sys" "isEnabled (newSUTManager (Some sample_plan))"
  by (simp_all add: sut_ok_def newSUTManager_def process_of_def empty_sys_def isEnabled_def sample_plan_def)

lemma sample_launch:
  "\<exists>c f. launch Unix sample_os sample_plan sample_input empty_sys =
     (Inr c, \<lparr>sys_log = [SpawnReturn (Inr 100), LogOpened f None], sys_jobs = []\<rparr>) \<and> cmd_Process c = Some 100"
proof -
  have trims: "strings_TrimSpace ''/bin/app'' = ''/bin/app''" "strings_TrimSpace ''/srv'' = ''/srv''"
    by (rule TrimSpace_id; simp add: space_byte_def space_runes_def)+
  obtain f where f: "OpenAppLogFile sample_os (in_RuntimePath sample_input) empty_sys =
      (Inr f, \<lparr>sys_log = [LogOpened f None], sys_jobs = []\<rparr>)"
    by (simp add: OpenAppLogFile_def openLogFile_def empty_sys_def emit_def)
  have "validateCommand sample_os (Some sample_cmd) empty_sys = None"
    by (simp add: validateCommand_def sample_cmd_def trims)
  then show ?thesis
    by (simp add: launch_def sample_plan_def f prepareSUTCommand_def unix_prepareSUTCommand_def Let_def
        start_process_def afterSUTStart_def unix_afterSUTStart_def emit_def)
qed

text \<open>
  C11. One instance: every start, stop and state query that runs alone keeps the invariant of the manager, so
  under any sequence of them a process that is alive, that is neither killed nor seen to exit since it was
  started, is the one the manager holds or one whose kill failed; as long as no kill fails at most one is alive.
  This holds on both platforms and whatever the calls return.
\<close>

theorem sut_single_instance:
  assumes "sut_ok m s"
  shows "(\<forall>r m' s'. ensureStarted g os ctx inp m s = Some (r, m', s') \<longrightarrow> sut_ok m' s') \<and>
    (\<forall>r m' s'. sut_stop g os ctx m s = (r, m', s') \<longrightarrow> sut_ok m' s') \<and>
    (\<forall>st m' s'. snapshot os m s = (st, m', s') \<longrightarrow> sut_ok m' s') \<and>
    sut_ok m (wait_goroutine g c f s) \<and>
    live_pids (sys_log s) \<subseteq> set_option (sm_waitCh m) \<union> kill_failed (sys_log s) \<and>
    (kill_failed (sys_log s) = {} \<longrightarrow> card (live_pids (sys_log s)) \<le> 1)"
proof (intro conjI allI impI)
  show "sut_ok m' s'" if "ensureStarted g os ctx inp m s = Some (r, m', s')" for r m' s'
    using that assms by (rule sut_ok_ensureStarted)
  show "sut_ok m' s'" if "sut_stop g os ctx m s = (r, m', s')" for r m' s'
  proof (cases "isEnabled m")
    case True
    with sut_stop_dead [OF that assms] show ?thesis by (auto intro: sut_ok_dead)
  next
    case False
    with that assms show ?thesis by (simp add: sut_stop_def stop_locked_def)
  qed
  show "sut_ok m' s'" if "snapshot os m s = (st, m', s')" for st m' s'
  proof (cases "isRunningLocked os m s" rule: prod_cases3)
    case (fields running m1 s1)
    with that isRunning_spec [OF fields assms] show ?thesis by (simp add: snapshot_def)
  qed
  show "sut_ok m (wait_goroutine g c f s)"
    using assms by (rule sut_ok_same_live [OF wait_goroutine_live, THEN iffD2])
  show live: "live_pids (sys_log s) \<subseteq> set_option (sm_waitCh m) \<union> kill_failed (sys_log s)"
    using assms unfolding sut_ok_def unsettled_subset by blast
  assume "kill_failed (sys_log s) = {}"
  with live have "live_pids (sys_log s) \<subseteq> set_option (sm_waitCh m)" by simp
  then have "card (live_pids (sys_log s)) \<le> card (set_option (sm_waitCh m))" by (rule card_mono [rotated]) simp
  then show "card (live_pids (sys_log s)) \<le> 1" by (cases "sm_waitCh m") auto
qed

lemma sample_select [simp]: "blocking_select sample_os Background ch d s = (TimerFired, emit (Blocked d) s)"
  by (simp add: blocking_select_def)

lemma new_manager_simps [simp]:
  "isRunningLocked os (newSUTManager b) s = (False, newSUTManager b, s)"
  "sm_boot (newSUTManager b) = b" "sm_startedAt (newSUTManager b) = 0" "sm_restartCount (newSUTManager b) = 0"
  by (simp_all add: newSUTManager_def isRunningLocked_def process_of_def)

lemma sample_plan_simps [simp]: "bp_ProbeAddrs sample_plan = []" "isEnabled (newSUTManager (Some sample_plan))"
  by (simp_all add: sample_plan_def isEnabled_def)

lemma sample_started:
  "\<exists>c f. cmd_Process c = Some 100 \<and>
     ensureStarted Unix sample_os Background sample_input (newSUTManager (Some sample_plan)) empty_sys =
     Some (None, sut_started c 100 (400 * time_Millisecond + 1) (newSUTManager (Some sample_plan)),
       \<lparr>sys_log = [Blocked (400 * time_Millisecond), SpawnReturn (Inr 100), LogOpened f None], sys_jobs = []\<rparr>)"
proof -
  obtain c f where "launch Unix sample_os sample_plan sample_input empty_sys =
      (Inr c, \<lparr>sys_log = [SpawnReturn (Inr 100), LogOpened f None], sys_jobs = []\<rparr>)" "cmd_Process c = Some 100"
    using sample_launch by blast
  then show ?thesis
    by (intro exI [of _ c] exI [of _ f]) (simp add: ensureStarted_def waitSUTReady_def emit_def)
qed

theorem sut_single_instance_witness:
  "\<exists>m' s'. ensureStarted Unix sample_os Background sample_input (newSUTManager (Some sample_plan)) empty_sys = Some (None, m', s') \<and>
     sut_ok m' s' \<and> live_pids (sys_log s') = {100}"
proof -
  obtain c f where run: "ensureStarted Unix sample_os Background sample_input (newSUTManager (Some sample_plan)) empty_sys =
     Some (None, sut_started c 100 (400 * time_Millisecond + 1) (newSUTManager (Some sample_plan)),
       \<lparr>sys_log = [Blocked (400 * time_Millisecond), SpawnReturn (Inr 100), LogOpened f None], sys_jobs = []\<rparr>)"
    using sample_started by blast
  with sut_single_instance [OF sample_new(1), of Unix sample_os Background sample_input] show ?thesis by auto
qed



text \<open>
  C30. A failed start leaves nothing behind: a process that is still alive, that was neither seen to exit nor
  killed, is one whose kill was tried and failed; the manager holds none, the number of restarts and the time of the last start are
  unchanged, and the error's text is what \<open>snapshot\<close> reports.
\<close>

theorem ensureStarted_failure:
  assumes "sut_ok m s" and "ensureStarted g os ctx inp m s = Some (Some e, m', s')"
  shows "live_pids (sys_log s') \<subseteq> kill_failed (sys_log s') \<and> sm_cmd m' = None \<and> sm_waitCh m' = None \<and>
    sm_restartCount m' = sm_restartCount m \<and> sm_startedAt m' = sm_startedAt m \<and>
    fst (snapshot os m' s') = \<lparr>st_Ready = False, st_PID = 0, st_StartedAt = sm_startedAt m,
      st_RestartCount = sm_restartCount m, st_LastError = error_text e\<rparr>"
  using assms(2,1)
proof (cases rule: ensureStarted_cases)
  case (refused m1 e')
  obtain s1 where "isRunningLocked os m s = (False, m1, s1)"
    using refused(2,3) by (cases "isRunningLocked os m s" rule: prod_cases3) auto
  with isRunning_spec [OF this assms(1)] refused show ?thesis
    unfolding unsettled_empty [symmetric] by (auto simp: sut_failed_def snapshot_def isRunningLocked_def process_of_def)
qed simp_all

text \<open>A plan that cannot produce its command.\<close>

definition broken_plan :: "nat SUTBootPlan" where
  "broken_plan = sample_plan\<lparr>bp_GetCommand := (\<lambda>h inp. (None, Some (ErrorNew ''not built'')))\<rparr>"

theorem ensureStarted_failure_witness:
  "\<exists>m' s'. ensureStarted Unix sample_os Background sample_input (newSUTManager (Some broken_plan)) empty_sys =
       Some (Some (ErrorNew ''not built''), m', s') \<and>
     st_LastError (fst (snapshot sample_os m' s')) = ''not built''"
proof -
  have ok: "sut_ok (newSUTManager (Some broken_plan)) empty_sys"
    by (simp add: sut_ok_def newSUTManager_def process_of_def empty_sys_def)
  obtain m' s' where run: "ensureStarted Unix sample_os Background sample_input (newSUTManager (Some broken_plan)) empty_sys =
       Some (Some (ErrorNew ''not built''), m', s')"
    by (simp add: ensureStarted_def launch_def broken_plan_def isEnabled_def sample_plan_def)
  from ensureStarted_failure [OF ok run] run show ?thesis by auto
qed



end
