(* ===== verification/Daemon.thy ===== *)
theory Daemon
  imports Lease_Store Bundle_Lifecycle Sut_Manager
begin

text \<open>
  The daemon (\<^verbatim>\<open>daemon/server.go\<close>, \<^verbatim>\<open>daemon/lifecycle.go\<close>): its configuration, the HTTP handlers
  behind the token check, the tick of the reaper and the shutdown. Each handler and each tick is
  one function on the whole state. Clock readings and random bytes are arguments.
\<close>

section \<open>State\<close>

record 'c daemon_Config =
  dc_Addr :: string
  dc_Token :: string
  dc_Project :: string
  dc_RuntimePath :: string
  dc_IdleTTL :: duration
  dc_SUT :: "'c SUTBootPlan option"

text \<open>
  \<open>dm_done\<close> says that the channel \<^verbatim>\<open>done\<close> is closed, which is also when the shutdown has begun;
  \<open>dm_serving\<close> is \<^verbatim>\<open>httpServer != nil\<close>. \<open>dm_sys\<close> is the outside world.
\<close>

record 'c Daemon =
  dm_cfg :: "'c daemon_Config"
  dm_regs :: "'c ContainerRegistration list"
  dm_bundle :: "'c Bundle"
  dm_store :: leaseStore
  dm_startedAt :: go_time
  dm_runtimePath :: string
  dm_sut :: "'c sutManager"
  dm_infraStarted :: bool
  dm_done :: bool
  dm_serving :: bool
  dm_acquireInFlight :: int
  dm_sys :: "'c sys"

definition with_defaults :: "string \<Rightarrow> int \<Rightarrow> 'c daemon_Config \<Rightarrow> 'c daemon_Config" where
  "with_defaults tmp nano cfg =
     (let c1 = (if dc_Addr cfg = [] then cfg\<lparr>dc_Addr := ''127.0.0.1:0''\<rparr> else cfg);
          c2 = (if dc_Token c1 = [] then c1\<lparr>dc_Token := decimal nano\<rparr> else c1);
          c3 = (if dc_IdleTTL c2 \<le> 0 then c2\<lparr>dc_IdleTTL := 15 * time_Second\<rparr> else c2);
          c4 = (if dc_RuntimePath c3 = [] then c3\<lparr>dc_RuntimePath := DefaultRuntimePath tmp ''default''\<rparr> else c3)
      in if strings_TrimSpace (dc_Project c4) = [] then c4\<lparr>dc_Project := ''default''\<rparr> else c4)"

definition daemon_New ::
  "string \<Rightarrow> int \<Rightarrow> go_time \<Rightarrow> 'c daemon_Config \<Rightarrow> 'c ContainerRegistration list \<Rightarrow> 'c sys \<Rightarrow> go_error + 'c Daemon" where
  "daemon_New tmp nano now cfg0 regs s =
     (let cfg = with_defaults tmp nano cfg0 in
      case NewBundle regs of
        Inl e \<Rightarrow> Inl e
      | Inr b \<Rightarrow> Inr \<lparr>dm_cfg = cfg, dm_regs = regs, dm_bundle = b, dm_store = newLeaseStore, dm_startedAt = now,
                      dm_runtimePath = dc_RuntimePath cfg, dm_sut = newSUTManager (dc_SUT cfg),
                      dm_infraStarted = False, dm_done = False, dm_serving = False,
                      dm_acquireInFlight = 0, dm_sys = s\<rparr>)"

section \<open>Lifecycle of the two resources\<close>

text \<open>
  \<open>sched\<close> is the schedule of the start pool; the request's context is already cancelled when it
  reports an error for the history at hand.
\<close>

definition ensureInfraStarted ::
  "'c terminator \<Rightarrow> pool_actor list \<Rightarrow> 'c ctx \<Rightarrow> 'c Daemon \<Rightarrow> (go_error option \<times> 'c Daemon) option" where
  "ensureInfraStarted trm sched ctx d =
     (if dm_infraStarted d then Some (None, d)
      else let h = sys_log (dm_sys d) in
        case StartAll trm sched (ctx h \<noteq> None) (dm_bundle d) h of
          None \<Rightarrow> None
        | Some (err, b, h') \<Rightarrow>
            (let d1 = d\<lparr>dm_bundle := b, dm_sys := (dm_sys d)\<lparr>sys_log := h'\<rparr>\<rparr> in
             case err of
               Some e \<Rightarrow> Some (Some e, d1)
             | None \<Rightarrow> Some (None, d1\<lparr>dm_infraStarted := True\<rparr>)))"

definition stopContainersOnly :: "'c terminator \<Rightarrow> 'c Daemon \<Rightarrow> go_error option \<times> 'c Daemon" where
  "stopContainersOnly trm d =
     (if \<not> dm_infraStarted d then (None, d)
      else case StopAll trm (dm_bundle d) (sys_log (dm_sys d)) of
             (err, b, h') \<Rightarrow>
               (let d1 = d\<lparr>dm_bundle := b, dm_sys := (dm_sys d)\<lparr>sys_log := h'\<rparr>\<rparr> in
                case err of
                  Some e \<Rightarrow> (Some e, d1)
                | None \<Rightarrow> (None, d1\<lparr>dm_infraStarted := False\<rparr>)))"

definition ensureSUTStarted ::
  "goos \<Rightarrow> 'c os_env \<Rightarrow> 'c ctx \<Rightarrow> 'c Daemon \<Rightarrow> (go_error option \<times> 'c Daemon) option" where
  "ensureSUTStarted g os ctx d =
     (case ensureStarted g os ctx \<lparr>in_Project = dc_Project (dm_cfg d), in_RuntimePath = dc_RuntimePath (dm_cfg d)\<rparr>
             (dm_sut d) (dm_sys d) of
        None \<Rightarrow> None
      | Some (err, m, s) \<Rightarrow> Some (err, d\<lparr>dm_sut := m, dm_sys := s\<rparr>))"

definition stopSUTOnly :: "goos \<Rightarrow> 'c os_env \<Rightarrow> 'c ctx \<Rightarrow> 'c Daemon \<Rightarrow> go_error option \<times> 'c Daemon" where
  "stopSUTOnly g os ctx d =
     (case sut_stop g os ctx (dm_sut d) (dm_sys d) of (err, m, s) \<Rightarrow> (err, d\<lparr>dm_sut := m, dm_sys := s\<rparr>))"

section \<open>Requests and responses\<close>

text \<open>
  A request as the handlers see it: its method, the value of the token header (empty when absent),
  and what the JSON decoder makes of its body.
\<close>

record 'b request =
  rq_Method :: string
  rq_Token :: string
  rq_Body :: "go_error + 'b"

datatype payload =
    ErrorBody ErrorResp
  | AcquireBody AcquireResp
  | OKBody OKResp
  | StateBody StateResp
  | PageNotFound

record response =
  rs_Status :: int
  rs_Body :: payload

definition MethodGet :: string where "MethodGet = ''GET''"
definition MethodPost :: string where "MethodPost = ''POST''"

definition writeJSON :: "int \<Rightarrow> payload \<Rightarrow> response" where
  "writeJSON status v = \<lparr>rs_Status = status, rs_Body = v\<rparr>"

definition writeError :: "int \<Rightarrow> err_code \<Rightarrow> string \<Rightarrow> response" where
  "writeError status code message =
     writeJSON status (ErrorBody \<lparr>err_Code = err_code_text code, err_Message = message\<rparr>)"

definition withAuth ::
  "('b request \<Rightarrow> 'c Daemon \<Rightarrow> (response \<times> 'c Daemon) option) \<Rightarrow> 'b request \<Rightarrow> 'c Daemon \<Rightarrow> (response \<times> 'c Daemon) option" where
  "withAuth next rq d =
     (let token = strings_TrimSpace (rq_Token rq) in
      if token = [] \<or> token \<noteq> dc_Token (dm_cfg d)
      then Some (writeError 401 ErrCodeUnauthorized ''unauthorized'', d)
      else next rq d)"

section \<open>The handlers\<close>

text \<open>The handler of \<^verbatim>\<open>/v1/acquire\<close> between its increment of the counter and the deferred decrement.\<close>

definition acquire_body ::
  "goos \<Rightarrow> 'c os_env \<Rightarrow> 'c terminator \<Rightarrow> pool_actor list \<Rightarrow> 'c ctx \<Rightarrow> byte list \<Rightarrow> go_time \<Rightarrow> go_time \<Rightarrow>
   AcquireReq request \<Rightarrow> 'c Daemon \<Rightarrow> (response \<times> 'c Daemon) option" where
  "acquire_body g os trm sched ctx rd now answered rq d =
     (case rq_Body rq of
        Inl e \<Rightarrow> Some (writeError 400 ErrCodeBadRequest (error_text e), d)
      | Inr req \<Rightarrow>
          (case ensureInfraStarted trm sched ctx d of
             None \<Rightarrow> None
           | Some (Some e, d1) \<Rightarrow> Some (writeError 500 ErrCodeInternal (error_text e), d1)
           | Some (None, d1) \<Rightarrow>
               (case ensureSUTStarted g os ctx d1 of
                  None \<Rightarrow> None
                | Some (Some e, d2) \<Rightarrow> Some (writeError 500 ErrCodeInternal (error_text e), d2)
                | Some (None, d2) \<Rightarrow>
                    (let (l, store) = acquire rd now (acq_PID req) LeaseTTL (dm_store d2)
                     in Some (writeJSON 200 (AcquireBody \<lparr>resp_LeaseID = lease_ID l, resp_AcquiredAt = answered\<rparr>),
                              d2\<lparr>dm_store := store\<rparr>)))))"

definition handleAcquire ::
  "goos \<Rightarrow> 'c os_env \<Rightarrow> 'c terminator \<Rightarrow> pool_actor list \<Rightarrow> 'c ctx \<Rightarrow> byte list \<Rightarrow> go_time \<Rightarrow> go_time \<Rightarrow>
   AcquireReq request \<Rightarrow> 'c Daemon \<Rightarrow> (response \<times> 'c Daemon) option" where
  "handleAcquire g os trm sched ctx rd now answered rq d =
     (if rq_Method rq \<noteq> MethodPost then Some (writeError 405 ErrCodeBadRequest ''invalid method'', d)
      else case acquire_body g os trm sched ctx rd now answered rq (d\<lparr>dm_acquireInFlight := dm_acquireInFlight d + 1\<rparr>) of
             None \<Rightarrow> None
           | Some (resp, d') \<Rightarrow> Some (resp, d'\<lparr>dm_acquireInFlight := dm_acquireInFlight d' - 1\<rparr>))"

definition handleHeartbeat :: "go_time \<Rightarrow> HeartbeatReq request \<Rightarrow> 'c Daemon \<Rightarrow> (response \<times> 'c Daemon) option" where
  "handleHeartbeat now rq d =
     (if rq_Method rq \<noteq> MethodPost then Some (writeError 405 ErrCodeBadRequest ''invalid method'', d)
      else case rq_Body rq of
             Inl e \<Rightarrow> Some (writeError 400 ErrCodeBadRequest (error_text e), d)
           | Inr req \<Rightarrow>
               (case heartbeat now (hb_LeaseID req) LeaseTTL (dm_store d) of
                  (False, store) \<Rightarrow> Some (writeError 404 ErrCodeNotFound ''lease not found'', d\<lparr>dm_store := store\<rparr>)
                | (True, store) \<Rightarrow> Some (writeJSON 200 (OKBody \<lparr>resp_OK = True\<rparr>), d\<lparr>dm_store := store\<rparr>)))"

definition handleRelease :: "ReleaseReq request \<Rightarrow> 'c Daemon \<Rightarrow> (response \<times> 'c Daemon) option" where
  "handleRelease rq d =
     (if rq_Method rq \<noteq> MethodPost then Some (writeError 405 ErrCodeBadRequest ''invalid method'', d)
      else case rq_Body rq of
             Inl e \<Rightarrow> Some (writeError 400 ErrCodeBadRequest (error_text e), d)
           | Inr req \<Rightarrow>
               (case release (rel_LeaseID req) (dm_store d) of
                  (False, store) \<Rightarrow> Some (writeError 404 ErrCodeNotFound ''lease not found'', d\<lparr>dm_store := store\<rparr>)
                | (True, store) \<Rightarrow> Some (writeJSON 200 (OKBody \<lparr>resp_OK = True\<rparr>), d\<lparr>dm_store := store\<rparr>)))"

text \<open>
  The seconds of the idle time are truncated, which \<^verbatim>\<open>Duration.Seconds\<close> computes in floating point;
  both agree for idle times of less than \<open>2 ^ 23\<close> seconds.
\<close>

definition handleState :: "'c os_env \<Rightarrow> go_time \<Rightarrow> unit request \<Rightarrow> 'c Daemon \<Rightarrow> (response \<times> 'c Daemon) option" where
  "handleState os now rq d =
     (if rq_Method rq \<noteq> MethodGet then Some (writeError 405 ErrCodeBadRequest ''invalid method'', d)
      else let active = activeCount now (dm_store d);
               (st, m, s) = snapshot os (dm_sut d) (dm_sys d)
           in Some (writeJSON 200 (StateBody
                \<lparr>InfraReady = Started (dm_bundle d), ActiveLeases = active,
                 Containers = bundle_Containers (dm_bundle d), StartedAt = dm_startedAt d,
                 IdleTTLSecond = dc_IdleTTL (dm_cfg d) div time_Second,
                 AppReady = st_Ready st, AppPID = st_PID st, AppStartedAt = st_StartedAt st,
                 AppRestarts = st_RestartCount st, AppLastError = st_LastError st\<rparr>),
              d\<lparr>dm_sut := m, dm_sys := s\<rparr>))"

section \<open>Shutdown and the reaper\<close>

definition shutdownServer :: "goos \<Rightarrow> 'c os_env \<Rightarrow> 'c terminator \<Rightarrow> 'c ctx \<Rightarrow> 'c Daemon \<Rightarrow> 'c Daemon" where
  "shutdownServer g os trm ctx d =
     (if dm_done d then d
      else let d1 = d\<lparr>dm_done := True\<rparr>;
               d2 = snd (stopSUTOnly g os ctx d1);
               d3 = snd (stopContainersOnly trm d2);
               s3 = (if dm_serving d3 then emit ServerShutdown (dm_sys d3) else dm_sys d3)
           in d3\<lparr>dm_sys := emit (RuntimeRemoved (dm_runtimePath d3)) s3\<rparr>)"

record reaper =
  rp_idleSince :: go_time
  rp_sutIdleSince :: go_time

definition reaper_reset :: reaper where
  "reaper_reset = \<lparr>rp_idleSince = 0, rp_sutIdleSince = 0\<rparr>"

text \<open>
  One tick of the loop at time \<open>now\<close>; the first component says whether the loop goes on. The loop
  ends also when the channel \<^verbatim>\<open>done\<close> is closed.
\<close>

definition reaper_tick ::
  "goos \<Rightarrow> 'c os_env \<Rightarrow> 'c terminator \<Rightarrow> go_time \<Rightarrow> reaper \<Rightarrow> 'c Daemon \<Rightarrow> bool \<times> reaper \<times> 'c Daemon" where
  "reaper_tick g os trm now r d =
     (let d1 = d\<lparr>dm_store := gc now (dm_store d)\<rparr>;
          active = activeCount now (dm_store d1)
      in if active > 0 then (True, reaper_reset, d1)
         else if dm_acquireInFlight d1 > 0 then (True, reaper_reset, d1)
         else let (r1, d2) =
               (if time_IsZero (rp_sutIdleSince r) then (r\<lparr>rp_sutIdleSince := now\<rparr>, d1)
                else if idleTTL (dm_sut d1) \<le> time_Sub now (rp_sutIdleSince r)
                then (r, snd (stopSUTOnly g os Background d1))
                else (r, d1))
           in if time_IsZero (rp_idleSince r1) then (True, r1\<lparr>rp_idleSince := now\<rparr>, d2)
              else if dc_IdleTTL (dm_cfg d2) \<le> time_Sub now (rp_idleSince r1)
              then (False, r1, shutdownServer g os trm Background d2)
              else (True, r1, d2))"

section \<open>Serving\<close>

text \<open>
  What the connection delivers, and the JSON codec of \<^verbatim>\<open>encoding/json\<close> for the request bodies, a
  parameter. \<open>serve\<close> is the multiplexer that \<^verbatim>\<open>Start\<close> sets up, for a path without empty or dotted
  elements; a path that is not registered gets the standard library's answer.
\<close>

record wire_request =
  wr_Method :: string
  wr_Path :: string
  wr_Token :: string
  wr_Body :: string

record json_codec =
  enc_AcquireReq :: "AcquireReq \<Rightarrow> string"
  enc_HeartbeatReq :: "HeartbeatReq \<Rightarrow> string"
  enc_ReleaseReq :: "ReleaseReq \<Rightarrow> string"
  dec_AcquireReq :: "string \<Rightarrow> go_error + AcquireReq"
  dec_HeartbeatReq :: "string \<Rightarrow> go_error + HeartbeatReq"
  dec_ReleaseReq :: "string \<Rightarrow> go_error + ReleaseReq"

record 'c world =
  w_goos :: goos
  w_os :: "'c os_env"
  w_trm :: "'c terminator"
  w_codec :: json_codec

definition decoded :: "(string \<Rightarrow> go_error + 'b) \<Rightarrow> wire_request \<Rightarrow> 'b request" where
  "decoded dec wr = \<lparr>rq_Method = wr_Method wr, rq_Token = wr_Token wr, rq_Body = dec (wr_Body wr)\<rparr>"

definition serve ::
  "'c world \<Rightarrow> pool_actor list \<Rightarrow> 'c ctx \<Rightarrow> byte list \<Rightarrow> go_time \<Rightarrow> go_time \<Rightarrow> wire_request \<Rightarrow> 'c Daemon \<Rightarrow>
   (response \<times> 'c Daemon) option" where
  "serve w sched ctx rd now answered wr d =
     (if wr_Path wr = PathAcquire then
        withAuth (handleAcquire (w_goos w) (w_os w) (w_trm w) sched ctx rd now answered)
          (decoded (dec_AcquireReq (w_codec w)) wr) d
      else if wr_Path wr = PathHeartbeat then
        withAuth (handleHeartbeat now) (decoded (dec_HeartbeatReq (w_codec w)) wr) d
      else if wr_Path wr = PathRelease then
        withAuth handleRelease (decoded (dec_ReleaseReq (w_codec w)) wr) d
      else if wr_Path wr = PathState then
        withAuth (handleState (w_os w) now) (decoded (\<lambda>b. Inr ()) wr) d
      else Some (\<lparr>rs_Status = 404, rs_Body = PageNotFound\<rparr>, d))"

end
