(* ===== verification/History.thy ===== *)
theory History
  imports Bundle_Lifecycle Sut_Manager "HOL-Library.Sublist"
begin

text \<open>
  What the operations on containers and on the service do to the history of the outside world: it
  only grows, and stopping the service terminates no container.
\<close>

section \<open>The history only grows\<close>

definition grows :: "'c sys \<Rightarrow> 'c sys \<Rightarrow> bool" where
  "grows s s' \<longleftrightarrow> suffix (sys_log s) (sys_log s')"

lemma grows_refl [simp]: "grows s s"
  by (simp add: grows_def)

lemma grows_trans [trans]: "grows s t \<Longrightarrow> grows t u \<Longrightarrow> grows s u"
  unfolding grows_def by (rule suffix_order.trans)

lemma grows_emit [simp]: "grows s (emit ev s)"
  by (simp add: grows_def suffix_ConsI)

lemma grows_emit_trans: "grows s t \<Longrightarrow> grows s (emit ev t)"
  by (rule grows_trans [OF _ grows_emit])

lemma grows_jobs [simp]: "grows s (t\<lparr>sys_jobs := j\<rparr>) = grows s t" "grows (s\<lparr>sys_jobs := j\<rparr>) t = grows s t"
  by (simp_all add: grows_def)

lemma grows_new: "\<exists>new. sys_log t = new @ sys_log s \<Longrightarrow> grows s t"
  by (auto simp: grows_def suffix_def)

text \<open>The same with a condition on the new events.\<close>

definition extends :: "('c event \<Rightarrow> bool) \<Rightarrow> 'c sys \<Rightarrow> 'c sys \<Rightarrow> bool" where
  "extends P s s' \<longleftrightarrow> (\<exists>new. sys_log s' = new @ sys_log s \<and> (\<forall>e\<in>set new. P e))"

lemma extends_refl [simp]: "extends P s s"
  by (simp add: extends_def)

lemma extends_trans [trans]: "extends P s t \<Longrightarrow> extends P t u \<Longrightarrow> extends P s u"
  by (fastforce simp: extends_def)

lemma extends_emit: "extends P s t \<Longrightarrow> P e \<Longrightarrow> extends P s (emit e t)"
  by (force simp: extends_def)

lemma extends_mono: "extends P s t \<Longrightarrow> (\<And>e. P e \<Longrightarrow> Q e) \<Longrightarrow> extends Q s t"
  by (auto simp: extends_def)

lemma extends_grows: "extends P s t \<Longrightarrow> grows s t"
  by (auto simp: extends_def intro: grows_new)

lemma isRunning_grows: "isRunningLocked os m s = (r, m1, s1) \<Longrightarrow> grows s s1"
  by (auto simp: isRunningLocked_def split: option.splits)

lemma afterSUTStart_grows: "afterSUTStart g os cmd s = (r, s') \<Longrightarrow> grows s s'"
  by (cases g)
    (auto simp: afterSUTStart_def unix_afterSUTStart_def win_afterSUTStart_def Let_def
      intro!: grows_emit_trans split: option.splits sum.splits)

lemma start_process_grows: "start_process g os c f s = (r, s') \<Longrightarrow> grows s s'"
  using grows_new [OF terminateProcess_extends [of g os]]
  by (auto simp: start_process_def Let_def intro!: grows_emit_trans split: sum.splits prod.splits option.splits
      dest!: afterSUTStart_grows) (metis grows_emit grows_trans)+

lemma launch_grows: "launch g os boot inp s = (r, s') \<Longrightarrow> grows s s'"
  by (auto simp: launch_def OpenAppLogFile_def openLogFile_def Let_def split: prod.splits option.splits sum.splits
      dest!: start_process_grows) (metis grows_emit grows_trans)+

lemma forceStop_grows: "grows s (forceStopLocked g os cmd ch s)"
  using grows_new [OF terminateProcess_extends] by (auto simp: forceStopLocked_def split: option.split)

lemma waitSUTReady_grows: "waitSUTReady os ctx ch addrs t s = Some (r, s') \<Longrightarrow> grows s s'"
  by (erule waitSUTReady_verdict') (auto intro: grows_new)

lemma ensureStarted_grows:
  assumes "ensureStarted g os ctx inp m s = Some (r, m', s')"
  shows "grows s s'"
proof (cases "isEnabled m")
  case False
  with assms show ?thesis by (simp add: ensureStarted_def)
next
  case True
  obtain running m1 s1 where run: "isRunningLocked os m s = (running, m1, s1)" by (rule prod_cases3)
  note g1 = isRunning_grows [OF run]
  show ?thesis
  proof (cases "running \<or> sm_boot m1 = None")
    case True
    with assms \<open>isEnabled m\<close> run g1 show ?thesis by (auto simp: ensureStarted_def Let_def split: if_splits)
  next
    case False
    then obtain boot where boot: "sm_boot m1 = Some boot" and "\<not> running" by blast
    obtain x s2 where l: "launch g os boot inp s1 = (x, s2)" by fastforce
    have g2: "grows s s2" using g1 launch_grows [OF l] by (rule grows_trans)
    show ?thesis
    proof (cases x)
      case (Inl e)
      with assms \<open>isEnabled m\<close> run boot \<open>\<not> running\<close> l g2 show ?thesis
        by (simp add: ensureStarted_def Let_def)
    next
      case (Inr c)
      let ?ch = "the (cmd_Process c)"
      from assms \<open>isEnabled m\<close> run boot \<open>\<not> running\<close> l Inr obtain y s3 where
        w: "waitSUTReady os ctx ?ch (bp_ProbeAddrs boot) (readyTimeout m1) s2 = Some (y, s3)"
        by (auto simp: ensureStarted_def Let_def split: option.splits)
      have g3: "grows s s3" using g2 waitSUTReady_grows [OF w] by (rule grows_trans)
      from assms \<open>isEnabled m\<close> run boot \<open>\<not> running\<close> l Inr w have
        "s' = s3 \<or> s' = forceStopLocked g os (Some c) (Some ?ch) s3"
        by (auto simp: ensureStarted_def Let_def split: option.splits)
      with g3 show ?thesis using grows_trans [OF g3 forceStop_grows] by blast
    qed
  qed
qed

lemma stop_waiting_grows: "stop_waiting g os ctx grace c ch s = (r, s') \<Longrightarrow> grows s s'"
proof -
  assume stop: "stop_waiting g os ctx grace c ch s = (r, s')"
  let ?s1 = "case cmd_Process c of None \<Rightarrow> s | Some pid \<Rightarrow> emit (SignalInterrupt pid) s"
  obtain w s2 where w: "blocking_select os ctx ch grace ?s1 = (w, s2)" by fastforce
  have "grows s ?s1" by (simp split: option.split)
  moreover have "grows ?s1 s2" using blocking_select_live(4) [OF w] by (auto intro: grows_new)
  ultimately have "grows s s2" by (rule grows_trans)
  moreover have "s' = s2 \<or> s' = terminateProcess g os (Some c) (Some ch) (5 * time_Second) s2"
    using stop w by (auto simp: stop_waiting_def split: wake.splits)
  ultimately show ?thesis using grows_trans [OF _ grows_new [OF terminateProcess_extends]] by blast
qed

lemma sut_stop_grows: "sut_stop g os ctx m s = (r, m', s') \<Longrightarrow> grows s s'"
proof -
  assume stop: "sut_stop g os ctx m s = (r, m', s')"
  obtain x m1 s1 where x: "stop_locked os m s = (x, m1, s1)" by (rule prod_cases3)
  then have "grows s s1" by (auto simp: stop_locked_def Let_def split: if_splits prod.splits dest: isRunning_grows)
  moreover have "grows s1 s'"
    using stop x by (auto simp: sut_stop_def split: option.splits prod.splits dest: stop_waiting_grows)
  ultimately show ?thesis by (rule grows_trans)
qed

section \<open>The bundle\<close>

text \<open>
  The events a bundle causes. A preorder on histories that holds across each of them holds across the
  start and the stop of the bundle; the two instances say that the history grows, and that no
  process of the service is touched.
\<close>

definition bundle_event :: "'c event \<Rightarrow> bool" where
  "bundle_event e \<longleftrightarrow>
     (case e of StartCall n \<Rightarrow> True | StartReturn n c r \<Rightarrow> True | ContextCancelled \<Rightarrow> True | InitReturn n r \<Rightarrow> True
      | TerminateReturn c r \<Rightarrow> True | _ \<Rightarrow> False)"

lemma bundle_event_simps [simp]:
  "bundle_event (StartCall n)" "bundle_event (StartReturn n c r)" "bundle_event ContextCancelled"
  "bundle_event (InitReturn n r)" "bundle_event (TerminateReturn x r)"
  by (simp_all add: bundle_event_def)

locale history_relation =
  fixes related :: "'c history \<Rightarrow> 'c history \<Rightarrow> bool"
  assumes refl: "related h h"
    and trans: "related h h' \<Longrightarrow> related h' h'' \<Longrightarrow> related h h''"
    and event: "bundle_event e \<Longrightarrow> related h (e # h)"
begin

lemma one_more: "bundle_event e \<Longrightarrow> related (e # h) h' \<Longrightarrow> related h h'"
  using event trans by blast

lemma pool_step:
  assumes "pool_step a p = Some q"
  shows "related (pool_hist p) (pool_hist q)"
  using assms
proof (cases rule: other_step_cases)
  case (worker i)
  from worker(2) show ?thesis by (cases rule: worker_step_cases) (simp_all add: pool_hist_def refl event)
qed (simp_all add: pool_hist_def refl event)

lemma pool_run: "run_steps pool_step sched p = Some q \<Longrightarrow> related (pool_hist p) (pool_hist q)"
  by (induction sched arbitrary: p) (auto intro: refl trans [OF pool_step] split: option.splits)

lemma terminate_all: "related h (snd (terminate_all trm cs e h))"
  by (induction trm cs e h rule: terminate_all.induct)
    (auto simp: Let_def intro: refl one_more [OF bundle_event_simps(5)])

lemma run_inits: "related h (snd (run_inits rs h))"
  by (induction rs h rule: run_inits.induct)
    (auto intro: refl event one_more [OF bundle_event_simps(4)] split: option.split)

lemma startAll:
  assumes "startAllContainers trm sched regs dn h = Some (r, h')"
  shows "related h h'"
proof (cases "regs = []")
  case True
  with assms show ?thesis by (simp add: startAllContainers_def refl)
next
  case False
  with assms obtain p where p: "run_steps pool_step sched (pool_init regs dn h) = Some p"
    by (auto simp: startAllContainers_def split: option.splits)
  have "pool_hist (pool_init regs dn h) = h" by (simp add: pool_hist_def pool_init_def)
  with pool_run [OF p] have "related h (pool_hist p)" by simp
  moreover have "h' = pool_hist p \<or> h' = snd (terminateCreatedContainers trm regs (pl_byName p) (pool_hist p))"
    using assms False p by (auto simp: startAllContainers_def split: if_splits option.splits prod.splits)
  ultimately show ?thesis
    using terminate_all trans by (auto simp: terminateCreatedContainers_def)
qed

lemma StartAll:
  assumes "StartAll trm sched dn b h = Some (r, b', h')"
  shows "related h h'"
proof (cases "bd_started b")
  case True
  with assms show ?thesis by (simp add: StartAll_def refl)
next
  case False
  obtain s h1 where s: "startAllContainers trm sched (bd_regs b) dn h = Some (s, h1)"
    using assms False by (auto simp: StartAll_def split: option.splits)
  note start = startAll [OF s]
  show ?thesis
  proof (cases s)
    case (Inl e)
    with assms False s start show ?thesis by (simp add: StartAll_def)
  next
    case (Inr m)
    obtain n b1 where a: "adopt (bd_regs b) m b = (n, b1)" by fastforce
    obtain i h2 where i: "run_inits (bd_regs b) h1 = (i, h2)" by fastforce
    have "related h1 (snd (terminateCreatedContainers trm (bd_regs b) m h1))"
      "related h2 (snd (stopAllContainers trm b1 h2))"
      by (simp_all add: terminateCreatedContainers_def stopAllContainers_def terminate_all)
    moreover have "related h1 h2" using run_inits [of h1 "bd_regs b"] i by simp
    moreover have "h' = snd (terminateCreatedContainers trm (bd_regs b) m h1) \<or>
        h' = snd (stopAllContainers trm b1 h2) \<or> h' = h2"
      using assms False s Inr a i by (auto simp: StartAll_def rollback_def split: option.splits prod.splits)
    ultimately show ?thesis using start trans by blast
  qed
qed

lemma StopAll: "related h (snd (snd (StopAll trm b h)))"
proof (cases "stopAllContainers trm b h")
  case (Pair err h')
  then have "related h h'"
    using terminate_all [of h trm "rev (bd_cleanup b)" None] by (simp add: stopAllContainers_def)
  with Pair show ?thesis by (cases err) (simp_all add: StopAll_def)
qed

end

interpretation growing: history_relation suffix
  by unfold_locales (auto intro: suffix_order.trans suffix_ConsI)

interpretation same_processes: history_relation "\<lambda>h h'. unsettled_pids h' = unsettled_pids h"
proof (unfold_locales, goal_cases)
  case (3 e h)
  then show ?case by (cases e) (simp_all add: bundle_event_def)
qed simp_all

section \<open>Stopping the service touches no container\<close>

lemma select_terminated: "terminated (sys_log (snd (blocking_select os ctx ch d s))) = terminated (sys_log s)"
  by (auto simp: blocking_select_def Let_def split: choice.split option.split)

lemma kill_terminated: "terminated (sys_log (snd (kill_process os pid s))) = terminated (sys_log s)"
  by (simp add: kill_process_def Let_def)

lemma terminateSUT_terminated: "terminated (sys_log (snd (terminateSUTProcess g os cmd s))) = terminated (sys_log s)"
  by (cases g)
    (simp_all add: terminateSUTProcess_def unix_terminateSUTProcess_def win_terminateSUTProcess_def Let_def
      kill_terminated split: option.split sum.split)

lemma terminateProcess_terminated: "terminated (sys_log (terminateProcess g os cmd ch t s)) = terminated (sys_log s)"
  by (simp add: terminateProcess_def Let_def select_terminated terminateSUT_terminated split: option.split)

lemma isRunning_terminated: "terminated (sys_log (snd (snd (isRunningLocked os m s)))) = terminated (sys_log s)"
  by (simp add: isRunningLocked_def split: option.split)

lemma stop_waiting_terminated: "terminated (sys_log (snd (stop_waiting g os ctx grace c ch s))) = terminated (sys_log s)"
proof -
  let ?s1 = "case cmd_Process c of None \<Rightarrow> s | Some pid \<Rightarrow> emit (SignalInterrupt pid) s"
  obtain w s2 where w: "blocking_select os ctx ch grace ?s1 = (w, s2)" by fastforce
  have "terminated (sys_log s2) = terminated (sys_log ?s1)"
    using select_terminated [of os ctx ch grace ?s1] w by simp
  then have "terminated (sys_log s2) = terminated (sys_log s)" by (simp split: option.splits)
  then show ?thesis
    by (simp add: stop_waiting_def w Let_def terminateProcess_terminated split: wake.split)
qed

lemma sut_stop_terminated: "terminated (sys_log (snd (snd (sut_stop g os ctx m s)))) = terminated (sys_log s)"
proof -
  obtain x m1 s1 where x: "stop_locked os m s = (x, m1, s1)" by (rule prod_cases3)
  then have "terminated (sys_log s1) = terminated (sys_log s)"
    using isRunning_terminated [of os m s]
    by (auto simp: stop_locked_def Let_def split: if_splits prod.splits)
  then show ?thesis
    using stop_waiting_terminated [of g os ctx "gracePeriod m1" _ _ s1]
    by (simp add: sut_stop_def x split: option.split prod.split) (metis snd_conv)
qed

end
