(* ===== verification/Daemon_Lifecycle.thy ===== *)
theory Daemon_Lifecycle
  imports Daemon History
begin

text \<open>
  What the daemon guarantees when its handlers and ticks run one at a time: the invariant that ties
  its two resources to their flags, what a granted and a refused lease mean, the token check, the
  shutdown, and when the reaper stops something and when it must.
\<close>

section \<open>The invariant\<close>

definition daemon_ok :: "'c Daemon \<Rightarrow> bool" where
  "daemon_ok d \<longleftrightarrow>
     bundle_ok (dm_bundle d) \<and> sut_ok (dm_sut d) (dm_sys d) \<and> store_ok (dm_store d) \<and>
     (dm_infraStarted d \<longleftrightarrow> bd_started (dm_bundle d)) \<and> 0 \<le> dm_acquireInFlight d"

text \<open>The fields an operation leaves alone.\<close>

definition same_frame :: "'c Daemon \<Rightarrow> 'c Daemon \<Rightarrow> bool" where
  "same_frame d d' \<longleftrightarrow>
     dm_cfg d' = dm_cfg d \<and> dm_startedAt d' = dm_startedAt d \<and> dm_runtimePath d' = dm_runtimePath d \<and>
     dm_done d' = dm_done d \<and> dm_serving d' = dm_serving d \<and> dm_acquireInFlight d' = dm_acquireInFlight d \<and>
     sm_boot (dm_sut d') = sm_boot (dm_sut d)"

lemma same_frame_refl [simp]: "same_frame d d"
  by (simp add: same_frame_def)

lemma same_frame_trans: "same_frame d e \<Longrightarrow> same_frame e f \<Longrightarrow> same_frame d f"
  by (simp add: same_frame_def)

lemma ensureInfra_spec:
  assumes "ensureInfraStarted trm sched ctx d = Some (r, d')" "daemon_ok d"
  shows "same_frame d d' \<and> dm_store d' = dm_store d \<and> dm_sut d' = dm_sut d \<and> sut_ok (dm_sut d') (dm_sys d') \<and>
    (r = None \<longrightarrow> daemon_ok d' \<and> dm_infraStarted d') \<and> (r \<noteq> None \<longrightarrow> \<not> dm_infraStarted d') \<and>
    (dm_infraStarted d \<longrightarrow> d' = d) \<and>
    (\<exists>new. sys_log (dm_sys d') = new @ sys_log (dm_sys d) \<and>
       (ctx (sys_log (dm_sys d)) = None \<and> ContextCancelled \<notin> set new \<longrightarrow> daemon_ok d'))"
proof (cases "dm_infraStarted d")
  case True
  with assms(1) have "r = None" "d' = d" by (simp_all add: ensureInfraStarted_def)
  with assms(2) True show ?thesis by (simp add: daemon_ok_def)
next
  case False
  let ?h = "sys_log (dm_sys d)"
  from assms(1) False obtain b' h' where st: "StartAll trm sched (ctx ?h \<noteq> None) (dm_bundle d) ?h = Some (r, b', h')"
    and d': "d' = d\<lparr>dm_bundle := b', dm_sys := (dm_sys d)\<lparr>sys_log := h'\<rparr>, dm_infraStarted := (r = None)\<rparr>"
    by (auto simp: ensureInfraStarted_def Let_def split: option.splits)
  have ok: "bundle_ok (dm_bundle d)" "\<not> bd_started (dm_bundle d)"
    using assms(2) False by (simp_all add: daemon_ok_def)
  have sut: "sut_ok (dm_sut d) ((dm_sys d)\<lparr>sys_log := h'\<rparr>)"
    using assms(2) same_processes.StartAll [OF st] sut_ok_same_live [of "(dm_sys d)\<lparr>sys_log := h'\<rparr>" "dm_sys d" "dm_sut d"]
    by (simp add: daemon_ok_def)
  show ?thesis
  proof (cases r)
    case None
    from succeeded_StartAll [OF ok st [unfolded None]] obtain log where
      "h' = log @ ?h" "bundle_ok b'" "bd_started b'" by (metis append_assoc)
    with None sut assms(2) False show ?thesis by (simp add: d' daemon_ok_def same_frame_def)
  next
    case (Some e)
    show ?thesis
    proof (rule failed_StartAll [OF ok st [unfolded Some]])
      fix log new
      assume new: "h' = new @ log @ ?h" "\<not> bd_started b'"
        "\<not> ctx ?h \<noteq> None \<Longrightarrow> ContextCancelled \<notin> set log \<Longrightarrow> b' = dm_bundle d"
      have kept: "ctx ?h = None \<and> ContextCancelled \<notin> set (new @ log) \<longrightarrow> daemon_ok d'"
        using new(3) Some sut assms(2) False by (auto simp: d' daemon_ok_def)
      have frame: "same_frame d d'" "dm_store d' = dm_store d" "dm_sut d' = dm_sut d"
        "sut_ok (dm_sut d') (dm_sys d')" "\<not> dm_infraStarted d'"
        using Some sut by (simp_all add: d' same_frame_def)
      have "\<exists>new. sys_log (dm_sys d') = new @ ?h \<and> (ctx ?h = None \<and> ContextCancelled \<notin> set new \<longrightarrow> daemon_ok d')"
        using kept by (intro exI [of _ "new @ log"]) (simp add: d' new(1))
      then show ?thesis using frame Some False by simp
    qed
  qed
qed

lemma ensureStarted_boot:
  assumes "ensureStarted g os ctx inp m s = Some (r, m', s')" "sut_ok m s"
  shows "sm_boot m' = sm_boot m"
  using assms
proof (cases rule: ensureStarted_cases)
  case (refused m1 e)
  have "isRunningLocked os m s = (False, m1, snd (snd (isRunningLocked os m s)))"
    using refused(2,3) by (simp add: prod_eq_iff)
  with isRunning_spec [OF this assms(2)] refused show ?thesis by (simp add: sut_failed_def)
next
  case (started m1 s1 boot c pid s2)
  with isRunning_spec [OF started(2) assms(2)] show ?thesis by (simp add: sut_started_def)
qed simp_all

lemma ensureSUT_spec:
  assumes "ensureSUTStarted g os ctx d = Some (r, d')" "daemon_ok d"
  shows "same_frame d d' \<and> dm_store d' = dm_store d \<and> dm_bundle d' = dm_bundle d \<and>
    dm_infraStarted d' = dm_infraStarted d \<and> daemon_ok d' \<and>
    (r = None \<and> isEnabled (dm_sut d) \<longrightarrow> sm_cmd (dm_sut d') \<noteq> None) \<and>
    (r \<noteq> None \<longrightarrow> unsettled_pids (sys_log (dm_sys d')) = {} \<and> sm_cmd (dm_sut d') = None)"
proof -
  let ?inp = "\<lparr>in_Project = dc_Project (dm_cfg d), in_RuntimePath = dc_RuntimePath (dm_cfg d)\<rparr>"
  from assms(1) obtain m s where st: "ensureStarted g os ctx ?inp (dm_sut d) (dm_sys d) = Some (r, m, s)"
    and d': "d' = d\<lparr>dm_sut := m, dm_sys := s\<rparr>"
    by (auto simp: ensureSUTStarted_def split: option.splits)
  have ok: "sut_ok (dm_sut d) (dm_sys d)" using assms(2) by (simp add: daemon_ok_def)
  have "r = None \<and> isEnabled (dm_sut d) \<longrightarrow> sm_cmd m \<noteq> None"
  proof
    assume "r = None \<and> isEnabled (dm_sut d)"
    then show "sm_cmd m \<noteq> None"
      using st ok by (cases rule: ensureStarted_cases [OF st ok]) (simp_all add: sut_started_def)
  qed
  moreover have "r \<noteq> None \<longrightarrow> unsettled_pids (sys_log s) = {} \<and> sm_cmd m = None"
    using ensureStarted_dead [OF _ ok] st by auto
  moreover have "sut_ok m s" using st ok by (rule sut_ok_ensureStarted)
  moreover have "sm_boot m = sm_boot (dm_sut d)" using st ok by (rule ensureStarted_boot)
  ultimately show ?thesis using assms(2) by (simp add: d' daemon_ok_def same_frame_def)
qed

lemma stopContainers_spec:
  assumes "stopContainersOnly trm d = (r, d')" "daemon_ok d"
  shows "same_frame d d' \<and> dm_store d' = dm_store d \<and> dm_sut d' = dm_sut d \<and> daemon_ok d' \<and>
    (r = None \<longrightarrow> \<not> dm_infraStarted d') \<and>
    (\<exists>new. sys_log (dm_sys d') = new @ sys_log (dm_sys d) \<and> only_terminates new \<and>
       terminated new = (if dm_infraStarted d then somes (bd_cleanup (dm_bundle d)) else []))"
proof (cases "dm_infraStarted d")
  case False
  with assms have "r = None" "d' = d" by (simp_all add: stopContainersOnly_def)
  with assms(2) False show ?thesis by (simp add: only_terminates_def)
next
  case True
  let ?h = "sys_log (dm_sys d)"
  obtain err new where st: "StopAll trm (dm_bundle d) ?h = (err, if err = None then resetState (dm_bundle d) else dm_bundle d, new @ ?h)"
    "only_terminates new" "terminated new = somes (bd_cleanup (dm_bundle d))"
    using StopAll_spec by metis
  then have d': "d' = d\<lparr>dm_bundle := (if err = None then resetState (dm_bundle d) else dm_bundle d),
      dm_sys := (dm_sys d)\<lparr>sys_log := new @ ?h\<rparr>, dm_infraStarted := (err \<noteq> None)\<rparr>" "r = err"
    using assms(1) True by (auto simp: stopContainersOnly_def Let_def split: option.splits)
  have "unsettled_pids (new @ ?h) = unsettled_pids ?h"
    using same_processes.StopAll [of trm "dm_bundle d" ?h] st(1) by simp
  then have "sut_ok (dm_sut d) ((dm_sys d)\<lparr>sys_log := new @ ?h\<rparr>)"
    using assms(2) sut_ok_same_live [of "(dm_sys d)\<lparr>sys_log := new @ ?h\<rparr>" "dm_sys d" "dm_sut d"]
    by (simp add: daemon_ok_def)
  moreover have "bundle_ok (if err = None then resetState (dm_bundle d) else dm_bundle d)"
    using assms(2) by (simp add: daemon_ok_def bundle_ok_resetState)
  moreover have "bd_started (if err = None then resetState (dm_bundle d) else dm_bundle d) = (err \<noteq> None)"
    using assms(2) True by (simp add: daemon_ok_def resetState_def)
  ultimately have "daemon_ok d'"
    using assms(2) by (simp add: d'(1) daemon_ok_def del: if_split)
  moreover have "sys_log (dm_sys d') = new @ ?h" "same_frame d d'" "dm_store d' = dm_store d" "dm_sut d' = dm_sut d"
    "r = None \<longrightarrow> \<not> dm_infraStarted d'"
    by (simp_all add: d' same_frame_def)
  ultimately show ?thesis using True st(2,3) by auto
qed

lemma stopSUT_spec:
  assumes "stopSUTOnly g os ctx d = (r, d')" "daemon_ok d"
  shows "same_frame d d' \<and> dm_store d' = dm_store d \<and> dm_bundle d' = dm_bundle d \<and>
    dm_infraStarted d' = dm_infraStarted d \<and> daemon_ok d' \<and>
    (isEnabled (dm_sut d) \<longrightarrow> unsettled_pids (sys_log (dm_sys d')) = {} \<and> sm_cmd (dm_sut d') = None)"
proof -
  obtain m s where st: "sut_stop g os ctx (dm_sut d) (dm_sys d) = (r, m, s)" and d': "d' = d\<lparr>dm_sut := m, dm_sys := s\<rparr>"
    using assms(1) by (cases "sut_stop g os ctx (dm_sut d) (dm_sys d)" rule: prod_cases3) (simp add: stopSUTOnly_def)
  have ok: "sut_ok (dm_sut d) (dm_sys d)" using assms(2) by (simp add: daemon_ok_def)
  show ?thesis
  proof (cases "isEnabled (dm_sut d)")
    case True
    with sut_stop_dead [OF st ok] assms(2) show ?thesis
      by (simp add: d' daemon_ok_def same_frame_def sut_ok_dead)
  next
    case False
    with st have "m = dm_sut d" "s = dm_sys d" by (simp_all add: sut_stop_def stop_locked_def)
    with assms(2) False show ?thesis by (simp add: d' daemon_ok_def same_frame_def)
  qed
qed

section \<open>The handlers\<close>

lemma daemon_ok_inflight: "daemon_ok d \<Longrightarrow> 0 \<le> n \<Longrightarrow> daemon_ok (d\<lparr>dm_acquireInFlight := n\<rparr>)"
  by (simp add: daemon_ok_def)

lemma same_inflight [simp]: "d\<lparr>dm_acquireInFlight := dm_acquireInFlight d\<rparr> = d"
  by simp

text \<open>How an acquire request can end.\<close>

lemma acquire_body_cases [consumes 2, case_names undecodable infra sut granted]:
  assumes "acquire_body g os trm sched ctx rd now answered rq d = Some (resp, d')" "daemon_ok d"
  obtains (undecodable) e where "rq_Body rq = Inl e" "resp = writeError 400 ErrCodeBadRequest (error_text e)" "d' = d"
  | (infra) e where "resp = writeError 500 ErrCodeInternal (error_text e)" "ensureInfraStarted trm sched ctx d = Some (Some e, d')"
  | (sut) e d1 where "resp = writeError 500 ErrCodeInternal (error_text e)"
      "ensureInfraStarted trm sched ctx d = Some (None, d1)" "daemon_ok d1"
      "ensureSUTStarted g os ctx d1 = Some (Some e, d')"
  | (granted) req d1 d2 where "rq_Body rq = Inr req"
      "ensureInfraStarted trm sched ctx d = Some (None, d1)" "daemon_ok d1"
      "ensureSUTStarted g os ctx d1 = Some (None, d2)"
      "resp = writeJSON 200 (AcquireBody \<lparr>resp_LeaseID = lease_ident (rd, acq_PID req), resp_AcquiredAt = answered\<rparr>)"
      "d' = d2\<lparr>dm_store := store_grant (rd, acq_PID req) now (dm_store d2)\<rparr>"
proof (cases "rq_Body rq")
  case (Inl e)
  with assms(1) have "resp = writeError 400 ErrCodeBadRequest (error_text e)" "d' = d"
    by (auto simp: acquire_body_def)
  with Inl show thesis by (rule undecodable)
next
  case (Inr req)
  from assms(1) Inr obtain r1 d1 where i: "ensureInfraStarted trm sched ctx d = Some (r1, d1)"
    by (auto simp: acquire_body_def split: option.splits)
  show thesis
  proof (cases r1)
    case (Some e)
    with assms(1) Inr i have "resp = writeError 500 ErrCodeInternal (error_text e)" "d' = d1"
      by (auto simp: acquire_body_def)
    with i Some show thesis by (intro infra) simp_all
  next
    case None
    with ensureInfra_spec [OF i assms(2)] have ok1: "daemon_ok d1" by simp
    from assms(1) Inr i None obtain r2 d2 where s: "ensureSUTStarted g os ctx d1 = Some (r2, d2)"
      by (auto simp: acquire_body_def split: option.splits)
    show thesis
    proof (cases r2)
      case (Some e)
      with assms(1) Inr i None s have "resp = writeError 500 ErrCodeInternal (error_text e)" "d' = d2"
        by (auto simp: acquire_body_def)
      with i None s Some ok1 show thesis by (intro sut) simp_all
    next
      case r2: None
      with assms(1) Inr i None s have
        "resp = writeJSON 200 (AcquireBody \<lparr>resp_LeaseID = lease_ident (rd, acq_PID req), resp_AcquiredAt = answered\<rparr>)"
        "d' = d2\<lparr>dm_store := store_grant (rd, acq_PID req) now (dm_store d2)\<rparr>"
        by (auto simp: acquire_body_def acquire_def lease_ident_def store_grant_def Let_def)
      with Inr i None s r2 ok1 show thesis by (intro granted) simp_all
    qed
  qed
qed

lemma handleAcquire_cases [consumes 1, case_names wrong_method processed]:
  assumes "handleAcquire g os trm sched ctx rd now answered rq d = Some (resp, d')"
  obtains (wrong_method) "rq_Method rq \<noteq> MethodPost" "resp = writeError 405 ErrCodeBadRequest ''invalid method''" "d' = d"
  | (processed) d1 where "acquire_body g os trm sched ctx rd now answered rq (d\<lparr>dm_acquireInFlight := dm_acquireInFlight d + 1\<rparr>) = Some (resp, d1)"
      "d' = d1\<lparr>dm_acquireInFlight := dm_acquireInFlight d1 - 1\<rparr>"
  using assms by (auto simp: handleAcquire_def split: if_splits option.splits prod.splits)

lemma response_simps [simp]:
  "rs_Status (writeError st code msg) = st" "rs_Status (writeJSON st v) = st" "rs_Body (writeJSON st v) = v"
  by (simp_all add: writeError_def writeJSON_def)

section \<open>Properties\<close>

text \<open>
  C1. A granted lease is a lease on a ready environment: when an acquire request is answered with
  status 200, all containers of the registrations are started, the service under test (if it is
  enabled) has a process that the manager holds, the lease of the response is in the store and expires
  one lease time after it was made, no other lease changed, and the counter of requests in flight is back.
\<close>

theorem granted_lease_is_ready:
  assumes "daemon_ok d" and "handleAcquire g os trm sched ctx rd now answered rq d = Some (resp, d')"
    and "rs_Status resp = 200"
  shows "daemon_ok d' \<and> dm_infraStarted d' \<and> Started (dm_bundle d') \<and>
    bd_startOrder (dm_bundle d') = map reg_Name (bd_regs (dm_bundle d')) \<and>
    (isEnabled (dm_sut d) \<longrightarrow> sm_cmd (dm_sut d') \<noteq> None) \<and>
    dm_acquireInFlight d' = dm_acquireInFlight d \<and>
    (\<exists>i. rs_Body resp = AcquireBody \<lparr>resp_LeaseID = i, resp_AcquiredAt = answered\<rparr> \<and>
       lease_expiry (dm_store d') i = Some (now + LeaseTTL) \<and>
       (\<forall>j. j \<noteq> i \<longrightarrow> lease_expiry (dm_store d') j = lease_expiry (dm_store d) j))"
  using assms(2)
proof (cases rule: handleAcquire_cases)
  case wrong_method
  with assms(3) show ?thesis by simp
next
  case (processed d1)
  let ?d0 = "d\<lparr>dm_acquireInFlight := dm_acquireInFlight d + 1\<rparr>"
  have ok0: "daemon_ok ?d0" "0 \<le> dm_acquireInFlight d" using assms(1) by (simp_all add: daemon_ok_def)
  from processed(1) ok0(1) show ?thesis
  proof (cases rule: acquire_body_cases)
    case (granted req e1 e2)
    note infra = ensureInfra_spec [OF granted(2) ok0(1)]
    note sut = ensureSUT_spec [OF granted(4,3)]
    have store: "store_ok (dm_store e2)" using sut by (auto simp: daemon_ok_def)
    have same: "dm_store e2 = dm_store d" using sut infra by simp
    let ?i = "lease_ident (rd, acq_PID req)"
    have lease: "lease_expiry (store_grant (rd, acq_PID req) now (dm_store e2)) j =
        (if j = ?i then Some (now + LeaseTTL) else lease_expiry (dm_store d) j)" for j
      using store.expiry_grant [OF store, of "(rd, acq_PID req)" now j] same by auto
    have frame: "dm_acquireInFlight e2 = dm_acquireInFlight d + 1" "dm_infraStarted e2" "daemon_ok e2"
      "isEnabled (dm_sut d) \<longrightarrow> sm_cmd (dm_sut e2) \<noteq> None"
      using sut infra by (simp_all add: same_frame_def)
    have b: "bundle_ok (dm_bundle e2)" "bd_started (dm_bundle e2)"
      using frame by (simp_all add: daemon_ok_def)
    have d': "d' = e2\<lparr>dm_store := store_grant (rd, acq_PID req) now (dm_store e2), dm_acquireInFlight := dm_acquireInFlight d\<rparr>"
      using processed(2) frame(1) by (simp add: granted(6))
    have "daemon_ok d'"
      using frame(3) ok0(2) store.ok_grant [OF store] by (simp add: d' daemon_ok_def)
    moreover have "dm_infraStarted d'" "Started (dm_bundle d')" "dm_acquireInFlight d' = dm_acquireInFlight d"
      "isEnabled (dm_sut d) \<longrightarrow> sm_cmd (dm_sut d') \<noteq> None" "dm_bundle d' = dm_bundle e2"
      using frame(2,4) b(2) by (simp_all add: d' Started_def)
    moreover have "bd_startOrder (dm_bundle e2) = map reg_Name (bd_regs (dm_bundle e2))"
      using b by (simp add: bundle_ok_def)
    moreover have "lease_expiry (dm_store d') j = (if j = ?i then Some (now + LeaseTTL) else lease_expiry (dm_store d) j)" for j
      using lease by (simp add: d')
    ultimately show ?thesis using granted(5) by (intro conjI exI [of _ ?i]) simp_all
  qed (use assms(3) in simp_all)
qed


text \<open>A daemon whose containers run, with an enabled service that has not been started.\<close>

definition sample_dcfg :: "nat daemon_Config" where
  "sample_dcfg = \<lparr>dc_Addr = ''127.0.0.1:0'', dc_Token = ''7'', dc_Project = ''shop'',
     dc_RuntimePath = ''/tmp/tcd/shop/runtime.json'', dc_IdleTTL = 15 * time_Second, dc_SUT = Some sample_plan\<rparr>"

definition up_bundle :: "nat Bundle" where
  "up_bundle = sample_bundle\<lparr>bd_started := True, bd_startOrder := [''redis'', ''mysql''], bd_cleanup := [Some 1, Some 2],
     bd_containerBy := [(''redis'', Some 1), (''mysql'', Some 2)]\<rparr>"

definition sample_daemon :: "nat Daemon" where
  "sample_daemon = \<lparr>dm_cfg = sample_dcfg, dm_regs = bd_regs sample_bundle, dm_bundle = up_bundle, dm_store = sample_store, dm_startedAt = 1,
     dm_runtimePath = ''/tmp/tcd/shop/runtime.json'', dm_sut = newSUTManager (Some sample_plan), dm_infraStarted = True,
     dm_done = False, dm_serving = True, dm_acquireInFlight = 0, dm_sys = empty_sys\<rparr>"

lemma sample_daemon_ok: "daemon_ok sample_daemon"
  using sample_new by (simp add: daemon_ok_def sample_daemon_def up_bundle_def bundle_ok_def valid_regs_def
      sample_bundle_def sample_regs_def sample_reg_def)

definition sample_acquire :: "AcquireReq request" where
  "sample_acquire = \<lparr>rq_Method = MethodPost, rq_Token = ''7'',
     rq_Body = Inr \<lparr>acq_Project = ''shop'', acq_PID = 42, acq_RunID = []\<rparr>\<rparr>"

lemma sample_granted_at:
  "\<exists>resp d' i. handleAcquire Unix sample_os (\<lambda>h c. None) [] Background sample_rand now answered sample_acquire
       (sample_daemon\<lparr>dm_store := st\<rparr>) = Some (resp, d') \<and>
     rs_Status resp = 200 \<and> rs_Body resp = AcquireBody \<lparr>resp_LeaseID = i, resp_AcquiredAt = answered\<rparr>"
proof -
  obtain c f where "ensureStarted Unix sample_os Background sample_input (newSUTManager (Some sample_plan)) empty_sys =
     Some (None, sut_started c 100 (400 * time_Millisecond + 1) (newSUTManager (Some sample_plan)),
       \<lparr>sys_log = [Blocked (400 * time_Millisecond), SpawnReturn (Inr 100), LogOpened f None], sys_jobs = []\<rparr>)"
    using sample_started by blast
  then show ?thesis
    by (simp add: handleAcquire_def acquire_body_def sample_acquire_def ensureInfraStarted_def ensureSUTStarted_def
        sample_daemon_def sample_dcfg_def sample_input_def acquire_def Let_def)
qed

lemma sample_granted:
  "\<exists>resp d' i. handleAcquire Unix sample_os (\<lambda>h c. None) [] Background sample_rand 20 21 sample_acquire sample_daemon =
     Some (resp, d') \<and> rs_Status resp = 200 \<and> rs_Body resp = AcquireBody \<lparr>resp_LeaseID = i, resp_AcquiredAt = 21\<rparr>"
  using sample_granted_at [of 20 21 sample_store] by (simp add: sample_daemon_def)

theorem granted_lease_is_ready_witness:
  "\<exists>resp d'. handleAcquire Unix sample_os (\<lambda>h c. None) [] Background sample_rand 20 21 sample_acquire sample_daemon =
     Some (resp, d') \<and> sm_cmd (dm_sut d') \<noteq> None \<and> bd_startOrder (dm_bundle d') = map reg_Name (bd_regs (dm_bundle d'))"
proof -
  obtain resp d' where run: "handleAcquire Unix sample_os (\<lambda>h c. None) [] Background sample_rand 20 21 sample_acquire sample_daemon =
     Some (resp, d')" "rs_Status resp = 200" using sample_granted by blast
  have "daemon_ok sample_daemon" by (rule sample_daemon_ok)
  from granted_lease_is_ready [OF this run] have
    "isEnabled (dm_sut sample_daemon) \<longrightarrow> sm_cmd (dm_sut d') \<noteq> None"
    "bd_startOrder (dm_bundle d') = map reg_Name (bd_regs (dm_bundle d'))" by blast+
  with run(1) show ?thesis by (auto simp: isEnabled_def sample_daemon_def sample_plan_def)
qed

text \<open>
  C22. A refused acquire request has one of the statuses 405, 400 and 500 and an error message, makes no
  lease and is no longer counted as in flight. A request of the wrong method or with an undecodable body
  changes nothing. With status 500 either the containers are not started, or they are, the manager holds no process, and
  no process of the service is left alive except one whose kill the operating system refused.
\<close>

theorem refused_acquire:
  assumes "daemon_ok d" and "handleAcquire g os trm sched ctx rd now answered rq d = Some (resp, d')"
    and "rs_Status resp \<noteq> 200"
  shows "rs_Status resp \<in> {400, 405, 500} \<and> (\<exists>e. rs_Body resp = ErrorBody e) \<and>
    dm_store d' = dm_store d \<and> dm_acquireInFlight d' = dm_acquireInFlight d \<and>
    (rs_Status resp \<noteq> 500 \<longrightarrow> d' = d) \<and>
    (rs_Status resp = 500 \<longrightarrow> \<not> dm_infraStarted d' \<or>
       dm_infraStarted d' \<and> sm_cmd (dm_sut d') = None \<and>
         live_pids (sys_log (dm_sys d')) \<subseteq> kill_failed (sys_log (dm_sys d')))"
  using assms(2)
proof (cases rule: handleAcquire_cases)
  case wrong_method
  then show ?thesis by (simp add: writeError_def writeJSON_def)
next
  case (processed d1)
  let ?d0 = "d\<lparr>dm_acquireInFlight := dm_acquireInFlight d + 1\<rparr>"
  have ok0: "daemon_ok ?d0" using assms(1) by (simp add: daemon_ok_def)
  from processed(1) ok0 show ?thesis
  proof (cases rule: acquire_body_cases)
    case (undecodable e)
    with processed(2) show ?thesis by (simp add: writeError_def writeJSON_def)
  next
    case (infra e)
    with ensureInfra_spec [OF infra(2) ok0] processed(2) show ?thesis
      by (simp add: writeError_def writeJSON_def same_frame_def)
  next
    case (sut e e1)
    with ensureInfra_spec [OF sut(2) ok0] ensureSUT_spec [OF sut(4,3)] processed(2) show ?thesis
      by (simp add: writeError_def writeJSON_def same_frame_def unsettled_empty)
  next
    case (granted req e1 e2)
    with assms(3) show ?thesis by simp
  qed
qed

theorem refused_acquire_witness:
  "\<exists>resp d'. handleAcquire Unix sample_os (\<lambda>h c. None) [] Background sample_rand 20 21 sample_acquire
       (sample_daemon\<lparr>dm_sut := newSUTManager (Some broken_plan)\<rparr>) = Some (resp, d') \<and>
     rs_Status resp = 500 \<and> dm_store d' = sample_store \<and>
     live_pids (sys_log (dm_sys d')) \<subseteq> kill_failed (sys_log (dm_sys d'))"
proof -
  let ?d = "sample_daemon\<lparr>dm_sut := newSUTManager (Some broken_plan)\<rparr>"
  have ok: "daemon_ok ?d"
    using sample_daemon_ok by (simp add: daemon_ok_def sut_ok_def newSUTManager_def sample_daemon_def)
  obtain resp d' where run: "handleAcquire Unix sample_os (\<lambda>h c. None) [] Background sample_rand 20 21 sample_acquire ?d =
       Some (resp, d')" "rs_Status resp = 500" "dm_infraStarted d'"
    by (simp add: handleAcquire_def acquire_body_def sample_acquire_def ensureInfraStarted_def ensureSUTStarted_def
        sample_daemon_def ensureStarted_def launch_def broken_plan_def isEnabled_def sample_plan_def)
  from refused_acquire [OF ok run(1)] run show ?thesis by (auto simp: sample_daemon_def)
qed

end
