(* ===== verification/Daemon_Runs.thy ===== *)
theory Daemon_Runs
  imports Daemon_Lifecycle
begin

text \<open>
  The daemon as a server: requests, ticks of the reaper and the interrupt, one after another. What
  a run of them keeps, when the shutdown comes and what it does, and how a lease that its client
  keeps alive protects the environment.
\<close>

section \<open>The server\<close>

record 'c server =
  sv_reaping :: bool
  sv_reaper :: reaper
  sv_daemon :: "'c Daemon"

datatype 'c input =
    Request wire_request "pool_actor list" "'c ctx" "byte list" go_time go_time
  | Tick go_time
  | DoneReceived
  | Interrupt

text \<open>
  Once the shutdown is complete no request is accepted. The loop of the reaper waits for a tick and for the
  channel \<^verbatim>\<open>done\<close> at once: when the channel is closed and a tick is there it takes either, so both are
  inputs, and the channel delivers nothing (the input has no effect) before it is closed.
\<close>

fun serial_step :: "'c world \<Rightarrow> 'c input \<Rightarrow> 'c server \<Rightarrow> 'c server option" where
  "serial_step w (Request wr sched ctx rd now answered) sv =
     (if dm_done (sv_daemon sv) then Some sv
      else case serve w sched ctx rd now answered wr (sv_daemon sv) of
             None \<Rightarrow> None
           | Some (resp, d') \<Rightarrow> Some (sv\<lparr>sv_daemon := d'\<rparr>))"
| "serial_step w (Tick now) sv =
     (if \<not> sv_reaping sv then Some sv
      else case reaper_tick (w_goos w) (w_os w) (w_trm w) now (sv_reaper sv) (sv_daemon sv) of
             (go, r, d') \<Rightarrow> Some \<lparr>sv_reaping = go, sv_reaper = r, sv_daemon = d'\<rparr>)"
| "serial_step w DoneReceived sv = Some (sv\<lparr>sv_reaping := sv_reaping sv \<and> \<not> dm_done (sv_daemon sv)\<rparr>)"
| "serial_step w Interrupt sv =
     Some (sv\<lparr>sv_daemon := shutdownServer (w_goos w) (w_os w) (w_trm w) Background (sv_daemon sv)\<rparr>)"

definition serving :: "'c Daemon \<Rightarrow> 'c server" where
  "serving d = \<lparr>sv_reaping = True, sv_reaper = reaper_reset, sv_daemon = d\<rparr>"

section \<open>The shutdown\<close>

lemma only_terminates_live: "only_terminates new \<Longrightarrow> unsettled_pids (new @ h) = unsettled_pids h"
  by (induction new) (auto simp: only_terminates_def)

lemma daemon_ok_same_log:
  "daemon_ok d \<Longrightarrow> unsettled_pids (sys_log s) = unsettled_pids (sys_log (dm_sys d)) \<Longrightarrow> daemon_ok (d\<lparr>dm_sys := s\<rparr>)"
  using sut_ok_same_live [of s "dm_sys d" "dm_sut d"] by (simp add: daemon_ok_def)

lemma stopSUT_terminated: "terminated (sys_log (dm_sys (snd (stopSUTOnly g os ctx d)))) = terminated (sys_log (dm_sys d))"
  using sut_stop_terminated [of g os ctx "dm_sut d" "dm_sys d"] by (auto simp: stopSUTOnly_def split: prod.split)

lemma shutdown_spec:
  assumes "daemon_ok d" "\<not> dm_done d" and d': "d' = shutdownServer g os trm ctx d"
  shows "daemon_ok d' \<and> dm_done d' \<and> dm_store d' = dm_store d \<and> dm_cfg d' = dm_cfg d \<and>
    dm_acquireInFlight d' = dm_acquireInFlight d \<and> sm_boot (dm_sut d') = sm_boot (dm_sut d) \<and>
    (isEnabled (dm_sut d) \<longrightarrow> sm_cmd (dm_sut d') = None) \<and>
    (\<exists>cont mid. sys_log (dm_sys d') =
         RuntimeRemoved (dm_runtimePath d) # (if dm_serving d then [ServerShutdown] else []) @ cont @ mid \<and>
       terminated mid = terminated (sys_log (dm_sys d)) \<and> (isEnabled (dm_sut d) \<longrightarrow> unsettled_pids mid = {}) \<and>
       only_terminates cont \<and> terminated cont = (if dm_infraStarted d then somes (bd_cleanup (dm_bundle d)) else []))"
proof -
  let ?d1 = "d\<lparr>dm_done := True\<rparr>"
  have ok1: "daemon_ok ?d1" using assms(1) by (simp add: daemon_ok_def)
  obtain r2 d2 where s2: "stopSUTOnly g os ctx ?d1 = (r2, d2)" by fastforce
  note sut = stopSUT_spec [OF s2 ok1]
  then have ok2: "daemon_ok d2" by simp
  obtain r3 d3 where s3: "stopContainersOnly trm d2 = (r3, d3)" by fastforce
  from stopContainers_spec [OF s3 ok2] obtain cont where
    cont: "sys_log (dm_sys d3) = cont @ sys_log (dm_sys d2)" "only_terminates cont"
      "terminated cont = (if dm_infraStarted d2 then somes (bd_cleanup (dm_bundle d2)) else [])" and
    frame: "same_frame d2 d3" "dm_store d3 = dm_store d2" "dm_sut d3 = dm_sut d2" "daemon_ok d3" by blast
  let ?s = "emit (RuntimeRemoved (dm_runtimePath d3)) (if dm_serving d3 then emit ServerShutdown (dm_sys d3) else dm_sys d3)"
  have eq: "d' = d3\<lparr>dm_sys := ?s\<rparr>"
    using assms(2) s2 s3 by (simp add: d' shutdownServer_def Let_def)
  have "daemon_ok d'"
    unfolding eq by (rule daemon_ok_same_log [OF frame(4)]) simp
  moreover have "terminated (sys_log (dm_sys d2)) = terminated (sys_log (dm_sys d))"
    using stopSUT_terminated [of g os ctx ?d1] s2 by simp
  moreover have "isEnabled (dm_sut d) \<longrightarrow> unsettled_pids (sys_log (dm_sys d2)) = {} \<and> sm_cmd (dm_sut d2) = None"
    "sm_boot (dm_sut d2) = sm_boot (dm_sut d)"
    using sut by (simp_all add: same_frame_def)
  moreover have "dm_done d' \<and> dm_store d' = dm_store d \<and> dm_cfg d' = dm_cfg d \<and>
      dm_acquireInFlight d' = dm_acquireInFlight d \<and> dm_sut d' = dm_sut d2"
    using sut frame by (simp add: eq same_frame_def)
  moreover have "sys_log (dm_sys d') = RuntimeRemoved (dm_runtimePath d) #
      (if dm_serving d then [ServerShutdown] else []) @ cont @ sys_log (dm_sys d2)"
    using sut frame cont(1) by (simp add: eq same_frame_def)
  moreover have "terminated cont = (if dm_infraStarted d then somes (bd_cleanup (dm_bundle d)) else [])"
    using sut cont(3) by simp
  ultimately show ?thesis using cont(2) by (intro conjI exI [of _ cont] exI [of _ "sys_log (dm_sys d2)"]) simp_all
qed

lemma shutdown_again [simp]: "dm_done d \<Longrightarrow> shutdownServer g os trm ctx d = d"
  by (simp add: shutdownServer_def)

section \<open>The ticks and the requests\<close>

lemma tick_busy:
  assumes "0 < activeCount now (gc now (dm_store d)) \<or> 0 < dm_acquireInFlight d"
  shows "reaper_tick g os trm now r d = (True, reaper_reset, d\<lparr>dm_store := gc now (dm_store d)\<rparr>)"
  using assms by (auto simp: reaper_tick_def Let_def)

text \<open>An idle tick: the service may be stopped, and then the daemon.\<close>

lemma tick_idle:
  assumes "\<not> 0 < activeCount now (gc now (dm_store d))" "\<not> 0 < dm_acquireInFlight d" "daemon_ok d"
    and "reaper_tick g os trm now r d = (go, r', d')"
  obtains d1 where "same_frame (d\<lparr>dm_store := gc now (dm_store d)\<rparr>) d1" "dm_store d1 = gc now (dm_store d)"
    "dm_bundle d1 = dm_bundle d" "dm_infraStarted d1 = dm_infraStarted d" "daemon_ok d1" "grows (dm_sys d) (dm_sys d1)"
    "rp_idleSince r = 0 \<Longrightarrow> go \<and> rp_idleSince r' = now \<and> d' = d1"
    "rp_idleSince r \<noteq> 0 \<Longrightarrow> time_Sub now (rp_idleSince r) < dc_IdleTTL (dm_cfg d) \<Longrightarrow>
       go \<and> rp_idleSince r' = rp_idleSince r \<and> d' = d1"
    "rp_idleSince r \<noteq> 0 \<Longrightarrow> dc_IdleTTL (dm_cfg d) \<le> time_Sub now (rp_idleSince r) \<Longrightarrow>
       \<not> go \<and> d' = shutdownServer g os trm Background d1"
proof -
  let ?d0 = "d\<lparr>dm_store := gc now (dm_store d)\<rparr>"
  have ok0: "daemon_ok ?d0" using assms(3) by (simp add: daemon_ok_def)
  define p where "p = (if time_IsZero (rp_sutIdleSince r) then (r\<lparr>rp_sutIdleSince := now\<rparr>, ?d0)
                else if idleTTL (dm_sut ?d0) \<le> time_Sub now (rp_sutIdleSince r)
                then (r, snd (stopSUTOnly g os Background ?d0)) else (r, ?d0))"
  obtain r1 d1 where p: "p = (r1, d1)" by fastforce
  obtain x d2 where stop: "stopSUTOnly g os Background ?d0 = (x, d2)" by fastforce
  note spec = stopSUT_spec [OF stop ok0]
  have d1: "same_frame ?d0 d1 \<and> dm_store d1 = gc now (dm_store d) \<and> dm_bundle d1 = dm_bundle d \<and>
      dm_infraStarted d1 = dm_infraStarted d \<and> daemon_ok d1" "rp_idleSince r1 = rp_idleSince r"
    using p stop spec ok0 by (auto simp: p_def split: if_splits)
  then have cfg: "dm_cfg d1 = dm_cfg d" by (simp add: same_frame_def)
  have "grows (dm_sys d) (dm_sys d2)"
    using stop by (auto simp: stopSUTOnly_def split: prod.splits dest: sut_stop_grows)
  then have grown: "grows (dm_sys d) (dm_sys d1)" using p stop by (auto simp: p_def split: if_splits)
  have "(go, r', d') = (if time_IsZero (rp_idleSince r1) then (True, r1\<lparr>rp_idleSince := now\<rparr>, d1)
              else if dc_IdleTTL (dm_cfg d1) \<le> time_Sub now (rp_idleSince r1)
              then (False, r1, shutdownServer g os trm Background d1) else (True, r1, d1))"
    using assms(1,2,4) p unfolding p_def by (simp add: reaper_tick_def Let_def)
  with d1 cfg grown show thesis by (intro that [of d1]) (auto simp: time_IsZero_def)
qed

lemma tick_ok: "daemon_ok d \<Longrightarrow> reaper_tick g os trm now r d = (go, r', d') \<Longrightarrow> daemon_ok d'"
proof (cases "0 < activeCount now (gc now (dm_store d)) \<or> 0 < dm_acquireInFlight d")
  case True
  assume "daemon_ok d" "reaper_tick g os trm now r d = (go, r', d')"
  with tick_busy [OF True] show ?thesis by (auto simp: daemon_ok_def)
next
  case False
  assume ok: "daemon_ok d" and t: "reaper_tick g os trm now r d = (go, r', d')"
  from False have idle: "\<not> 0 < activeCount now (gc now (dm_store d))" "\<not> 0 < dm_acquireInFlight d" by blast+
  show ?thesis
  proof (rule tick_idle [OF idle ok t])
    fix d1
    assume d1: "same_frame (d\<lparr>dm_store := gc now (dm_store d)\<rparr>) d1" "daemon_ok d1"
      "rp_idleSince r = 0 \<Longrightarrow> go \<and> rp_idleSince r' = now \<and> d' = d1"
      "rp_idleSince r \<noteq> 0 \<Longrightarrow> time_Sub now (rp_idleSince r) < dc_IdleTTL (dm_cfg d) \<Longrightarrow>
         go \<and> rp_idleSince r' = rp_idleSince r \<and> d' = d1"
      "rp_idleSince r \<noteq> 0 \<Longrightarrow> dc_IdleTTL (dm_cfg d) \<le> time_Sub now (rp_idleSince r) \<Longrightarrow>
         \<not> go \<and> d' = shutdownServer g os trm Background d1"
    have "daemon_ok (shutdownServer g os trm Background d1)"
      using shutdown_spec [OF d1(2) _ refl] d1(2) by (cases "dm_done d1") auto
    then show ?thesis using d1(2-5) by (cases "rp_idleSince r = 0") force+
  qed
qed

text \<open>The operation on the lease table that a request amounts to.\<close>

definition request_op ::
  "json_codec \<Rightarrow> byte list \<Rightarrow> go_time \<Rightarrow> wire_request \<Rightarrow> response \<Rightarrow> (go_time \<times> (byte list \<times> int) lease_op) list" where
  "request_op cod rd now wr resp =
     (if rs_Status resp \<noteq> 200 then []
      else if wr_Path wr = PathAcquire then
        (case dec_AcquireReq cod (wr_Body wr) of Inl e \<Rightarrow> [] | Inr req \<Rightarrow> [(now, Grant (rd, acq_PID req))])
      else if wr_Path wr = PathHeartbeat then
        (case dec_HeartbeatReq cod (wr_Body wr) of Inl e \<Rightarrow> [] | Inr req \<Rightarrow> [(now, Renew (hb_LeaseID req))])
      else if wr_Path wr = PathRelease then
        (case dec_ReleaseReq cod (wr_Body wr) of Inl e \<Rightarrow> [] | Inr req \<Rightarrow> [(now, Revoke (rel_LeaseID req))])
      else [])"

text \<open>What every answered request leaves as it was, and what it does to the leases.\<close>

definition served :: "'c ctx \<Rightarrow> (go_time \<times> (byte list \<times> int) lease_op) list \<Rightarrow> 'c Daemon \<Rightarrow> 'c Daemon \<Rightarrow> bool" where
  "served ctx ops d d' \<longleftrightarrow>
     same_frame d d' \<and> dm_store d' = fold store_exec ops (dm_store d) \<and>
     (dm_infraStarted d \<longrightarrow> daemon_ok d' \<and> dm_infraStarted d' \<and> dm_bundle d' = dm_bundle d) \<and>
     (ctx (sys_log (dm_sys d)) = None \<and> ContextCancelled \<notin> set (sys_log (dm_sys d')) \<longrightarrow> daemon_ok d')"

lemma served_refl: "daemon_ok d \<Longrightarrow> served ctx [] d d"
  by (simp add: served_def)

lemma served_store: "daemon_ok d \<Longrightarrow> served ctx ops d (d\<lparr>dm_store := fold store_exec ops (dm_store d)\<rparr>)"
  using store.ok_run [of "dm_store d" ops] by (simp add: served_def same_frame_def daemon_ok_def)

lemma served_auth:
  assumes "withAuth next rq d = Some (resp, d')" "daemon_ok d" "rs_Status resp \<noteq> 200 \<Longrightarrow> ops = []"
    and "next rq d = Some (resp, d') \<Longrightarrow> served ctx ops d d'"
  shows "served ctx ops d d'"
  using assms served_refl [of d ctx] by (auto simp: withAuth_def Let_def split: if_splits)

lemma served_heartbeat:
  assumes "handleHeartbeat now rq d = Some (resp, d')" "daemon_ok d"
  shows "served ctx (case rq_Body rq of Inl e \<Rightarrow> [] | Inr req \<Rightarrow>
     if rs_Status resp = 200 then [(now, Renew (hb_LeaseID req))] else []) d d'"
proof (cases "rq_Method rq = MethodPost \<and> rs_Status resp = 200")
  case True
  then obtain req where "rq_Body rq = Inr req" "d' = d\<lparr>dm_store := store_renew (hb_LeaseID req) now (dm_store d)\<rparr>"
    using assms(1) by (auto simp: handleHeartbeat_def store_renew_def split: sum.splits prod.splits if_splits bool.splits)
  with True served_store [OF assms(2), of ctx "[(now, Renew (hb_LeaseID req))]"] show ?thesis by simp
next
  case False
  then have "d' = d" using assms(1)
    by (auto simp: handleHeartbeat_def heartbeat_def split: sum.splits prod.splits if_splits option.splits)
  moreover have "rs_Status resp \<noteq> 200" using False assms(1)
    by (auto simp: handleHeartbeat_def)
  ultimately show ?thesis using served_refl [OF assms(2)] by (simp split: sum.split)
qed

lemma served_release:
  assumes "handleRelease rq d = Some (resp, d')" "daemon_ok d"
  shows "served ctx (case rq_Body rq of Inl e \<Rightarrow> [] | Inr req \<Rightarrow>
     if rs_Status resp = 200 then [(now, Revoke (rel_LeaseID req))] else []) d d'"
proof (cases "rq_Method rq = MethodPost \<and> rs_Status resp = 200")
  case True
  then obtain req where "rq_Body rq = Inr req" "d' = d\<lparr>dm_store := store_revoke (rel_LeaseID req) (dm_store d)\<rparr>"
    using assms(1) by (auto simp: handleRelease_def store_revoke_def split: sum.splits prod.splits if_splits bool.splits)
  with True served_store [OF assms(2), of ctx "[(now, Revoke (rel_LeaseID req))]"] show ?thesis by simp
next
  case False
  then have "d' = d" using assms(1)
    by (auto simp: handleRelease_def release_def split: sum.splits prod.splits if_splits option.splits)
  moreover have "rs_Status resp \<noteq> 200" using False assms(1)
    by (auto simp: handleRelease_def)
  ultimately show ?thesis using served_refl [OF assms(2)] by (simp split: sum.split)
qed

lemma served_state:
  assumes "handleState os now rq d = Some (resp, d')" "daemon_ok d"
  shows "served ctx [] d d'"
proof (cases "rq_Method rq = MethodGet")
  case False
  with assms served_refl show ?thesis by (auto simp: handleState_def)
next
  case True
  obtain running m s where run: "isRunningLocked os (dm_sut d) (dm_sys d) = (running, m, s)" by (rule prod_cases3)
  with True assms(1) have d': "d' = d\<lparr>dm_sut := m, dm_sys := s\<rparr>"
    by (auto simp: handleState_def snapshot_def Let_def)
  from isRunning_spec [OF run] assms(2) have "sut_ok m s" "sm_boot m = sm_boot (dm_sut d)"
    by (simp_all add: daemon_ok_def)
  with assms(2) show ?thesis by (simp add: d' served_def same_frame_def daemon_ok_def)
qed

lemma served_acquire:
  assumes "handleAcquire g os trm sched ctx rd now answered rq d = Some (resp, d')" "daemon_ok d"
  shows "served ctx (case rq_Body rq of Inl e \<Rightarrow> [] | Inr req \<Rightarrow>
     if rs_Status resp = 200 then [(now, Grant (rd, acq_PID req))] else []) d d'"
  using assms(1)
proof (cases rule: handleAcquire_cases)
  case wrong_method
  with served_refl [OF assms(2)] show ?thesis by (simp split: sum.split)
next
  case (processed d1)
  let ?d0 = "d\<lparr>dm_acquireInFlight := dm_acquireInFlight d + 1\<rparr>"
  have ok0: "daemon_ok ?d0" using assms(2) by (simp add: daemon_ok_def)
  have n: "0 \<le> dm_acquireInFlight d" using assms(2) by (simp add: daemon_ok_def)
  from processed(1) ok0 show ?thesis
  proof (cases rule: acquire_body_cases)
    case (undecodable e)
    with processed(2) served_refl [OF assms(2)] show ?thesis by simp
  next
    case (infra e)
    from ensureInfra_spec [OF infra(2) ok0] have
      "same_frame ?d0 d1" "dm_store d1 = dm_store d" "\<not> dm_infraStarted d"
      "\<exists>new. sys_log (dm_sys d1) = new @ sys_log (dm_sys d) \<and>
         (ctx (sys_log (dm_sys d)) = None \<and> ContextCancelled \<notin> set new \<longrightarrow> daemon_ok d1)"
      by auto
    then show ?thesis using processed(2) infra(1) n
      by (auto simp: served_def same_frame_def daemon_ok_def split: sum.split)
  next
    case (sut e e1)
    note infra = ensureInfra_spec [OF sut(2) ok0]
    note st = ensureSUT_spec [OF sut(4,3)]
    have frames: "same_frame ?d0 e1" "same_frame e1 d1" "dm_store d1 = dm_store d" "daemon_ok d1" using infra st by simp_all
    have up: "dm_infraStarted d \<Longrightarrow> e1 = ?d0" "dm_bundle d1 = dm_bundle e1" "dm_infraStarted d1 = dm_infraStarted e1"
      using infra st by simp_all
    have d': "d' = d1\<lparr>dm_acquireInFlight := dm_acquireInFlight d\<rparr>"
      using processed(2) frames by (simp add: same_frame_def)
    have "same_frame d d'" using frames by (simp add: d' same_frame_def)
    moreover have "dm_infraStarted d \<longrightarrow> dm_infraStarted d1 \<and> dm_bundle d1 = dm_bundle d"
      using up by simp
    moreover have "daemon_ok d'" using frames(4) n by (simp add: d' daemon_ok_def)
    ultimately have "served ctx [] d d'"
      using frames(3) by (simp add: d' served_def)
    with sut(1) show ?thesis by (simp split: sum.split)
  next
    case (granted req e1 e2)
    have ok: "store_ok (store_grant (rd, acq_PID req) now (dm_store d))"
      using store.ok_grant assms(2) by (simp add: daemon_ok_def)
    note infra = ensureInfra_spec [OF granted(2) ok0]
    note sut = ensureSUT_spec [OF granted(4,3)]
    have d': "d' = e2\<lparr>dm_store := store_grant (rd, acq_PID req) now (dm_store d), dm_acquireInFlight := dm_acquireInFlight d\<rparr>"
      using processed(2) granted(6) infra sut by (simp add: same_frame_def)
    have frames: "same_frame ?d0 e1" "same_frame e1 e2" using infra sut by blast+
    have up: "dm_infraStarted d \<Longrightarrow> e1 = ?d0" "dm_bundle e2 = dm_bundle e1" "dm_infraStarted e2 = dm_infraStarted e1"
      using infra sut by simp_all
    have "same_frame d d'" using frames by (simp add: d' same_frame_def)
    moreover have "dm_infraStarted d \<longrightarrow> dm_infraStarted e2 \<and> dm_bundle e2 = dm_bundle d"
      using up by simp
    moreover have "daemon_ok e2" using sut by blast
    then have "daemon_ok d'" using n ok by (simp add: d' daemon_ok_def)
    ultimately have "served ctx [(now, Grant (rd, acq_PID req))] d d'"
      by (simp add: d' served_def)
    with granted(1,5) show ?thesis by simp
  qed
qed

abbreviation registered_paths :: "string set" where
  "registered_paths \<equiv> {PathAcquire, PathHeartbeat, PathRelease, PathState}"

lemma serve_cases [consumes 1, case_names acquire heartbeat release state unknown]:
  assumes "serve w sched ctx rd now answered wr d = Some (resp, d')"
  obtains (acquire) "wr_Path wr = PathAcquire"
      "withAuth (handleAcquire (w_goos w) (w_os w) (w_trm w) sched ctx rd now answered)
         (decoded (dec_AcquireReq (w_codec w)) wr) d = Some (resp, d')"
  | (heartbeat) "wr_Path wr = PathHeartbeat"
      "withAuth (handleHeartbeat now) (decoded (dec_HeartbeatReq (w_codec w)) wr) d = Some (resp, d')"
  | (release) "wr_Path wr = PathRelease"
      "withAuth handleRelease (decoded (dec_ReleaseReq (w_codec w)) wr) d = Some (resp, d')"
  | (state) "wr_Path wr = PathState"
      "withAuth (handleState (w_os w) now) (decoded (\<lambda>b. Inr ()) wr) d = Some (resp, d')"
  | (unknown) "wr_Path wr \<notin> registered_paths" "resp = \<lparr>rs_Status = 404, rs_Body = PageNotFound\<rparr>" "d' = d"
  using assms by (auto simp: serve_def split: if_splits)

lemma serve_spec:
  assumes "serve w sched ctx rd now answered wr d = Some (resp, d')" "daemon_ok d"
  shows "served ctx (request_op (w_codec w) rd now wr resp) d d'"
proof -
  let ?ops = "request_op (w_codec w) rd now wr resp"
  have none: "rs_Status resp \<noteq> 200 \<Longrightarrow> ?ops = []" by (simp add: request_op_def)
  from assms(1) show ?thesis
  proof (cases rule: serve_cases)
    case acquire
    show ?thesis
    proof (rule served_auth [OF acquire(2) assms(2) none], goal_cases)
      case 2
      from served_acquire [OF 2 assms(2)] acquire(1) show ?case
        by (cases "rs_Status resp = 200") (auto simp: request_op_def decoded_def split: sum.splits)
    qed
  next
    case heartbeat
    show ?thesis
    proof (rule served_auth [OF heartbeat(2) assms(2) none], goal_cases)
      case 2
      from served_heartbeat [OF 2 assms(2), of ctx] heartbeat(1) show ?case
        by (cases "rs_Status resp = 200") (auto simp: request_op_def decoded_def split: sum.splits)
    qed
  next
    case release
    show ?thesis
    proof (rule served_auth [OF release(2) assms(2) none], goal_cases)
      case 2
      from served_release [OF 2 assms(2), of ctx now] release(1) show ?case
        by (cases "rs_Status resp = 200") (auto simp: request_op_def decoded_def split: sum.splits)
    qed
  next
    case state
    then have ops: "?ops = []" by (simp add: request_op_def)
    from state(2) show ?thesis unfolding ops
      by (rule served_auth [OF _ assms(2) refl]) (rule served_state [OF _ assms(2)])
  next
    case unknown
    then have "?ops = []" by (simp add: request_op_def)
    with unknown served_refl [OF assms(2)] show ?thesis by simp
  qed
qed

section \<open>Runs\<close>

text \<open>The operations on the lease table in a run.\<close>

fun input_ops :: "'c world \<Rightarrow> 'c input \<Rightarrow> 'c server \<Rightarrow> (go_time \<times> (byte list \<times> int) lease_op) list" where
  "input_ops w (Request wr sched ctx rd now answered) sv =
     (if dm_done (sv_daemon sv) then []
      else case serve w sched ctx rd now answered wr (sv_daemon sv) of
             None \<Rightarrow> [] | Some (resp, d') \<Rightarrow> request_op (w_codec w) rd now wr resp)"
| "input_ops w (Tick now) sv = (if sv_reaping sv then [(now, Sweep)] else [])"
| "input_ops w DoneReceived sv = []"
| "input_ops w Interrupt sv = []"

fun lease_ops :: "'c world \<Rightarrow> 'c input list \<Rightarrow> 'c server \<Rightarrow> (go_time \<times> (byte list \<times> int) lease_op) list" where
  "lease_ops w [] sv = []"
| "lease_ops w (a # as) sv =
     input_ops w a sv @ (case serial_step w a sv of None \<Rightarrow> [] | Some sv' \<Rightarrow> lease_ops w as sv')"

lemma lease_ops_append:
  "run_steps (serial_step w) xs sv = Some sv' \<Longrightarrow> lease_ops w (xs @ ys) sv = lease_ops w xs sv @ lease_ops w ys sv'"
  by (induction xs arbitrary: sv) (auto split: option.splits)

text \<open>
  The invariant of a run. A request whose caller gives up while the containers are created can break
  the invariant of the bundle, so it is claimed while no such thing has happened.
\<close>

definition input_quiet :: "'c input \<Rightarrow> bool" where
  "input_quiet a = (case a of Request wr sched ctx rd now answered \<Rightarrow> ctx = Background | _ \<Rightarrow> True)"

lemma serial_step_ok:
  assumes "serial_step w a sv = Some sv'" "daemon_ok (sv_daemon sv)"
    and "input_quiet a" "ContextCancelled \<notin> set (sys_log (dm_sys (sv_daemon sv')))"
  shows "daemon_ok (sv_daemon sv')"
proof (cases a)
  case (Request wr sched ctx rd now answered)
  show ?thesis
  proof (cases "dm_done (sv_daemon sv)")
    case True
    with assms(1,2) Request show ?thesis by simp
  next
    case False
    with assms(1) Request obtain resp d' where
      "serve w sched ctx rd now answered wr (sv_daemon sv) = Some (resp, d')" "sv' = sv\<lparr>sv_daemon := d'\<rparr>"
      by (auto split: option.splits)
    with serve_spec [OF this(1) assms(2)] assms(3,4) Request show ?thesis
      by (simp add: served_def input_quiet_def Background_def)
  qed
next
  case (Tick now)
  with assms(1,2) show ?thesis
    by (auto split: if_splits prod.splits dest: tick_ok)
next
  case DoneReceived
  with assms(1,2) show ?thesis by auto
next
  case Interrupt
  with assms(1,2) shutdown_spec [OF assms(2) _ refl] show ?thesis
    by (cases "dm_done (sv_daemon sv)") auto
qed

section \<open>The history of a run\<close>

definition later :: "'c Daemon \<Rightarrow> 'c Daemon \<Rightarrow> bool" where
  "later d d' \<longleftrightarrow> grows (dm_sys d) (dm_sys d')"

lemma later_refl [simp]: "later d d"
  by (simp add: later_def)

lemma later_trans: "later d e \<Longrightarrow> later e f \<Longrightarrow> later d f"
  unfolding later_def by (rule grows_trans)

lemma ensureInfra_later: "ensureInfraStarted trm sched ctx d = Some (r, d') \<Longrightarrow> later d d'"
  using growing.StartAll
  by (fastforce simp: ensureInfraStarted_def later_def grows_def Let_def split: if_splits option.splits)

lemma ensureSUT_later: "ensureSUTStarted g os ctx d = Some (r, d') \<Longrightarrow> later d d'"
  by (auto simp: ensureSUTStarted_def later_def split: option.splits dest: ensureStarted_grows)

lemma stopSUT_later: "later d (snd (stopSUTOnly g os ctx d))"
  by (auto simp: stopSUTOnly_def later_def split: prod.split dest: sut_stop_grows)

lemma stopContainers_later: "later d (snd (stopContainersOnly trm d))"
proof -
  obtain err b h where st: "StopAll trm (dm_bundle d) (sys_log (dm_sys d)) = (err, b, h)" by (rule prod_cases3)
  with growing.StopAll [of "sys_log (dm_sys d)" trm "dm_bundle d"] have "suffix (sys_log (dm_sys d)) h" by simp
  then show ?thesis
    by (simp add: stopContainersOnly_def st later_def grows_def Let_def split: option.split)
qed

lemma shutdown_later: "later d (shutdownServer g os trm ctx d)"
proof (cases "dm_done d")
  case False
  define d2 where "d2 = snd (stopSUTOnly g os ctx (d\<lparr>dm_done := True\<rparr>))"
  define d3 where "d3 = snd (stopContainersOnly trm d2)"
  have "later (d\<lparr>dm_done := True\<rparr>) d3"
    unfolding d3_def d2_def by (rule later_trans [OF stopSUT_later stopContainers_later])
  then have "later d d3" by (simp add: later_def)
  moreover have "later d3 (shutdownServer g os trm ctx d)"
    using False by (auto simp: shutdownServer_def later_def Let_def d2_def [symmetric] d3_def [symmetric] intro!: grows_emit_trans)
  ultimately show ?thesis by (rule later_trans)
qed simp

lemma later_update [simp]:
  "later (d\<lparr>dm_store := st\<rparr>) d' = later d d'" "later d (d'\<lparr>dm_store := st\<rparr>) = later d d'"
  "later (d\<lparr>dm_acquireInFlight := n\<rparr>) d' = later d d'" "later d (d'\<lparr>dm_acquireInFlight := n\<rparr>) = later d d'"
  by (simp_all add: later_def)

lemma tick_later:
  assumes "reaper_tick g os trm now r d = (go, r', d')"
  shows "later d d'"
proof -
  let ?d1 = "d\<lparr>dm_store := gc now (dm_store d)\<rparr>"
  let ?d2 = "snd (stopSUTOnly g os Background ?d1)"
  have "d' \<in> {?d1, ?d2, shutdownServer g os trm Background ?d1, shutdownServer g os trm Background ?d2}"
    using assms by (auto simp: reaper_tick_def Let_def split: if_splits)
  moreover have "later ?d1 ?d2" by (rule stopSUT_later)
  moreover have "later ?d1 (shutdownServer g os trm Background ?d2)"
    by (rule later_trans [OF stopSUT_later shutdown_later])
  moreover have "later ?d1 (shutdownServer g os trm Background ?d1)" by (rule shutdown_later)
  ultimately have "later ?d1 d'" by auto
  then show ?thesis by simp
qed

lemma acquire_body_later:
  "acquire_body g os trm sched ctx rd now answered rq d = Some (resp, d') \<Longrightarrow> later d d'"
  by (auto simp: acquire_body_def split: sum.splits option.splits prod.splits
      dest!: ensureInfra_later ensureSUT_later intro: later_trans)

lemma handler_later:
  "handleAcquire g os trm sched ctx rd now answered rq1 d = Some (resp, d') \<Longrightarrow> later d d'"
  "handleHeartbeat now rq2 d = Some (resp, d') \<Longrightarrow> later d d'"
  "handleRelease rq3 d = Some (resp, d') \<Longrightarrow> later d d'"
  "handleState os now rq4 d = Some (resp, d') \<Longrightarrow> later d d'"
proof -
  show "handleAcquire g os trm sched ctx rd now answered rq1 d = Some (resp, d') \<Longrightarrow> later d d'"
    by (erule handleAcquire_cases) (auto simp: later_def dest!: acquire_body_later)
qed (auto simp: handleHeartbeat_def handleRelease_def handleState_def snapshot_def later_def Let_def
    split: if_splits sum.splits prod.splits bool.splits dest: isRunning_grows)

lemma serve_later: "serve w sched ctx rd now answered wr d = Some (resp, d') \<Longrightarrow> later d d'"
  by (auto simp: serve_def withAuth_def Let_def split: if_splits dest: handler_later)

lemma serial_step_later: "serial_step w a sv = Some sv' \<Longrightarrow> later (sv_daemon sv) (sv_daemon sv')"
  by (cases "(w, a, sv)" rule: serial_step.cases)
    (auto split: if_splits option.splits prod.splits dest: serve_later tick_later intro: shutdown_later)

lemma run_later: "run_steps (serial_step w) xs sv = Some sv' \<Longrightarrow> later (sv_daemon sv) (sv_daemon sv')"
  by (induction xs arbitrary: sv) (auto split: option.splits intro: later_trans [OF serial_step_later])

lemma run_ok:
  assumes "run_steps (serial_step w) xs sv = Some sv'" "daemon_ok (sv_daemon sv)" "list_all input_quiet xs"
    and "ContextCancelled \<notin> set (sys_log (dm_sys (sv_daemon sv')))"
  shows "daemon_ok (sv_daemon sv')"
  using assms
proof (induction xs arbitrary: sv)
  case (Cons a xs)
  then obtain t where t: "serial_step w a sv = Some t" "run_steps (serial_step w) xs t = Some sv'"
    by (auto split: option.splits)
  have "set (sys_log (dm_sys (sv_daemon t))) \<subseteq> set (sys_log (dm_sys (sv_daemon sv')))"
    using run_later [OF t(2)] by (auto simp: later_def grows_def suffix_def)
  then have "ContextCancelled \<notin> set (sys_log (dm_sys (sv_daemon t)))" using Cons.prems(4) by blast
  moreover have "input_quiet a" "list_all input_quiet xs" using Cons.prems(3) by simp_all
  ultimately show ?case using Cons.IH [OF t(2)] serial_step_ok [OF t(1) Cons.prems(2)] Cons.prems(4) by blast
qed simp

lemma daemon_New_ok:
  assumes "daemon_New tmp nano now cfg regs s = Inr d" "unsettled_pids (sys_log s) = {}"
  shows "daemon_ok d \<and> \<not> dm_infraStarted d \<and> \<not> dm_done d \<and> dm_sys d = s"
proof -
  from assms(1) obtain b where b: "NewBundle regs = Inr b" and d: "dm_bundle d = b" "dm_store d = newLeaseStore"
    "dm_sut d = newSUTManager (dc_SUT (with_defaults tmp nano cfg))" "\<not> dm_infraStarted d" "\<not> dm_done d"
    "dm_acquireInFlight d = 0" "dm_sys d = s"
    by (auto simp: daemon_New_def Let_def split: sum.splits)
  with bundle_ok_NewBundle [OF b] assms(2) show ?thesis
    by (simp add: daemon_ok_def newSUTManager_def sut_ok_dead)
qed

end
