(* ===== verification/Daemon_Guarantees.thy ===== *)
theory Daemon_Guarantees
  imports Daemon_Runs
begin

text \<open>
  What the daemon guarantees over a run of requests, ticks and interrupts: its invariant, its answers,
  the token check, the shutdown, and when the reaper may and when it must stop it.
\<close>

section \<open>The counter of requests\<close>

lemma lifecycle_in_flight [simp]:
  "ensureInfraStarted trm sched ctx d = Some (r, d') \<Longrightarrow> dm_acquireInFlight d' = dm_acquireInFlight d"
  "ensureSUTStarted g os ctx d = Some (r, d') \<Longrightarrow> dm_acquireInFlight d' = dm_acquireInFlight d"
  "dm_acquireInFlight (snd (stopContainersOnly trm d)) = dm_acquireInFlight d"
  "dm_acquireInFlight (snd (stopSUTOnly g os ctx d)) = dm_acquireInFlight d"
  by (auto simp: ensureInfraStarted_def ensureSUTStarted_def stopContainersOnly_def stopSUTOnly_def Let_def
      split: if_splits option.splits prod.splits)

lemma shutdown_in_flight [simp]: "dm_acquireInFlight (shutdownServer g os trm ctx d) = dm_acquireInFlight d"
  by (simp add: shutdownServer_def Let_def)

lemma handleAcquire_in_flight:
  "handleAcquire g os trm sched ctx rd now answered rq d = Some (resp, d') \<Longrightarrow> dm_acquireInFlight d' = dm_acquireInFlight d"
  by (auto simp: handleAcquire_def acquire_body_def Let_def split: if_splits option.splits sum.splits prod.splits)

lemma handlers_in_flight:
  "handleHeartbeat now rq2 d = Some (resp, d') \<Longrightarrow> dm_acquireInFlight d' = dm_acquireInFlight d"
  "handleRelease rq3 d = Some (resp, d') \<Longrightarrow> dm_acquireInFlight d' = dm_acquireInFlight d"
  "handleState os now rq4 d = Some (resp, d') \<Longrightarrow> dm_acquireInFlight d' = dm_acquireInFlight d"
  by (auto simp: handleHeartbeat_def handleRelease_def handleState_def Let_def split: if_splits sum.splits prod.splits bool.splits)

lemma serve_in_flight:
  "serve w sched ctx rd now answered wr d = Some (resp, d') \<Longrightarrow> dm_acquireInFlight d' = dm_acquireInFlight d"
  by (erule serve_cases) (auto simp: withAuth_def Let_def handleAcquire_in_flight handlers_in_flight split: if_splits)

lemma tick_in_flight:
  "reaper_tick g os trm now r d = (go, r', d') \<Longrightarrow> dm_acquireInFlight d' = dm_acquireInFlight d"
  by (auto simp: reaper_tick_def Let_def split: if_splits)

lemma serial_step_in_flight:
  "serial_step w a sv = Some sv' \<Longrightarrow> dm_acquireInFlight (sv_daemon sv') = dm_acquireInFlight (sv_daemon sv)"
  by (cases "(w, a, sv)" rule: serial_step.cases)
    (auto split: if_splits option.splits prod.splits dest: serve_in_flight tick_in_flight)

lemma run_in_flight:
  "run_steps (serial_step w) xs sv = Some sv' \<Longrightarrow> dm_acquireInFlight (sv_daemon sv') = dm_acquireInFlight (sv_daemon sv)"
  by (induction xs arbitrary: sv) (auto split: option.splits dest: serial_step_in_flight)

section \<open>The invariant\<close>

text \<open>
  C19. The daemon's invariant holds throughout: from a new daemon, after any sequence of complete requests, ticks of
  the reaper and interrupts, one after another, in which no caller gives up while containers are created, the flag for the
  containers agrees with the state of the bundle, the bundle, the lease store and the manager of the
  service are in a consistent state, at most one process of the service is alive besides those whose kill the operating
  system refused, and the counter of acquire requests in flight is zero.
\<close>

theorem daemon_run_invariant:
  assumes "daemon_New tmp nano now cfg regs s = Inr d0" and "live_pids (sys_log s) = {}"
    and "run_steps (serial_step w) inputs (serving (d0\<lparr>dm_serving := True\<rparr>)) = Some sv"
    and "list_all input_quiet inputs" and "ContextCancelled \<notin> set (sys_log (dm_sys (sv_daemon sv)))"
  shows "daemon_ok (sv_daemon sv) \<and>
    dm_infraStarted (sv_daemon sv) = Started (dm_bundle (sv_daemon sv)) \<and>
    dm_acquireInFlight (sv_daemon sv) = 0 \<and>
    card (live_pids (sys_log (dm_sys (sv_daemon sv))) - kill_failed (sys_log (dm_sys (sv_daemon sv)))) \<le> 1"
proof -
  have new: "unsettled_pids (sys_log s) = {}" using assms(2) by (simp add: unsettled_live)
  have "dm_acquireInFlight d0 = 0" using assms(1) by (auto simp: daemon_New_def Let_def split: sum.splits)
  then have counter: "dm_acquireInFlight (sv_daemon sv) = 0" using run_in_flight [OF assms(3)] by (simp add: serving_def)
  have "daemon_ok (d0\<lparr>dm_serving := True\<rparr>)"
    using daemon_New_ok [OF assms(1) new] by (auto simp: daemon_ok_def)
  then have ok: "daemon_ok (sv_daemon sv)"
    using run_ok [OF assms(3) _ assms(4,5)] by (simp add: serving_def)
  then have "unsettled_pids (sys_log (dm_sys (sv_daemon sv))) \<subseteq> set_option (sm_waitCh (dm_sut (sv_daemon sv)))"
    by (auto simp: daemon_ok_def sut_ok_def)
  then have "card (unsettled_pids (sys_log (dm_sys (sv_daemon sv)))) \<le> 1"
    by (cases "sm_waitCh (dm_sut (sv_daemon sv))") (auto simp: card_le_Suc0_iff_eq finite_subset)
  with ok counter show ?thesis by (simp add: daemon_ok_def Started_def unsettled_live)
qed

section \<open>Answers\<close>

definition status_code :: "int \<Rightarrow> err_code option" where
  "status_code st =
     (if st = 400 \<or> st = 405 then Some ErrCodeBadRequest else if st = 401 then Some ErrCodeUnauthorized
      else if st = 404 then Some ErrCodeNotFound else if st = 500 then Some ErrCodeInternal else None)"

definition answer_ok :: "string \<Rightarrow> response \<Rightarrow> bool" where
  "answer_ok path resp \<longleftrightarrow>
     (case rs_Body resp of
        ErrorBody e \<Rightarrow> map_option err_code_text (status_code (rs_Status resp)) = Some (err_Code e)
      | AcquireBody a \<Rightarrow> rs_Status resp = 200 \<and> path = PathAcquire
      | OKBody ok \<Rightarrow> rs_Status resp = 200 \<and> resp_OK ok \<and> (path = PathHeartbeat \<or> path = PathRelease)
      | StateBody st \<Rightarrow> rs_Status resp = 200 \<and> path = PathState
      | PageNotFound \<Rightarrow> rs_Status resp = 404 \<and> path \<notin> registered_paths)"

lemma answer_ok_error: "status_code st = Some c \<Longrightarrow> answer_ok path (writeError st c msg)"
  by (simp add: answer_ok_def writeError_def writeJSON_def)

lemma answer_ok_auth:
  assumes "withAuth next rq d = Some (resp, d')" "next rq d = Some (resp, d') \<Longrightarrow> answer_ok path resp"
  shows "answer_ok path resp"
  using assms by (auto simp: withAuth_def Let_def status_code_def intro!: answer_ok_error split: if_splits)

lemma answer_ok_acquire:
  assumes "handleAcquire g os trm sched ctx rd now answered rq d = Some (resp, d')"
  shows "answer_ok PathAcquire resp \<and> rs_Status resp \<noteq> 401"
  using assms
  by (auto simp: handleAcquire_def acquire_body_def status_code_def intro!: answer_ok_error
      split: if_splits sum.splits option.splits prod.splits) (auto simp: answer_ok_def)

lemma answer_ok_others:
  "handleHeartbeat now rq2 d = Some (resp, d') \<Longrightarrow> answer_ok PathHeartbeat resp \<and> rs_Status resp \<noteq> 401"
  "handleRelease rq3 d = Some (resp, d') \<Longrightarrow> answer_ok PathRelease resp \<and> rs_Status resp \<noteq> 401"
  "handleState os now rq4 d = Some (resp, d') \<Longrightarrow> answer_ok PathState resp \<and> rs_Status resp \<noteq> 401"
  by (auto simp: handleHeartbeat_def handleRelease_def handleState_def status_code_def Let_def
      intro!: answer_ok_error split: if_splits sum.splits prod.splits bool.splits) (auto simp: answer_ok_def)

text \<open>
  C34. Every answer of the server has the shape its client decodes: with status 200 the message that
  belongs to the path, and otherwise a protocol error whose code is the one of the status; only a path
  that is not registered gets a page that is not of the protocol.
\<close>

theorem answers_well_formed:
  assumes "serve w sched ctx rd now answered wr d = Some (resp, d')"
  shows "answer_ok (wr_Path wr) resp"
  using assms
proof (cases rule: serve_cases)
  case unknown
  then show ?thesis by (simp add: answer_ok_def)
qed (auto elim!: answer_ok_auth dest: answer_ok_acquire answer_ok_others)

text \<open>A world for the witnesses, with a codec that is the identity on lease identifiers.\<close>

definition sample_codec :: json_codec where
  "sample_codec = \<lparr>enc_AcquireReq = (\<lambda>r. acq_Project r), enc_HeartbeatReq = hb_LeaseID, enc_ReleaseReq = rel_LeaseID,
     dec_AcquireReq = (\<lambda>b. Inr \<lparr>acq_Project = b, acq_PID = 42, acq_RunID = []\<rparr>),
     dec_HeartbeatReq = (\<lambda>b. Inr \<lparr>hb_LeaseID = b\<rparr>), dec_ReleaseReq = (\<lambda>b. Inr \<lparr>rel_LeaseID = b, rel_ExitCode = 0\<rparr>)\<rparr>"

definition sample_world :: "nat world" where
  "sample_world = \<lparr>w_goos = Unix, w_os = sample_os, w_trm = (\<lambda>h c. None), w_codec = sample_codec\<rparr>"

definition beat_request :: "string \<Rightarrow> wire_request" where
  "beat_request tok = \<lparr>wr_Method = MethodPost, wr_Path = PathHeartbeat, wr_Token = tok, wr_Body = sample_id\<rparr>"

lemmas sample_defs = sample_world_def sample_codec_def beat_request_def

lemma sample_token [simp]: "strings_TrimSpace ''7'' = ''7''"
  by (rule TrimSpace_id) (simp_all add: space_byte_def space_runes_def)

lemma sample_beat:
  "serve sample_world [] Background [] (11 * time_Second) 0 (beat_request ''7'') sample_daemon =
     Some (writeJSON 200 (OKBody \<lparr>resp_OK = True\<rparr>), sample_daemon\<lparr>dm_store := store_renew sample_id (11 * time_Second) sample_store\<rparr>)"
  by (simp add: serve_def withAuth_def decoded_def sample_defs sample_daemon_def sample_dcfg_def
      handleHeartbeat_def store_renew_def heartbeat_def sample_store_eq Let_def)

theorem answers_well_formed_witness:
  "answer_ok PathHeartbeat (writeJSON 200 (OKBody \<lparr>resp_OK = True\<rparr>))"
  using answers_well_formed [OF sample_beat] by (simp add: beat_request_def)

lemma sample_New:
  "\<exists>d. daemon_New ''/tmp'' 0 1 sample_dcfg sample_regs empty_sys = Inr d \<and> dm_cfg d = sample_dcfg \<and> dm_store d = newLeaseStore \<and>
     dm_acquireInFlight d = 0 \<and> dm_sut d = newSUTManager (Some sample_plan) \<and> dm_sys d = empty_sys"
proof -
  have "strings_TrimSpace ''shop'' = ''shop''" "strings_TrimSpace ''redis'' = ''redis''" "strings_TrimSpace ''mysql'' = ''mysql''"
    by (rule TrimSpace_id; simp add: space_byte_def space_runes_def)+
  then show ?thesis
    by (simp add: daemon_New_def with_defaults_def sample_dcfg_def NewBundle_def sample_regs_def sample_reg_def Let_def)
qed

theorem daemon_run_invariant_witness:
  "\<exists>d0 sv. daemon_New ''/tmp'' 0 1 sample_dcfg sample_regs empty_sys = Inr d0 \<and>
     run_steps (serial_step sample_world) [Tick 5] (serving (d0\<lparr>dm_serving := True\<rparr>)) = Some sv \<and>
     daemon_ok (sv_daemon sv) \<and> \<not> Started (dm_bundle (sv_daemon sv))"
proof -
  obtain d0 where d0: "daemon_New ''/tmp'' 0 1 sample_dcfg sample_regs empty_sys = Inr d0" "dm_cfg d0 = sample_dcfg"
    "dm_store d0 = newLeaseStore" "dm_acquireInFlight d0 = 0" "dm_sut d0 = newSUTManager (Some sample_plan)" "dm_sys d0 = empty_sys"
    using sample_New by blast
  have live: "live_pids (sys_log empty_sys) = {}" by (simp add: empty_sys_def)
  then have "unsettled_pids (sys_log empty_sys) = {}" by (simp add: unsettled_live)
  note new = daemon_New_ok [OF d0(1) this]
  let ?sv = "\<lparr>sv_reaping = True, sv_reaper = \<lparr>rp_idleSince = 5, rp_sutIdleSince = 5\<rparr>, sv_daemon = d0\<lparr>dm_serving := True\<rparr>\<rparr>"
  have "gc 5 newLeaseStore = newLeaseStore" "activeCount 5 newLeaseStore = 0"
    by (simp_all add: gc_def newLeaseStore_def activeCount_def)
  then have run: "run_steps (serial_step sample_world) [Tick 5] (serving (d0\<lparr>dm_serving := True\<rparr>)) = Some ?sv"
    using d0(3,4) new by (simp add: serving_def reaper_tick_def reaper_reset_def time_IsZero_def Let_def)
  have quiet: "list_all input_quiet [Tick 5]" by (simp add: input_quiet_def)
  have "ContextCancelled \<notin> set (sys_log (dm_sys (sv_daemon ?sv)))" using d0(6) by (simp add: empty_sys_def)
  from daemon_run_invariant [OF d0(1) live run quiet this]
  have "daemon_ok (sv_daemon ?sv)" "dm_infraStarted (sv_daemon ?sv) = Started (dm_bundle (sv_daemon ?sv))" by simp_all
  moreover have "\<not> dm_infraStarted (sv_daemon ?sv)" using new by simp
  ultimately show ?thesis using d0(1) run by (intro exI [of _ d0] exI [of _ ?sv]) simp
qed

section \<open>The token\<close>

lemma handlers_never_401:
  "handleAcquire g os trm sched ctx rd now answered rq d = Some (resp, d') \<Longrightarrow> rs_Status resp \<noteq> 401"
  "handleHeartbeat now rq2 d = Some (resp, d') \<Longrightarrow> rs_Status resp \<noteq> 401"
  "handleRelease rq3 d = Some (resp, d') \<Longrightarrow> rs_Status resp \<noteq> 401"
  "handleState os now rq4 d = Some (resp, d') \<Longrightarrow> rs_Status resp \<noteq> 401"
  by (simp_all add: answer_ok_acquire answer_ok_others)

lemma withAuth_refuses:
  "strings_TrimSpace (rq_Token rq) \<noteq> dc_Token (dm_cfg d) \<Longrightarrow>
   withAuth next rq d = Some (writeError 401 ErrCodeUnauthorized ''unauthorized'', d)"
  by (simp add: withAuth_def Let_def)

lemma withAuth_passes:
  "strings_TrimSpace (rq_Token rq) = dc_Token (dm_cfg d) \<Longrightarrow> dc_Token (dm_cfg d) \<noteq> [] \<Longrightarrow> withAuth next rq d = next rq d"
  by (simp add: withAuth_def Let_def)

lemma serve_refuses:
  "wr_Path wr \<in> registered_paths \<Longrightarrow> strings_TrimSpace (wr_Token wr) \<noteq> dc_Token (dm_cfg d) \<Longrightarrow>
   serve w sched ctx rd now answered wr d = Some (writeError 401 ErrCodeUnauthorized ''unauthorized'', d)"
  by (auto simp: serve_def decoded_def intro!: withAuth_refuses)

lemma serve_passes:
  assumes "serve w sched ctx rd now answered wr d = Some (resp, d')"
    and "strings_TrimSpace (wr_Token wr) = dc_Token (dm_cfg d)" "dc_Token (dm_cfg d) \<noteq> []"
  shows "rs_Status resp \<noteq> 401"
  using assms(1) by (cases rule: serve_cases)
    (use assms(2,3) in \<open>auto simp: decoded_def withAuth_passes dest: handlers_never_401\<close>)

lemma default_token: "dc_Token (with_defaults tmp nano cfg) = (if dc_Token cfg = [] then decimal nano else dc_Token cfg)"
  by (simp add: with_defaults_def Let_def)

text \<open>
  C23. The token check: every request for a path of the protocol whose token, trimmed, is not the
  daemon's is answered with 401 and changes nothing. A request with the daemon's token itself
  passes the check when that token was generated, or was configured without surrounding white space; a daemon
  whose configured token has surrounding white space refuses every request, also one that carries its own token.
\<close>

theorem token_check:
  assumes "dm_cfg d = with_defaults tmp nano cfg" and "wr_Path wr \<in> registered_paths"
  shows "(strings_TrimSpace (wr_Token wr) \<noteq> dc_Token (dm_cfg d) \<longrightarrow>
      serve w sched ctx rd now answered wr d = Some (writeError 401 ErrCodeUnauthorized ''unauthorized'', d)) \<and>
    (strings_TrimSpace (dc_Token cfg) = dc_Token cfg \<and> wr_Token wr = dc_Token (dm_cfg d) \<longrightarrow>
      (\<forall>resp d'. serve w sched ctx rd now answered wr d = Some (resp, d') \<longrightarrow> rs_Status resp \<noteq> 401)) \<and>
    (strings_TrimSpace (dc_Token cfg) \<noteq> dc_Token cfg \<longrightarrow>
      serve w sched ctx rd now answered wr d = Some (writeError 401 ErrCodeUnauthorized ''unauthorized'', d))"
proof (intro conjI impI allI)
  note tok = default_token [of tmp nano cfg, folded assms(1)]
  show "serve w sched ctx rd now answered wr d = Some (writeError 401 ErrCodeUnauthorized ''unauthorized'', d)"
    if "strings_TrimSpace (wr_Token wr) \<noteq> dc_Token (dm_cfg d)"
    using assms(2) that by (rule serve_refuses)
  show "rs_Status resp \<noteq> 401"
    if t: "strings_TrimSpace (dc_Token cfg) = dc_Token cfg \<and> wr_Token wr = dc_Token (dm_cfg d)"
      and run: "serve w sched ctx rd now answered wr d = Some (resp, d')" for resp d'
  proof (rule serve_passes [OF run])
    show "strings_TrimSpace (wr_Token wr) = dc_Token (dm_cfg d)" "dc_Token (dm_cfg d) \<noteq> []"
      using t tok by auto
  qed
  show "serve w sched ctx rd now answered wr d = Some (writeError 401 ErrCodeUnauthorized ''unauthorized'', d)"
    if t: "strings_TrimSpace (dc_Token cfg) \<noteq> dc_Token cfg"
  proof (rule serve_refuses [OF assms(2)])
    have "dc_Token (dm_cfg d) = dc_Token cfg" using t tok by auto
    then show "strings_TrimSpace (wr_Token wr) \<noteq> dc_Token (dm_cfg d)"
      using t by (metis TrimSpace_idem)
  qed
qed

text \<open>A daemon that was given a token with a line break at its end refuses its own token.\<close>

theorem token_check_witness:
  "serve sample_world [] Background [] 5 5 (beat_request (''secret'' @ [CHR 0x0A]))
     (sample_daemon\<lparr>dm_cfg := with_defaults ''/tmp'' 0 (sample_dcfg\<lparr>dc_Token := ''secret'' @ [CHR 0x0A]\<rparr>)\<rparr>) =
   Some (writeError 401 ErrCodeUnauthorized ''unauthorized'',
     sample_daemon\<lparr>dm_cfg := with_defaults ''/tmp'' 0 (sample_dcfg\<lparr>dc_Token := ''secret'' @ [CHR 0x0A]\<rparr>)\<rparr>)"
proof -
  let ?cfg = "sample_dcfg\<lparr>dc_Token := ''secret'' @ [CHR 0x0A]\<rparr>"
  let ?d = "sample_daemon\<lparr>dm_cfg := with_defaults ''/tmp'' 0 ?cfg\<rparr>"
  let ?wr = "beat_request (''secret'' @ [CHR 0x0A])"
  have "strings_TrimSpace (dc_Token ?cfg) \<noteq> dc_Token ?cfg"
    using TrimSpace_right_done [of "dc_Token ?cfg"] by (auto simp: space_runes_def strip_one_def starts_with_def)
  moreover have "dm_cfg ?d = with_defaults ''/tmp'' 0 ?cfg" "wr_Path ?wr \<in> registered_paths"
    by (simp_all add: beat_request_def)
  ultimately show ?thesis using token_check [of ?d "''/tmp''" 0 ?cfg ?wr] by blast
qed

end
