(* ===== verification/Daemon_Reaper.thy ===== *)
theory Daemon_Reaper
  imports Daemon_Guarantees
begin

text \<open>
  The end of a daemon: what the shutdown does, that the reaper starts it only after the idle time, that
  it starts it when nobody comes, and that a lease under its heartbeats keeps the environment.
\<close>

section \<open>The shutdown\<close>

text \<open>
  C6. The shutdown takes the environment down in order: first the service is stopped (no process of it is alive then, except
  one whose kill the operating system refused), then every container of the bundle is terminated, last started first, then the server is shut down and the
  runtime file removed. A second shutdown does nothing.
\<close>

theorem shutdown_in_order:
  assumes "daemon_ok d" and "\<not> dm_done d"
  shows "\<exists>cont mid. sys_log (dm_sys (shutdownServer g os trm ctx d)) =
      RuntimeRemoved (dm_runtimePath d) # (if dm_serving d then [ServerShutdown] else []) @ cont @ mid \<and>
    terminated mid = terminated (sys_log (dm_sys d)) \<and> (isEnabled (dm_sut d) \<longrightarrow> live_pids mid \<subseteq> kill_failed mid) \<and>
    only_terminates cont \<and> terminated cont = (if dm_infraStarted d then somes (bd_cleanup (dm_bundle d)) else []) \<and>
    shutdownServer g os trm ctx' (shutdownServer g os trm ctx d) = shutdownServer g os trm ctx d"
proof -
  define d' where "d' = shutdownServer g os trm ctx d"
  from shutdown_spec [OF assms d'_def] have "dm_done d'" and
    "\<exists>cont mid. sys_log (dm_sys d') =
         RuntimeRemoved (dm_runtimePath d) # (if dm_serving d then [ServerShutdown] else []) @ cont @ mid \<and>
       terminated mid = terminated (sys_log (dm_sys d)) \<and> (isEnabled (dm_sut d) \<longrightarrow> unsettled_pids mid = {}) \<and>
       only_terminates cont \<and> terminated cont = (if dm_infraStarted d then somes (bd_cleanup (dm_bundle d)) else [])"
    by blast+
  then show ?thesis unfolding d'_def [symmetric] unsettled_empty by simp
qed

theorem shutdown_in_order_witness:
  "\<exists>cont mid. sys_log (dm_sys (shutdownServer Unix sample_os (\<lambda>h c. None) Background sample_daemon)) =
      RuntimeRemoved ''/tmp/tcd/shop/runtime.json'' # ServerShutdown # cont @ mid \<and> terminated cont = [1, 2] \<and> terminated mid = []"
proof -
  have "\<not> dm_done sample_daemon" by (simp add: sample_daemon_def)
  from shutdown_in_order [OF sample_daemon_ok this, of Unix sample_os "\<lambda>h c. None" Background Background] show ?thesis
    by (simp add: sample_daemon_def up_bundle_def empty_sys_def) metis
qed

section \<open>The timers\<close>

text \<open>What the reaper looks at, and what it may touch besides.\<close>

definition idle_at :: "go_time \<Rightarrow> 'c Daemon \<Rightarrow> bool" where
  "idle_at now d \<longleftrightarrow> \<not> 0 < activeCount now (gc now (dm_store d)) \<and> \<not> 0 < dm_acquireInFlight d"

lemma stopSUT_frame [simp]:
  "dm_done (snd (stopSUTOnly g os ctx d)) = dm_done d" "dm_cfg (snd (stopSUTOnly g os ctx d)) = dm_cfg d"
  "dm_store (snd (stopSUTOnly g os ctx d)) = dm_store d"
  by (simp_all add: stopSUTOnly_def split: prod.split)

lemma stopContainers_frame [simp]:
  "dm_done (snd (stopContainersOnly trm d)) = dm_done d" "dm_cfg (snd (stopContainersOnly trm d)) = dm_cfg d"
  "dm_store (snd (stopContainersOnly trm d)) = dm_store d"
  by (simp_all add: stopContainersOnly_def Let_def split: prod.split option.split)

lemma shutdown_frame [simp]:
  "dm_done (shutdownServer g os trm ctx d)" "dm_cfg (shutdownServer g os trm ctx d) = dm_cfg d"
  "dm_store (shutdownServer g os trm ctx d) = dm_store d"
  by (simp_all add: shutdownServer_def Let_def)

lemma tick_frame:
  "reaper_tick g os trm now r d = (go, r', d') \<Longrightarrow> dm_cfg d' = dm_cfg d \<and> (dm_done d \<longrightarrow> dm_done d')"
  by (simp add: reaper_tick_def Let_def split: if_splits) auto

lemma tick_timers:
  assumes "reaper_tick g os trm now r d = (go, r', d')" "\<not> dm_done d"
  shows "dm_cfg d' = dm_cfg d \<and> (dm_done d' \<longleftrightarrow> \<not> go) \<and>
    (\<not> idle_at now d \<longrightarrow> go \<and> rp_idleSince r' = 0) \<and>
    (idle_at now d \<longrightarrow>
       (if rp_idleSince r = 0 then go \<and> rp_idleSince r' = now
        else rp_idleSince r' = rp_idleSince r \<and> (\<not> go \<longleftrightarrow> dc_IdleTTL (dm_cfg d) \<le> time_Sub now (rp_idleSince r))))"
proof (cases "idle_at now d")
  case False
  then have "(go, r', d') = (True, reaper_reset, d\<lparr>dm_store := gc now (dm_store d)\<rparr>)"
    using assms(1) tick_busy [of now d] by (auto simp: idle_at_def)
  with False assms(2) show ?thesis by (simp add: reaper_reset_def)
next
  case True
  then have idle: "\<not> 0 < activeCount now (gc now (dm_store d))" "\<not> 0 < dm_acquireInFlight d" by (simp_all add: idle_at_def)
  define d0 where "d0 = d\<lparr>dm_store := gc now (dm_store d)\<rparr>"
  define p where "p = (if time_IsZero (rp_sutIdleSince r) then (r\<lparr>rp_sutIdleSince := now\<rparr>, d0)
                else if idleTTL (dm_sut d0) \<le> time_Sub now (rp_sutIdleSince r)
                then (r, snd (stopSUTOnly g os Background d0)) else (r, d0))"
  obtain r1 d1 where p: "p = (r1, d1)" by fastforce
  then have r1: "rp_idleSince r1 = rp_idleSince r" and d1: "dm_done d1 = dm_done d" "dm_cfg d1 = dm_cfg d"
    by (auto simp: p_def d0_def split: if_splits)
  have "(go, r', d') = (if time_IsZero (rp_idleSince r1) then (True, r1\<lparr>rp_idleSince := now\<rparr>, d1)
              else if dc_IdleTTL (dm_cfg d1) \<le> time_Sub now (rp_idleSince r1)
              then (False, r1, shutdownServer g os trm Background d1) else (True, r1, d1))"
    using assms(1) idle p unfolding p_def d0_def by (simp add: reaper_tick_def Let_def)
  with True r1 d1 assms(2) show ?thesis by (auto simp: time_IsZero_def split: if_splits)
qed

lemma ensure_frame:
  "ensureInfraStarted trm sched ctx d = Some (r, d') \<Longrightarrow> dm_done d' = dm_done d \<and> dm_cfg d' = dm_cfg d"
  "ensureSUTStarted g os ctx d = Some (r, d') \<Longrightarrow> dm_done d' = dm_done d \<and> dm_cfg d' = dm_cfg d"
  by (auto simp: ensureInfraStarted_def ensureSUTStarted_def Let_def split: if_splits option.splits)

lemma handler_frame:
  "handleAcquire g os trm sched ctx rd now answered rq1 d = Some (resp, d') \<Longrightarrow> dm_done d' = dm_done d \<and> dm_cfg d' = dm_cfg d"
  "handleHeartbeat now rq2 d = Some (resp, d') \<Longrightarrow> dm_done d' = dm_done d \<and> dm_cfg d' = dm_cfg d"
  "handleRelease rq3 d = Some (resp, d') \<Longrightarrow> dm_done d' = dm_done d \<and> dm_cfg d' = dm_cfg d"
  "handleState os now rq4 d = Some (resp, d') \<Longrightarrow> dm_done d' = dm_done d \<and> dm_cfg d' = dm_cfg d"
proof -
  have body: "acquire_body g os trm sched ctx rd now answered rq e = Some (resp, d') \<Longrightarrow> dm_done d' = dm_done e \<and> dm_cfg d' = dm_cfg e"
    for rq e d' by (auto simp: acquire_body_def Let_def split: sum.splits option.splits prod.splits dest!: ensure_frame)
  show "handleAcquire g os trm sched ctx rd now answered rq1 d = Some (resp, d') \<Longrightarrow> dm_done d' = dm_done d \<and> dm_cfg d' = dm_cfg d"
    by (erule handleAcquire_cases) (auto dest!: body)
qed (auto simp: handleHeartbeat_def handleRelease_def handleState_def Let_def split: if_splits sum.splits prod.splits bool.splits)

lemma serve_frame:
  "serve w sched ctx rd now answered wr d = Some (resp, d') \<Longrightarrow> dm_done d' = dm_done d \<and> dm_cfg d' = dm_cfg d"
  by (erule serve_cases) (auto simp: withAuth_def Let_def split: if_splits dest: handler_frame)

section \<open>The daemon is not stopped too early\<close>

text \<open>At every tick in \<open>zs\<close>, which comes after \<open>ys\<close> in a run from \<open>sv0\<close>, the daemon is idle.\<close>

definition idle_ticks :: "'c world \<Rightarrow> 'c server \<Rightarrow> 'c input list \<Rightarrow> 'c input list \<Rightarrow> bool" where
  "idle_ticks w sv0 ys zs \<longleftrightarrow>
     (\<forall>pre t post. zs = pre @ Tick t # post \<longrightarrow>
        (\<exists>s1. run_steps (serial_step w) (ys @ pre) sv0 = Some s1 \<and> idle_at t (sv_daemon s1)))"

lemma idle_ticks_snoc:
  assumes "idle_ticks w sv0 ys zs"
    and "\<And>t. a = Tick t \<Longrightarrow> \<exists>s1. run_steps (serial_step w) (ys @ zs) sv0 = Some s1 \<and> idle_at t (sv_daemon s1)"
  shows "idle_ticks w sv0 ys (zs @ [a])"
  unfolding idle_ticks_def
proof (intro allI impI)
  fix pre t post
  assume eq: "zs @ [a] = pre @ Tick t # post"
  show "\<exists>s1. run_steps (serial_step w) (ys @ pre) sv0 = Some s1 \<and> idle_at t (sv_daemon s1)"
  proof (cases post rule: rev_cases)
    case Nil
    with eq assms(2) [of t] show ?thesis by simp
  next
    case (snoc post' b)
    with eq have "zs = pre @ Tick t # post'" by simp
    with assms(1) show ?thesis by (simp add: idle_ticks_def)
  qed
qed

lemma done_stays: "serial_step w a sv = Some sv' \<Longrightarrow> dm_done (sv_daemon sv) \<Longrightarrow> dm_done (sv_daemon sv')"
  by (cases a) (auto dest: tick_frame split: if_splits prod.splits)

lemma tick_total: "\<exists>sv'. serial_step w (Tick now) sv = Some sv'"
  by (cases "reaper_tick (w_goos w) (w_os w) (w_trm w) now (sv_reaper sv) (sv_daemon sv)" rule: prod_cases3) simp

lemma serial_step_cfg: "serial_step w a sv = Some sv' \<Longrightarrow> dm_cfg (sv_daemon sv') = dm_cfg (sv_daemon sv)"
  by (cases "(w, a, sv)" rule: serial_step.cases)
    (auto split: if_splits option.splits prod.splits dest: serve_frame tick_frame)

lemma reaper_memory:
  assumes "run_steps (serial_step w) xs sv0 = Some sv" "sv_reaping sv0" "rp_idleSince (sv_reaper sv0) = 0"
    and "\<not> dm_done (sv_daemon sv)"
  shows "sv_reaping sv \<and> dm_cfg (sv_daemon sv) = dm_cfg (sv_daemon sv0) \<and>
    (rp_idleSince (sv_reaper sv) \<noteq> 0 \<longrightarrow>
      (\<exists>ys zs. xs = ys @ Tick (rp_idleSince (sv_reaper sv)) # zs \<and> idle_ticks w sv0 ys (Tick (rp_idleSince (sv_reaper sv)) # zs)))"
  using assms(1,4)
proof (induction xs arbitrary: sv rule: rev_induct)
  case Nil
  with assms(2,3) show ?case by simp
next
  case (snoc a xs)
  then obtain s1 where s1: "run_steps (serial_step w) xs sv0 = Some s1" "serial_step w a s1 = Some sv"
    by (auto simp: run_steps_append split: option.splits)
  with snoc.prems(2) have nd: "\<not> dm_done (sv_daemon s1)" using done_stays by blast
  note ih = snoc.IH [OF s1(1) nd]
  show ?case
  proof (cases a)
    case (Request wr sched ctx rd now answered)
    with s1(2) nd have "sv_reaping sv = sv_reaping s1" "sv_reaper sv = sv_reaper s1" by (auto split: option.splits)
    moreover have "dm_cfg (sv_daemon sv) = dm_cfg (sv_daemon sv0)" using serial_step_cfg [OF s1(2)] ih by simp
    ultimately show ?thesis using ih Request idle_ticks_snoc [of w sv0 _ _ a] by fastforce
  next
    case DoneReceived
    with s1(2) nd have "sv_reaping sv = sv_reaping s1" "sv_reaper sv = sv_reaper s1" "sv_daemon sv = sv_daemon s1" by auto
    then show ?thesis using ih DoneReceived idle_ticks_snoc [of w sv0 _ _ a] by fastforce
  next
    case Interrupt
    with s1(2) snoc.prems(2) show ?thesis by auto
  next
    case (Tick now)
    obtain go r d' where t: "reaper_tick (w_goos w) (w_os w) (w_trm w) now (sv_reaper s1) (sv_daemon s1) = (go, r, d')"
      by (rule prod_cases3)
    with s1(2) nd ih Tick have sv: "sv = \<lparr>sv_reaping = go, sv_reaper = r, sv_daemon = d'\<rparr>" by simp
    note timers = tick_timers [OF t nd]
    have go: go using timers snoc.prems(2) by (simp add: sv)
    have idle: "idle_at now (sv_daemon s1)" if "rp_idleSince r \<noteq> 0" using timers that by blast
    have "\<exists>ys zs. xs @ [a] = ys @ Tick (rp_idleSince r) # zs \<and> idle_ticks w sv0 ys (Tick (rp_idleSince r) # zs)"
      if nz: "rp_idleSince r \<noteq> 0"
    proof (cases "rp_idleSince (sv_reaper s1) = 0")
      case True
      then have "rp_idleSince r = now" using timers idle [OF nz] by auto
      moreover have "idle_ticks w sv0 xs ([] @ [Tick now])"
        using s1(1) idle [OF nz] by (intro idle_ticks_snoc) (auto simp: idle_ticks_def)
      ultimately show ?thesis using Tick by (intro exI [of _ xs] exI [of _ "[]"]) simp
    next
      case False
      then have same: "rp_idleSince r = rp_idleSince (sv_reaper s1)" using timers idle [OF nz] by simp
      from ih False obtain ys zs where "xs = ys @ Tick (rp_idleSince r) # zs" "idle_ticks w sv0 ys (Tick (rp_idleSince r) # zs)"
        unfolding same by blast
      moreover from this have "idle_ticks w sv0 ys ((Tick (rp_idleSince r) # zs) @ [a])"
        using s1(1) idle [OF nz] Tick by (intro idle_ticks_snoc) auto
      ultimately show ?thesis by (intro exI [of _ ys] exI [of _ "zs @ [a]"]) simp
    qed
    with go ih timers show ?thesis by (simp add: sv)
  qed
qed

text \<open>
  C24. The reaper never stops the daemon early: in a run of requests and ticks, a tick that shuts the daemon
  down was preceded by a tick that is at least the configured idle time older, and at that tick, at this one
  and at every tick between them there was no active lease and no acquire request in flight.
\<close>

theorem reaper_waits_idle_time:
  assumes "run_steps (serial_step w) xs (serving d) = Some sv" and "\<not> dm_done (sv_daemon sv)"
    and "serial_step w (Tick now) sv = Some sv'" and "dm_done (sv_daemon sv')"
  shows "\<exists>ys t0 zs. xs = ys @ Tick t0 # zs \<and> dc_IdleTTL (dm_cfg d) \<le> time_Sub now t0 \<and>
    idle_ticks w (serving d) ys (Tick t0 # zs @ [Tick now])"
proof -
  let ?t0 = "rp_idleSince (sv_reaper sv)"
  have "sv_reaping (serving d)" "rp_idleSince (sv_reaper (serving d)) = 0"
    by (simp_all add: serving_def reaper_reset_def)
  note mem = reaper_memory [OF assms(1) this assms(2)]
  obtain go r d' where t: "reaper_tick (w_goos w) (w_os w) (w_trm w) now (sv_reaper sv) (sv_daemon sv) = (go, r, d')"
    by (rule prod_cases3)
  with assms(2,3) mem have sv': "sv' = \<lparr>sv_reaping = go, sv_reaper = r, sv_daemon = d'\<rparr>" by simp
  with assms(4) tick_timers [OF t assms(2)] have last: "idle_at now (sv_daemon sv)" "?t0 \<noteq> 0"
    "dc_IdleTTL (dm_cfg (sv_daemon sv)) \<le> time_Sub now ?t0"
    by (auto split: if_splits)
  with mem obtain ys zs where xs: "xs = ys @ Tick ?t0 # zs" "idle_ticks w (serving d) ys (Tick ?t0 # zs)" by blast
  have "idle_ticks w (serving d) ys ((Tick ?t0 # zs) @ [Tick now])"
    using xs assms(1) last(1) by (intro idle_ticks_snoc) auto
  with xs(1) last(3) mem show ?thesis
    by (intro exI [of _ ys] exI [of _ ?t0] exI [of _ zs]) (simp add: serving_def)
qed

section \<open>An idle daemon is stopped\<close>

definition idle_state :: "go_time \<Rightarrow> 'c server \<Rightarrow> bool" where
  "idle_state T sv \<longleftrightarrow>
     sv_reaping sv \<and> \<not> dm_done (sv_daemon sv) \<and> daemon_ok (sv_daemon sv) \<and> dm_acquireInFlight (sv_daemon sv) = 0 \<and>
     (\<forall>i e. lease_expiry (dm_store (sv_daemon sv)) i = Some e \<longrightarrow> e \<le> T)"

text \<open>The server has been stopped: its reaper is gone, its environment down, its runtime file removed.\<close>

definition taken_down :: "'c Daemon \<Rightarrow> 'c server \<Rightarrow> bool" where
  "taken_down d sv \<longleftrightarrow>
     \<not> sv_reaping sv \<and> dm_done (sv_daemon sv) \<and>
     (isEnabled (dm_sut d) \<longrightarrow> live_pids (sys_log (dm_sys (sv_daemon sv))) \<subseteq> kill_failed (sys_log (dm_sys (sv_daemon sv)))) \<and>
     RuntimeRemoved (dm_runtimePath d) \<in> set (sys_log (dm_sys (sv_daemon sv)))"

lemma taken_down_same: "same_frame d d' \<Longrightarrow> taken_down d' sv = taken_down d sv"
  by (simp add: taken_down_def same_frame_def isEnabled_def)

lemma shutdown_taken_down:
  assumes "daemon_ok d" "\<not> dm_done d"
  shows "taken_down d \<lparr>sv_reaping = False, sv_reaper = r, sv_daemon = shutdownServer g os trm ctx d\<rparr>"
proof -
  from shutdown_spec [OF assms refl, of g os trm ctx] obtain cont mid where
    log: "sys_log (dm_sys (shutdownServer g os trm ctx d)) =
         RuntimeRemoved (dm_runtimePath d) # (if dm_serving d then [ServerShutdown] else []) @ cont @ mid"
      "isEnabled (dm_sut d) \<longrightarrow> unsettled_pids mid = {}" "only_terminates cont" by blast
  then have "unsettled_pids (sys_log (dm_sys (shutdownServer g os trm ctx d))) = unsettled_pids mid"
    using only_terminates_live [OF log(3)] by simp
  with log show ?thesis by (simp add: taken_down_def unsettled_empty [symmetric])
qed

lemma expired_leases:
  assumes "store_ok s" "\<forall>i e. lease_expiry s i = Some e \<longrightarrow> e \<le> T" "T \<le> now"
  shows "activeCount now (gc now s) = 0" "\<forall>i e. lease_expiry (gc now s) i = Some e \<longrightarrow> e \<le> T"
proof -
  show gone: "\<forall>i e. lease_expiry (gc now s) i = Some e \<longrightarrow> e \<le> T"
  proof (intro allI impI)
    fix i e
    assume "lease_expiry (gc now s) i = Some e"
    then have "lease_expiry s i = Some e"
      using assms(1) by (auto simp: lease_expiry_gc split: option.splits if_splits)
    with assms(2) show "e \<le> T" by blast
  qed
  have none: "{i. \<exists>e. lease_expiry (gc now s) i = Some e \<and> now < e} = {}"
    using gone assms(3) by fastforce
  show "activeCount now (gc now s) = 0"
    unfolding activeCount_card [OF store_ok_gc [OF assms(1)]] none by simp
qed

lemma idle_step:
  assumes "idle_state T sv" "T \<le> now"
  obtains sv' where "serial_step w (Tick now) sv = Some sv'"
    "rp_idleSince (sv_reaper sv) = 0 \<Longrightarrow> idle_state T sv' \<and> rp_idleSince (sv_reaper sv') = now \<and> same_frame (sv_daemon sv) (sv_daemon sv')"
    "rp_idleSince (sv_reaper sv) \<noteq> 0 \<Longrightarrow>
       time_Sub now (rp_idleSince (sv_reaper sv)) < dc_IdleTTL (dm_cfg (sv_daemon sv)) \<Longrightarrow>
       idle_state T sv' \<and> rp_idleSince (sv_reaper sv') = rp_idleSince (sv_reaper sv) \<and> same_frame (sv_daemon sv) (sv_daemon sv')"
    "rp_idleSince (sv_reaper sv) \<noteq> 0 \<Longrightarrow>
       dc_IdleTTL (dm_cfg (sv_daemon sv)) \<le> time_Sub now (rp_idleSince (sv_reaper sv)) \<Longrightarrow> taken_down (sv_daemon sv) sv'"
proof -
  let ?d = "sv_daemon sv" and ?r = "sv_reaper sv"
  obtain go r' d' where t: "reaper_tick (w_goos w) (w_os w) (w_trm w) now ?r ?d = (go, r', d')" by (rule prod_cases3)
  let ?sv' = "\<lparr>sv_reaping = go, sv_reaper = r', sv_daemon = d'\<rparr>"
  have step: "serial_step w (Tick now) sv = Some ?sv'" using t assms(1) by (simp add: idle_state_def)
  have ok: "daemon_ok ?d" "\<not> dm_done ?d" "dm_acquireInFlight ?d = 0" and st: "store_ok (dm_store ?d)"
    using assms(1) by (auto simp: idle_state_def daemon_ok_def)
  note gone = expired_leases [OF st _ assms(2)]
  have expired: "activeCount now (gc now (dm_store ?d)) = 0"
    "\<forall>i e. lease_expiry (gc now (dm_store ?d)) i = Some e \<longrightarrow> e \<le> T"
    using gone assms(1) by (simp_all add: idle_state_def)
  have idle: "\<not> 0 < activeCount now (gc now (dm_store ?d))" "\<not> 0 < dm_acquireInFlight ?d"
    using expired(1) ok(3) by simp_all
  show thesis
  proof (rule tick_idle [OF idle ok(1) t])
    fix d1
    assume d1: "same_frame (?d\<lparr>dm_store := gc now (dm_store ?d)\<rparr>) d1" "dm_store d1 = gc now (dm_store ?d)" "daemon_ok d1"
      "rp_idleSince ?r = 0 \<Longrightarrow> go \<and> rp_idleSince r' = now \<and> d' = d1"
      "rp_idleSince ?r \<noteq> 0 \<Longrightarrow> time_Sub now (rp_idleSince ?r) < dc_IdleTTL (dm_cfg ?d) \<Longrightarrow>
         go \<and> rp_idleSince r' = rp_idleSince ?r \<and> d' = d1"
      "rp_idleSince ?r \<noteq> 0 \<Longrightarrow> dc_IdleTTL (dm_cfg ?d) \<le> time_Sub now (rp_idleSince ?r) \<Longrightarrow>
         \<not> go \<and> d' = shutdownServer (w_goos w) (w_os w) (w_trm w) Background d1"
    have frame: "same_frame ?d d1" using d1(1) by (simp add: same_frame_def)
    have still: "idle_state T \<lparr>sv_reaping = True, sv_reaper = r', sv_daemon = d1\<rparr>"
      using frame ok expired(2) d1(2,3) by (simp add: idle_state_def same_frame_def)
    have "\<not> dm_done d1" using frame ok(2) by (simp add: same_frame_def)
    from shutdown_taken_down [OF d1(3) this] have
      "taken_down ?d \<lparr>sv_reaping = False, sv_reaper = r', sv_daemon = shutdownServer (w_goos w) (w_os w) (w_trm w) Background d1\<rparr>"
      using taken_down_same [OF frame] by simp
    with still frame d1(4-6) show thesis by (intro that [OF step]) auto
  qed
qed

lemma taken_down_run:
  "taken_down d sv \<Longrightarrow> run_steps (serial_step w) (map Tick ts) sv = Some sv"
  by (induction ts) (simp_all add: taken_down_def)

lemma idle_run:
  assumes "idle_state T sv" "rp_idleSince (sv_reaper sv) \<noteq> 0" "\<forall>t\<in>set ts. T \<le> t"
    and "\<exists>t\<in>set ts. dc_IdleTTL (dm_cfg (sv_daemon sv)) \<le> time_Sub t (rp_idleSince (sv_reaper sv))"
  shows "\<exists>sv'. run_steps (serial_step w) (map Tick ts) sv = Some sv' \<and> taken_down (sv_daemon sv) sv'"
  using assms
proof (induction ts arbitrary: sv)
  case (Cons now ts)
  show ?case
  proof (rule idle_step [OF Cons.prems(1), of now])
    show "T \<le> now" using Cons.prems(3) by simp
    fix s1
    assume s1: "serial_step w (Tick now) sv = Some s1"
      "rp_idleSince (sv_reaper sv) \<noteq> 0 \<Longrightarrow>
       time_Sub now (rp_idleSince (sv_reaper sv)) < dc_IdleTTL (dm_cfg (sv_daemon sv)) \<Longrightarrow>
       idle_state T s1 \<and> rp_idleSince (sv_reaper s1) = rp_idleSince (sv_reaper sv) \<and> same_frame (sv_daemon sv) (sv_daemon s1)"
      "rp_idleSince (sv_reaper sv) \<noteq> 0 \<Longrightarrow>
       dc_IdleTTL (dm_cfg (sv_daemon sv)) \<le> time_Sub now (rp_idleSince (sv_reaper sv)) \<Longrightarrow> taken_down (sv_daemon sv) s1"
    show ?case
    proof (cases "dc_IdleTTL (dm_cfg (sv_daemon sv)) \<le> time_Sub now (rp_idleSince (sv_reaper sv))")
      case True
      with s1(3) Cons.prems(2) have down: "taken_down (sv_daemon sv) s1" by blast
      with s1(1) taken_down_run [OF down] show ?thesis by simp
    next
      case False
      with s1(2) Cons.prems(2) have next1: "idle_state T s1" "rp_idleSince (sv_reaper s1) = rp_idleSince (sv_reaper sv)"
        "same_frame (sv_daemon sv) (sv_daemon s1)" by simp_all
      then have cfg: "dm_cfg (sv_daemon s1) = dm_cfg (sv_daemon sv)" by (simp add: same_frame_def)
      have "\<exists>sv'. run_steps (serial_step w) (map Tick ts) s1 = Some sv' \<and> taken_down (sv_daemon s1) sv'"
      proof (rule Cons.IH [OF next1(1)])
        show "\<exists>t\<in>set ts. dc_IdleTTL (dm_cfg (sv_daemon s1)) \<le> time_Sub t (rp_idleSince (sv_reaper s1))"
          using Cons.prems(4) False unfolding cfg next1(2) by auto
      qed (use Cons.prems(2,3) next1(2) in simp_all)
      with s1(1) taken_down_same [OF next1(3)] show ?thesis by simp
    qed
  qed
qed simp

text \<open>
  C10. An abandoned daemon takes itself down: when no request is in flight and from a tick at time \<open>t1\<close> on, which no
  lease outlives, nothing happens but ticks, then as soon as a tick comes that is the daemon's idle time later than that first
  tick, the daemon has shut itself down, its runtime file is removed and no process of the service is alive, except one whose
  kill the operating system refused; whatever the timers of the reaper were before \<open>t1\<close>. The idle time runs from that tick, not from
  the expiry of the last lease, and also when the idle time of the service is longer: the two timers start together.
\<close>

theorem abandoned_daemon_shuts_down:
  assumes "daemon_ok d" "\<not> dm_done d" "dm_acquireInFlight d = 0"
    and "\<forall>i e. lease_expiry (dm_store d) i = Some e \<longrightarrow> e \<le> t1" and "0 < t1" "rp_idleSince r \<le> t1"
    and "\<forall>t\<in>set ts. t1 \<le> t" and "\<exists>t\<in>set ts. dc_IdleTTL (dm_cfg d) \<le> time_Sub t t1"
  shows "\<exists>sv. run_steps (serial_step w) (map Tick (t1 # ts)) \<lparr>sv_reaping = True, sv_reaper = r, sv_daemon = d\<rparr> = Some sv \<and>
    taken_down d sv"
proof -
  let ?sv = "\<lparr>sv_reaping = True, sv_reaper = r, sv_daemon = d\<rparr>"
  have idle: "idle_state t1 ?sv" using assms(1-4) by (simp add: idle_state_def)
  show ?thesis
  proof (cases "rp_idleSince r = 0")
    case True
    from idle_step [OF idle order.refl, of w] True obtain s1 where s1: "serial_step w (Tick t1) ?sv = Some s1"
      "idle_state t1 s1" "rp_idleSince (sv_reaper s1) = t1" "same_frame d (sv_daemon s1)" by auto
    have "dm_cfg (sv_daemon s1) = dm_cfg d" using s1(4) by (simp add: same_frame_def)
    with idle_run [OF s1(2), of ts w] s1(3) assms(5,7,8) obtain sv where
      "run_steps (serial_step w) (map Tick ts) s1 = Some sv" "taken_down (sv_daemon s1) sv" by auto
    with s1(1) taken_down_same [OF s1(4)] show ?thesis by simp
  next
    case False
    have "time_Sub t t1 \<le> time_Sub t (rp_idleSince r)" for t
      using assms(6) by (auto simp: time_Sub_def)
    then have "\<exists>t\<in>set (t1 # ts). dc_IdleTTL (dm_cfg d) \<le> time_Sub t (rp_idleSince r)"
      using assms(8) by (auto intro: order.trans)
    with idle_run [OF idle, of "t1 # ts" w] False assms(7) show ?thesis by simp
  qed
qed

section \<open>A lease keeps the environment\<close>

lemma delivered_prefix: "delivered i b (xs @ ys) \<Longrightarrow> delivered i b xs"
  by (auto simp: delivered_def)

lemma tick_store: "reaper_tick g os trm now r d = (go, r', d') \<Longrightarrow> dm_store d' = gc now (dm_store d)"
  by (auto simp: reaper_tick_def Let_def split: if_splits)

lemma serial_step_store:
  assumes "serial_step w a sv = Some sv'" "daemon_ok (sv_daemon sv)" "a \<noteq> Interrupt"
  shows "dm_store (sv_daemon sv') = fold store_exec (input_ops w a sv) (dm_store (sv_daemon sv))"
proof (cases a)
  case (Request wr sched ctx rd now answered)
  show ?thesis
  proof (cases "dm_done (sv_daemon sv)")
    case True
    with assms(1) Request show ?thesis by simp
  next
    case False
    with assms(1) Request obtain resp d' where
      s: "serve w sched ctx rd now answered wr (sv_daemon sv) = Some (resp, d')" "sv' = sv\<lparr>sv_daemon := d'\<rparr>"
      by (auto split: option.splits)
    with serve_spec [OF s(1) assms(2)] False Request show ?thesis by (simp add: served_def)
  qed
next
  case (Tick now)
  obtain go r d' where t: "reaper_tick (w_goos w) (w_os w) (w_trm w) now (sv_reaper sv) (sv_daemon sv) = (go, r, d')"
    by (rule prod_cases3)
  with assms(1) Tick tick_store [OF t] show ?thesis by (auto split: if_splits)
qed (use assms(1,3) in auto)

lemma beaten_tick:
  assumes "store_ok s" "lease_expiry s i = Some (t0 + LeaseTTL)" "on_time t0 b" "delivered i b (ops @ [(now, Sweep)])"
    and "sorted (map fst (ops @ [(now, Sweep)]))" "\<forall>x\<in>set (ops @ [(now, Sweep)]). t0 \<le> fst x \<and> snd x \<noteq> Revoke i"
  shows "0 < activeCount now (gc now (fold store_exec ops s))"
proof -
  let ?s = "fold store_exec (ops @ [(now, Sweep)]) s"
  from lease_kept_alive [OF assms(3-5), of lease_ident] assms(6)
  obtain e where "fold (one_lease lease_ident LeaseTTL i) (ops @ [(now, Sweep)]) (Some (t0 + LeaseTTL)) = Some e" "now < e"
    by fastforce
  then have "lease_expiry ?s i = Some e" "now < e"
    using store.expiry_run [OF assms(1)] assms(2) by metis+
  moreover have "store_ok ?s" using assms(1) by (rule store.ok_run)
  ultimately have "0 < activeCount now ?s" using activeCount_pos by blast
  then show ?thesis by simp
qed

lemma daemon_ok_gc: "daemon_ok d \<Longrightarrow> daemon_ok (d\<lparr>dm_store := gc now (dm_store d)\<rparr>)"
  by (simp add: daemon_ok_def)

text \<open>The state of a run under a lease that is kept alive.\<close>

definition kept :: "'c Daemon \<Rightarrow> (go_time \<times> (byte list \<times> int) lease_op) list \<Rightarrow> 'c server \<Rightarrow> bool" where
  "kept d ops sv \<longleftrightarrow>
     \<not> dm_done (sv_daemon sv) \<and> sv_reaping sv \<and> daemon_ok (sv_daemon sv) \<and> dm_infraStarted (sv_daemon sv) \<and>
     dm_bundle (sv_daemon sv) = dm_bundle d \<and> dm_store (sv_daemon sv) = fold store_exec ops (dm_store d)"

lemma kept_request:
  assumes "kept d ops sv" "serial_step w (Request wr sched ctx rd now answered) sv = Some sv'"
  shows "kept d (ops @ input_ops w (Request wr sched ctx rd now answered) sv) sv'"
proof -
  from assms obtain resp d' where
    s: "serve w sched ctx rd now answered wr (sv_daemon sv) = Some (resp, d')" "sv' = sv\<lparr>sv_daemon := d'\<rparr>"
    by (auto simp: kept_def split: option.splits)
  have "daemon_ok (sv_daemon sv)" using assms(1) by (simp add: kept_def)
  from serve_spec [OF s(1) this] assms(1) s show ?thesis
    by (simp add: kept_def served_def same_frame_def)
qed

lemma kept_tick:
  assumes "kept d ops sv" "serial_step w (Tick now) sv = Some sv'" "0 < activeCount now (gc now (dm_store (sv_daemon sv)))"
  shows "kept d (ops @ [(now, Sweep)]) sv' \<and> dm_sys (sv_daemon sv') = dm_sys (sv_daemon sv) \<and>
    dm_sut (sv_daemon sv') = dm_sut (sv_daemon sv) \<and> 0 < activeCount now (dm_store (sv_daemon sv'))"
proof -
  let ?d = "sv_daemon sv"
  have "sv' = \<lparr>sv_reaping = True, sv_reaper = reaper_reset, sv_daemon = ?d\<lparr>dm_store := gc now (dm_store ?d)\<rparr>\<rparr>"
    using assms tick_busy [of now ?d] by (auto simp: kept_def)
  moreover have "daemon_ok (?d\<lparr>dm_store := gc now (dm_store ?d)\<rparr>)"
    using assms(1) unfolding kept_def by (intro daemon_ok_gc) simp
  ultimately show ?thesis using assms(1,3) by (simp add: kept_def)
qed

lemma kept_run:
  assumes "kept d [] sv0" "daemon_ok d" "lease_expiry (dm_store d) i = Some (t0 + LeaseTTL)" "on_time t0 b"
    and "run_steps (serial_step w) xs sv0 = Some sv" "Interrupt \<notin> set xs"
    and "delivered i b (lease_ops w xs sv0)" "sorted (map fst (lease_ops w xs sv0))"
    and "\<forall>x\<in>set (lease_ops w xs sv0). t0 \<le> fst x \<and> snd x \<noteq> Revoke i"
  shows "kept d (lease_ops w xs sv0) sv"
  using assms(5-9)
proof (induction xs arbitrary: sv rule: rev_induct)
  case Nil
  with assms(1) show ?case by simp
next
  case (snoc a xs)
  then obtain s1 where s1: "run_steps (serial_step w) xs sv0 = Some s1" "serial_step w a s1 = Some sv"
    by (auto simp: run_steps_append split: option.splits)
  have ops: "lease_ops w (xs @ [a]) sv0 = lease_ops w xs sv0 @ input_ops w a s1"
    using s1(2) by (simp add: lease_ops_append [OF s1(1)])
  have kept: "kept d (lease_ops w xs sv0) s1"
    using snoc.prems(2-) by (intro snoc.IH [OF s1(1)]) (auto simp: ops sorted_append dest: delivered_prefix)
  show ?case
  proof (cases a)
    case (Request wr sched ctx rd now answered)
    with kept_request kept s1(2) show ?thesis unfolding ops by blast
  next
    case (Tick now)
    have one: "input_ops w a s1 = [(now, Sweep)]" using kept Tick by (simp add: kept_def)
    have "store_ok (dm_store d)" using assms(2) by (simp add: daemon_ok_def)
    from beaten_tick [OF this assms(3,4)] snoc.prems(3-5) have "0 < activeCount now (gc now (dm_store (sv_daemon s1)))"
      using kept unfolding ops one by (simp add: kept_def)
    with kept_tick [OF kept s1(2) [unfolded Tick]] show ?thesis by (simp add: ops one)
  next
    case DoneReceived
    then have "input_ops w a s1 = []" "sv = s1" using s1(2) kept by (auto simp: kept_def)
    with kept show ?thesis unfolding ops by simp
  qed (use snoc.prems(2) in simp)
qed

text \<open>
  C2. A lease keeps its environment: as long as the heartbeats of a lease are answered in time and nobody
  releases it or interrupts the daemon, then whatever other requests come and however the ticks fall, every
  tick leaves the daemon up, the containers running and the outside world untouched.
\<close>

theorem lease_keeps_environment:
  assumes "daemon_ok d" "dm_infraStarted d" "\<not> dm_done d"
    and "lease_expiry (dm_store d) i = Some (t0 + LeaseTTL)"
    and run: "run_steps (serial_step w) xs \<lparr>sv_reaping = True, sv_reaper = r, sv_daemon = d\<rparr> = Some sv"
      "serial_step w (Tick now) sv = Some sv'" "Interrupt \<notin> set xs"
    and beats: "on_time t0 b" "delivered i b (lease_ops w (xs @ [Tick now]) \<lparr>sv_reaping = True, sv_reaper = r, sv_daemon = d\<rparr>)"
    and times: "sorted (map fst (lease_ops w (xs @ [Tick now]) \<lparr>sv_reaping = True, sv_reaper = r, sv_daemon = d\<rparr>))"
      "\<forall>x\<in>set (lease_ops w (xs @ [Tick now]) \<lparr>sv_reaping = True, sv_reaper = r, sv_daemon = d\<rparr>). t0 \<le> fst x \<and> snd x \<noteq> Revoke i"
  shows "\<not> dm_done (sv_daemon sv') \<and> sv_reaping sv' \<and> dm_infraStarted (sv_daemon sv') \<and>
    dm_bundle (sv_daemon sv') = dm_bundle d \<and> dm_sys (sv_daemon sv') = dm_sys (sv_daemon sv) \<and>
    dm_sut (sv_daemon sv') = dm_sut (sv_daemon sv) \<and> 0 < activeCount now (dm_store (sv_daemon sv'))"
proof -
  let ?sv0 = "\<lparr>sv_reaping = True, sv_reaper = r, sv_daemon = d\<rparr>"
  have k0: "kept d [] ?sv0" using assms(1-3) by (simp add: kept_def)
  have ops: "lease_ops w (xs @ [Tick now]) ?sv0 = lease_ops w xs ?sv0 @ input_ops w (Tick now) sv"
    using run(2) by (simp add: lease_ops_append [OF run(1)])
  have kept: "kept d (lease_ops w xs ?sv0) sv"
    using k0 assms(1,4) beats(1) run(1,3)
  proof (rule kept_run)
    show "delivered i b (lease_ops w xs ?sv0)" using beats(2) unfolding ops by (rule delivered_prefix)
    show "sorted (map fst (lease_ops w xs ?sv0))" using times(1) unfolding ops by (simp add: sorted_append)
    show "\<forall>x\<in>set (lease_ops w xs ?sv0). t0 \<le> fst x \<and> snd x \<noteq> Revoke i" using times(2) unfolding ops by simp
  qed
  then have one: "input_ops w (Tick now) sv = [(now, Sweep)]" by (simp add: kept_def)
  have "store_ok (dm_store d)" using assms(1) by (simp add: daemon_ok_def)
  from beaten_tick [OF this assms(4) beats(1)] beats(2) times have "0 < activeCount now (gc now (dm_store (sv_daemon sv)))"
    using kept unfolding ops one by (simp add: kept_def)
  from kept_tick [OF kept run(2) this] show ?thesis by (auto simp: kept_def)
qed

section \<open>Witnesses\<close>

definition beat_input :: "go_time \<Rightarrow> nat input" where
  "beat_input now = Request (beat_request ''7'') [] Background [] now 0"

lemma serve_beat:
  assumes "dm_cfg d = sample_dcfg" "lease_expiry (dm_store d) sample_id \<noteq> None"
  shows "serve sample_world [] Background [] now 0 (beat_request ''7'') d =
    Some (writeJSON 200 (OKBody \<lparr>resp_OK = True\<rparr>), d\<lparr>dm_store := store_renew sample_id now (dm_store d)\<rparr>)"
  using assms
  by (auto simp: serve_def withAuth_def decoded_def sample_defs sample_dcfg_def lease_expiry_def
      handleHeartbeat_def store_renew_def heartbeat_def Let_def split: option.splits)

lemma beat_ops: "request_op (w_codec sample_world) [] now (beat_request ''7'') (writeJSON 200 (OKBody \<lparr>resp_OK = True\<rparr>)) = [(now, Renew sample_id)]"
  by (simp add: request_op_def sample_defs)

lemma renewed [simp]: "lease_expiry (store_renew sample_id t sample_store) sample_id \<noteq> None"
  using store.expiry_renew [of sample_store sample_id t sample_id] by simp

theorem lease_keeps_environment_witness:
  "\<exists>sv sv'. run_steps (serial_step sample_world) [beat_input 11100000000, beat_input 12100000000] (serving sample_daemon) = Some sv \<and>
     serial_step sample_world (Tick 13000000000) sv = Some sv' \<and> dm_infraStarted (sv_daemon sv') \<and> \<not> dm_done (sv_daemon sv')"
proof -
  let ?d1 = "sample_daemon\<lparr>dm_store := store_renew sample_id 11100000000 sample_store\<rparr>"
  let ?d2 = "?d1\<lparr>dm_store := store_renew sample_id 12100000000 (dm_store ?d1)\<rparr>"
  let ?sv = "\<lparr>sv_reaping = True, sv_reaper = reaper_reset, sv_daemon = ?d2\<rparr>"
  have cfg: "dm_cfg sample_daemon = sample_dcfg" "dm_store sample_daemon = sample_store" "\<not> dm_done sample_daemon"
    by (simp_all add: sample_daemon_def)
  note steps = serve_beat [of sample_daemon 11100000000] serve_beat [of ?d1 12100000000]
  have run: "run_steps (serial_step sample_world) [beat_input 11100000000, beat_input 12100000000]
      \<lparr>sv_reaping = True, sv_reaper = reaper_reset, sv_daemon = sample_daemon\<rparr> = Some ?sv"
    using steps cfg by (simp add: beat_input_def)
  obtain sv' where tick: "serial_step sample_world (Tick 13000000000) ?sv = Some sv'"
    using tick_total by blast
  have ops: "lease_ops sample_world ([beat_input 11100000000, beat_input 12100000000] @ [Tick 13000000000])
      \<lparr>sv_reaping = True, sv_reaper = reaper_reset, sv_daemon = sample_daemon\<rparr> = sample_ops @ [(13000000000, Sweep)]"
    using steps cfg beat_ops by (simp add: beat_input_def split: prod.split)
  have "lease_expiry (dm_store sample_daemon) sample_id = Some (10 * time_Second + LeaseTTL)"
    by (simp add: cfg LeaseTTL_def)
  moreover have "dm_infraStarted sample_daemon" by (simp add: sample_daemon_def)
  moreover have "Interrupt \<notin> set [beat_input 11100000000, beat_input 12100000000]" by (simp add: beat_input_def)
  ultimately have "\<not> dm_done (sv_daemon sv') \<and> dm_infraStarted (sv_daemon sv')"
    using lease_keeps_environment [OF sample_daemon_ok _ cfg(3) _ run tick, of sample_id "10 * time_Second" sample_beats]
      sample_beats_ok unfolding ops by simp
  with run tick show ?thesis unfolding serving_def by blast
qed

lemma sample_idle: "idle_state (20 * time_Second) (serving sample_daemon)"
  by (simp add: idle_state_def serving_def sample_daemon_ok)
    (simp add: sample_daemon_def sample_store_eq lease_expiry_def)

lemma sample_IdleTTL: "dc_IdleTTL (dm_cfg sample_daemon) = 15 * time_Second"
  by (simp add: sample_daemon_def sample_dcfg_def)

theorem abandoned_daemon_shuts_down_witness:
  "\<exists>sv. run_steps (serial_step sample_world) (map Tick [20 * time_Second, 22 * time_Second, 35 * time_Second]) (serving sample_daemon) = Some sv \<and>
     dm_done (sv_daemon sv) \<and> live_pids (sys_log (dm_sys (sv_daemon sv))) \<subseteq> kill_failed (sys_log (dm_sys (sv_daemon sv)))"
proof -
  have st: "\<not> dm_done sample_daemon" "dm_acquireInFlight sample_daemon = 0"
    "\<forall>i e. lease_expiry (dm_store sample_daemon) i = Some e \<longrightarrow> e \<le> 20 * time_Second"
    using sample_idle by (simp_all add: idle_state_def serving_def)
  have "rp_idleSince reaper_reset \<le> 20 * time_Second" by (simp add: reaper_reset_def)
  moreover have "\<forall>t\<in>set [22 * time_Second, 35 * time_Second]. 20 * time_Second \<le> t" by simp
  moreover have "\<exists>t\<in>set [22 * time_Second, 35 * time_Second]. dc_IdleTTL (dm_cfg sample_daemon) \<le> time_Sub t (20 * time_Second)"
    by (simp add: sample_IdleTTL time_Sub_def)
  ultimately obtain sv where "run_steps (serial_step sample_world) (map Tick [20 * time_Second, 22 * time_Second, 35 * time_Second])
      \<lparr>sv_reaping = True, sv_reaper = reaper_reset, sv_daemon = sample_daemon\<rparr> = Some sv" "taken_down sample_daemon sv"
    using abandoned_daemon_shuts_down [OF sample_daemon_ok st, of reaper_reset "[22 * time_Second, 35 * time_Second]" sample_world]
    by auto
  moreover have "isEnabled (dm_sut sample_daemon)" by (simp add: sample_daemon_def)
  ultimately show ?thesis unfolding serving_def taken_down_def by blast
qed

theorem reaper_waits_idle_time_witness:
  "\<exists>sv sv'. run_steps (serial_step sample_world) [Tick (20 * time_Second)] (serving sample_daemon) = Some sv \<and>
     serial_step sample_world (Tick (35 * time_Second)) sv = Some sv' \<and> dm_done (sv_daemon sv') \<and>
     idle_ticks sample_world (serving sample_daemon) [] [Tick (20 * time_Second), Tick (35 * time_Second)]"
proof -
  from idle_step [OF sample_idle order.refl, of sample_world] obtain s1 where
    s1: "serial_step sample_world (Tick (20 * time_Second)) (serving sample_daemon) = Some s1"
      "idle_state (20 * time_Second) s1" "rp_idleSince (sv_reaper s1) = 20 * time_Second" "same_frame sample_daemon (sv_daemon s1)"
    by (auto simp: serving_def reaper_reset_def)
  have "20 * time_Second \<le> 35 * time_Second" by simp
  moreover have "dc_IdleTTL (dm_cfg (sv_daemon s1)) \<le> time_Sub (35 * time_Second) (rp_idleSince (sv_reaper s1))"
    using s1(3,4) sample_IdleTTL by (simp add: same_frame_def time_Sub_def)
  ultimately obtain s2 where s2: "serial_step sample_world (Tick (35 * time_Second)) s1 = Some s2" "dm_done (sv_daemon s2)"
    using idle_step [OF s1(2), of "35 * time_Second" sample_world] s1(3) by (auto simp: taken_down_def)
  have run: "run_steps (serial_step sample_world) [Tick (20 * time_Second)] (serving sample_daemon) = Some s1"
    using s1(1) by simp
  have "\<not> dm_done (sv_daemon s1)" using s1(2) by (simp add: idle_state_def)
  from reaper_waits_idle_time [OF run this s2] obtain ys t0 zs where
    "[Tick (20 * time_Second)] = ys @ Tick t0 # zs" "idle_ticks sample_world (serving sample_daemon) ys (Tick t0 # zs @ [Tick (35 * time_Second)])"
    by blast
  then have "idle_ticks sample_world (serving sample_daemon) [] [Tick (20 * time_Second), Tick (35 * time_Second)]"
    by (auto simp: Cons_eq_append_conv)
  with run s2 show ?thesis by blast
qed

end
