(* ===== verification/Daemon_Interleaving.thy ===== *)
theory Daemon_Interleaving
  imports Daemon_Reaper
begin

text \<open>
  The daemon with its goroutines interleaved: each request handler, the reaper and the goroutine that waits for the
  interrupt move in steps between which the others may run. A step is what one of the mutexes (\<^verbatim>\<open>startMu\<close>, that of the service manager, that of
  the lease store) or an atomic operation makes indivisible. The handlers and ticks of \<open>Daemon\<close> are
  runs of these steps; what holds for every interleaving, and what an interleaving can break, is
  shown here.
\<close>

section \<open>Steps\<close>

text \<open>Where an acquire request is in \<^verbatim>\<open>handleAcquire\<close>.\<close>

datatype acquire_pc =
    Arrived
  | Counted
  | Decoded AcquireReq
  | InfraUp AcquireReq
  | SutUp AcquireReq
  | Answering response
  | Answered response

fun acquire_step ::
  "'c world \<Rightarrow> pool_actor list \<Rightarrow> 'c ctx \<Rightarrow> byte list \<Rightarrow> go_time \<Rightarrow> go_time \<Rightarrow> AcquireReq request \<Rightarrow> acquire_pc \<Rightarrow> 'c Daemon \<Rightarrow>
   (acquire_pc \<times> 'c Daemon) option" where
  "acquire_step w sched ctx rd now answered rq Arrived d =
     (if rq_Method rq \<noteq> MethodPost then Some (Answered (writeError 405 ErrCodeBadRequest ''invalid method''), d)
      else Some (Counted, d\<lparr>dm_acquireInFlight := dm_acquireInFlight d + 1\<rparr>))"
| "acquire_step w sched ctx rd now answered rq Counted d =
     (case rq_Body rq of
        Inl e \<Rightarrow> Some (Answering (writeError 400 ErrCodeBadRequest (error_text e)), d)
      | Inr req \<Rightarrow> Some (Decoded req, d))"
| "acquire_step w sched ctx rd now answered rq (Decoded req) d =
     (case ensureInfraStarted (w_trm w) sched ctx d of
        None \<Rightarrow> None
      | Some (Some e, d1) \<Rightarrow> Some (Answering (writeError 500 ErrCodeInternal (error_text e)), d1)
      | Some (None, d1) \<Rightarrow> Some (InfraUp req, d1))"
| "acquire_step w sched ctx rd now answered rq (InfraUp req) d =
     (case ensureSUTStarted (w_goos w) (w_os w) ctx d of
        None \<Rightarrow> None
      | Some (Some e, d1) \<Rightarrow> Some (Answering (writeError 500 ErrCodeInternal (error_text e)), d1)
      | Some (None, d1) \<Rightarrow> Some (SutUp req, d1))"
| "acquire_step w sched ctx rd now answered rq (SutUp req) d =
     (let (l, store) = acquire rd now (acq_PID req) LeaseTTL (dm_store d)
      in Some (Answering (writeJSON 200 (AcquireBody \<lparr>resp_LeaseID = lease_ID l, resp_AcquiredAt = answered\<rparr>)),
           d\<lparr>dm_store := store\<rparr>))"
| "acquire_step w sched ctx rd now answered rq (Answering resp) d =
     Some (Answered resp, d\<lparr>dm_acquireInFlight := dm_acquireInFlight d - 1\<rparr>)"
| "acquire_step w sched ctx rd now answered rq (Answered resp) d = None"

text \<open>
  Where a call of \<^verbatim>\<open>shutdownServer\<close> is, and where the reaper is in its loop: the reading of the clock stays with it. To
  stop the service takes two steps, as \<^verbatim>\<open>stop\<close> gives up its mutex before it waits for the process.
\<close>

datatype shutdown_pc =
    Closing
  | StoppingLast exec_Cmd nat
  | SutDown
  | ContainersDown
  | Closed

datatype reaper_pc =
    Waiting reaper
  | Swept go_time reaper
  | NoLease go_time reaper
  | NotBusy go_time reaper
  | StoppingIdle go_time reaper exec_Cmd nat
  | Deciding go_time reaper
  | Shutting shutdown_pc
  | Gone

text \<open>The part of \<^verbatim>\<open>stop\<close> under the mutex, and the part after it.\<close>

definition begin_stop :: "'c world \<Rightarrow> 'c Daemon \<Rightarrow> (exec_Cmd \<times> nat) option \<times> 'c Daemon" where
  "begin_stop w d =
     (case stop_locked (w_os w) (dm_sut d) (dm_sys d) of (x, m, s) \<Rightarrow> (x, d\<lparr>dm_sut := m, dm_sys := s\<rparr>))"

definition finish_stop :: "'c world \<Rightarrow> exec_Cmd \<Rightarrow> nat \<Rightarrow> 'c Daemon \<Rightarrow> 'c Daemon" where
  "finish_stop w c ch d =
     (case stop_waiting (w_goos w) (w_os w) Background (gracePeriod (dm_sut d)) c ch (dm_sys d) of
        (Some e, s) \<Rightarrow> d\<lparr>dm_sut := sut_failed e (dm_sut d), dm_sys := s\<rparr>
      | (None, s) \<Rightarrow> d\<lparr>dm_sys := s\<rparr>)"

text \<open>
  A call of \<^verbatim>\<open>shutdownServer\<close>: the first one closes the channel \<^verbatim>\<open>done\<close> and goes on. A second one only waits for the first to
  come to its end, after which it returns; as it changes nothing, it is at its end at once here.
\<close>

definition enter_shutdown :: "'c Daemon \<Rightarrow> shutdown_pc \<times> 'c Daemon" where
  "enter_shutdown d = (if dm_done d then (Closed, d) else (Closing, d\<lparr>dm_done := True\<rparr>))"

fun shutdown_step :: "'c world \<Rightarrow> shutdown_pc \<Rightarrow> 'c Daemon \<Rightarrow> (shutdown_pc \<times> 'c Daemon) option" where
  "shutdown_step w Closing d =
     (case begin_stop w d of
        (None, d1) \<Rightarrow> Some (SutDown, d1)
      | (Some (c, ch), d1) \<Rightarrow> Some (StoppingLast c ch, d1))"
| "shutdown_step w (StoppingLast c ch) d = Some (SutDown, finish_stop w c ch d)"
| "shutdown_step w SutDown d = Some (ContainersDown, snd (stopContainersOnly (w_trm w) d))"
| "shutdown_step w ContainersDown d =
     Some (Closed, d\<lparr>dm_sys := emit (RuntimeRemoved (dm_runtimePath d))
                              (if dm_serving d then emit ServerShutdown (dm_sys d) else dm_sys d)\<rparr>)"
| "shutdown_step w Closed d = None"

definition shutting :: "shutdown_pc \<times> 'c Daemon \<Rightarrow> reaper_pc \<times> 'c Daemon" where
  "shutting x = (case x of (Closed, d) \<Rightarrow> (Gone, d) | (p, d) \<Rightarrow> (Shutting p, d))"

text \<open>
  The first argument is what wakes the loop, a tick with its time or (\<open>None\<close>) the channel \<^verbatim>\<open>done\<close>, which delivers only when
  it is closed. With both ready the \<^verbatim>\<open>select\<close> may take either.
\<close>

fun reaper_step :: "'c world \<Rightarrow> go_time option \<Rightarrow> reaper_pc \<Rightarrow> 'c Daemon \<Rightarrow> (reaper_pc \<times> 'c Daemon) option" where
  "reaper_step w (Some now) (Waiting r) d = Some (Swept now r, d\<lparr>dm_store := gc now (dm_store d)\<rparr>)"
| "reaper_step w None (Waiting r) d = (if dm_done d then Some (Gone, d) else None)"
| "reaper_step w t (Swept now r) d =
     Some (if activeCount now (dm_store d) > 0 then Waiting reaper_reset else NoLease now r, d)"
| "reaper_step w t (NoLease now r) d =
     Some (if dm_acquireInFlight d > 0 then Waiting reaper_reset else NotBusy now r, d)"
| "reaper_step w t (NotBusy now r) d =
     (if time_IsZero (rp_sutIdleSince r) then Some (Deciding now (r\<lparr>rp_sutIdleSince := now\<rparr>), d)
      else if idleTTL (dm_sut d) \<le> time_Sub now (rp_sutIdleSince r)
      then (case begin_stop w d of
              (None, d1) \<Rightarrow> Some (Deciding now r, d1)
            | (Some (c, ch), d1) \<Rightarrow> Some (StoppingIdle now r c ch, d1))
      else Some (Deciding now r, d))"
| "reaper_step w t (StoppingIdle now r c ch) d = Some (Deciding now r, finish_stop w c ch d)"
| "reaper_step w t (Deciding now r) d =
     (if time_IsZero (rp_idleSince r) then Some (Waiting (r\<lparr>rp_idleSince := now\<rparr>), d)
      else if dc_IdleTTL (dm_cfg d) \<le> time_Sub now (rp_idleSince r)
      then Some (shutting (enter_shutdown d))
      else Some (Waiting r, d))"
| "reaper_step w t (Shutting p) d = map_option shutting (shutdown_step w p d)"
| "reaper_step w t Gone d = None"

record 'c conc =
  co_daemon :: "'c Daemon"
  co_acquires :: "(AcquireReq request \<times> acquire_pc) list"
  co_reaper :: reaper_pc
  co_interrupt :: "shutdown_pc option"

text \<open>
  The step relation: an acquire request, the reaper, or the goroutine of the interrupt moves (\<open>co_interrupt\<close> is \<open>None\<close> while
  that one waits for the context of \<open>Start\<close>, which may be cancelled at any time); or a request is
  answered whose handler has only one critical section, a heartbeat or a release; or a state request
  takes its snapshot of the service, the only one of its critical sections that changes anything.
\<close>

inductive interleave :: "'c world \<Rightarrow> 'c conc \<Rightarrow> 'c conc \<Rightarrow> bool" for w where
  Acquires: "i < length (co_acquires st) \<Longrightarrow> co_acquires st ! i = (rq, pc) \<Longrightarrow>
     acquire_step w sched ctx rd now answered rq pc (co_daemon st) = Some (pc', d') \<Longrightarrow>
     interleave w st (st\<lparr>co_daemon := d', co_acquires := (co_acquires st)[i := (rq, pc')]\<rparr>)"
| Reaps: "reaper_step w t (co_reaper st) (co_daemon st) = Some (pc', d') \<Longrightarrow>
     interleave w st (st\<lparr>co_daemon := d', co_reaper := pc'\<rparr>)"
| Interrupts: "co_interrupt st = None \<Longrightarrow> enter_shutdown (co_daemon st) = (p, d') \<Longrightarrow>
     interleave w st (st\<lparr>co_daemon := d', co_interrupt := Some p\<rparr>)"
| Closes: "co_interrupt st = Some p \<Longrightarrow> shutdown_step w p (co_daemon st) = Some (p', d') \<Longrightarrow>
     interleave w st (st\<lparr>co_daemon := d', co_interrupt := Some p'\<rparr>)"
| Snapshots: "snapshot (w_os w) (dm_sut (co_daemon st)) (dm_sys (co_daemon st)) = (x, m, s) \<Longrightarrow>
     interleave w st (st\<lparr>co_daemon := (co_daemon st)\<lparr>dm_sut := m, dm_sys := s\<rparr>\<rparr>)"
| Others: "wr_Path wr \<notin> {PathAcquire, PathState} \<Longrightarrow> serve w [] Background [] now now wr (co_daemon st) = Some (resp, d') \<Longrightarrow>
     interleave w st (st\<lparr>co_daemon := d'\<rparr>)"

abbreviation interleaved :: "'c world \<Rightarrow> 'c conc \<Rightarrow> 'c conc \<Rightarrow> bool" where
  "interleaved w \<equiv> (interleave w)\<^sup>*\<^sup>*"

inductive_cases interleaveE: "interleave w st st'"

text \<open>The state with the request at a position, or the reaper, elsewhere.\<close>

definition acquire_at :: "'c conc \<Rightarrow> nat \<Rightarrow> AcquireReq request \<Rightarrow> acquire_pc \<Rightarrow> 'c Daemon \<Rightarrow> 'c conc" where
  "acquire_at st i rq pc d = st\<lparr>co_daemon := d, co_acquires := (co_acquires st)[i := (rq, pc)]\<rparr>"

definition reaper_at :: "'c conc \<Rightarrow> reaper_pc \<Rightarrow> 'c Daemon \<Rightarrow> 'c conc" where
  "reaper_at st pc d = st\<lparr>co_daemon := d, co_reaper := pc\<rparr>"

lemma at_simps [simp]:
  "co_daemon (acquire_at st i rq pc d) = d" "co_reaper (acquire_at st i rq pc d) = co_reaper st"
  "co_acquires (acquire_at st i rq pc d) = (co_acquires st)[i := (rq, pc)]"
  "co_interrupt (acquire_at st i rq pc d) = co_interrupt st" "co_interrupt (reaper_at st rp d) = co_interrupt st"
  "co_daemon (reaper_at st rp d) = d" "co_reaper (reaper_at st rp d) = rp" "co_acquires (reaper_at st rp d) = co_acquires st"
  "acquire_at (acquire_at st i rq pc d) i rq' pc' d' = acquire_at st i rq' pc' d'"
  "reaper_at (reaper_at st rp d) rp' d' = reaper_at st rp' d'"
  by (simp_all add: acquire_at_def reaper_at_def)

lemma interleave_acquire:
  assumes "acquire_step w sched ctx rd now answered rq pc d = Some (pc', d')" "i < length (co_acquires st)"
  shows "interleave w (acquire_at st i rq pc d) (acquire_at st i rq pc' d')"
  using Acquires [of i "acquire_at st i rq pc d" rq pc w sched ctx rd now answered pc' d'] assms
  by (simp add: acquire_at_def)

lemma interleave_reaper:
  assumes "reaper_step w t rp d = Some (rp', d')"
  shows "interleave w (reaper_at st rp d) (reaper_at st rp' d')"
  using Reaps [of w t "reaper_at st rp d" rp' d'] assms by (simp add: reaper_at_def)

lemma interleaved_refl [simp]: "interleaved w st st"
  by (rule rtranclp.rtrancl_refl)

lemmas acquire_runs = converse_rtranclp_into_rtranclp [of "interleave w", OF interleave_acquire] for w
lemmas reaper_runs = converse_rtranclp_into_rtranclp [of "interleave w", OF interleave_reaper] for w

section \<open>The serial operations are runs\<close>

lemma serial_acquire_runs:
  assumes "handleAcquire (w_goos w) (w_os w) (w_trm w) sched ctx rd now answered rq d = Some (resp, d')"
    and i: "i < length (co_acquires st)"
  shows "interleaved w (acquire_at st i rq Arrived d) (acquire_at st i rq (Answered resp) d')"
proof (cases "rq_Method rq = MethodPost")
  case False
  with assms have "acquire_step w sched ctx rd now answered rq Arrived d = Some (Answered resp, d')" by (simp add: handleAcquire_def)
  then have "interleave w (acquire_at st i rq Arrived d) (acquire_at st i rq (Answered resp) d')"
    using i by (rule interleave_acquire)
  then show ?thesis by (rule r_into_rtranclp)
next
  case True
  let ?d0 = "d\<lparr>dm_acquireInFlight := dm_acquireInFlight d + 1\<rparr>"
  from assms(1) True obtain d1 where body: "acquire_body (w_goos w) (w_os w) (w_trm w) sched ctx rd now answered rq ?d0 = Some (resp, d1)"
    and d': "d' = d1\<lparr>dm_acquireInFlight := dm_acquireInFlight d1 - 1\<rparr>"
    by (auto simp: handleAcquire_def split: option.splits)
  note run = acquire_runs [OF _ i, where sched = sched and ctx = ctx and rd = rd and now = now and answered = answered]
  have last: "interleaved w (acquire_at st i rq (Answering resp) d1) (acquire_at st i rq (Answered resp) d')"
    by (rule run, simp) (simp add: d')
  have "interleaved w (acquire_at st i rq Counted ?d0) (acquire_at st i rq (Answered resp) d')"
  proof (cases "rq_Body rq")
    case (Inl e)
    with body last show ?thesis by (intro run [of _ _ Counted]) (simp_all add: acquire_body_def)
  next
    case (Inr req)
    from body Inr obtain r2 d2 where infra: "ensureInfraStarted (w_trm w) sched ctx ?d0 = Some (r2, d2)"
      by (auto simp: acquire_body_def split: option.splits)
    have "interleaved w (acquire_at st i rq (Decoded req) ?d0) (acquire_at st i rq (Answered resp) d')"
    proof (cases r2)
      case (Some e)
      with body Inr infra last show ?thesis by (intro run [of _ _ "Decoded req"]) (simp_all add: acquire_body_def)
    next
      case up: None
      from body Inr infra up obtain r3 d3 where sut: "ensureSUTStarted (w_goos w) (w_os w) ctx d2 = Some (r3, d3)"
        by (auto simp: acquire_body_def split: option.splits)
      have "interleaved w (acquire_at st i rq (InfraUp req) d2) (acquire_at st i rq (Answered resp) d')"
      proof (cases r3)
        case (Some e)
        with body Inr infra up sut last show ?thesis by (intro run [of _ _ "InfraUp req"]) (simp_all add: acquire_body_def)
      next
        case None
        with body Inr infra up sut have "acquire_step w sched ctx rd now answered rq (SutUp req) d3 = Some (Answering resp, d1)"
          by (auto simp: acquire_body_def Let_def split: prod.splits)
        then have "interleaved w (acquire_at st i rq (SutUp req) d3) (acquire_at st i rq (Answered resp) d')"
          using last by (rule run)
        then show ?thesis using sut None by (intro run [of _ _ "InfraUp req"]) simp_all
      qed
      then show ?thesis using infra up by (intro run [of _ _ "Decoded req"]) simp_all
    qed
    then show ?thesis using Inr by (intro run [of _ _ Counted]) simp_all
  qed
  then show ?thesis using True by (intro run [of _ _ Arrived]) simp_all
qed

lemma stop_steps:
  shows "begin_stop w d = (None, d1) \<Longrightarrow> stopSUTOnly (w_goos w) (w_os w) Background d = (None, d1)"
    and "begin_stop w d = (Some (c, ch), d1) \<Longrightarrow> snd (stopSUTOnly (w_goos w) (w_os w) Background d) = finish_stop w c ch d1"
  by (auto simp: begin_stop_def stopSUTOnly_def sut_stop_def finish_stop_def split: prod.splits option.splits)

text \<open>From the point on where the reaper has found nothing busy, also with the rest of the daemon changed since.\<close>

definition idle_tick :: "'c world \<Rightarrow> go_time \<Rightarrow> reaper \<Rightarrow> 'c Daemon \<Rightarrow> bool \<times> reaper \<times> 'c Daemon" where
  "idle_tick w now r d =
     (let (r1, d2) =
        (if time_IsZero (rp_sutIdleSince r) then (r\<lparr>rp_sutIdleSince := now\<rparr>, d)
         else if idleTTL (dm_sut d) \<le> time_Sub now (rp_sutIdleSince r)
         then (r, snd (stopSUTOnly (w_goos w) (w_os w) Background d))
         else (r, d))
      in if time_IsZero (rp_idleSince r1) then (True, r1\<lparr>rp_idleSince := now\<rparr>, d2)
         else if dc_IdleTTL (dm_cfg d2) \<le> time_Sub now (rp_idleSince r1)
         then (False, r1, shutdownServer (w_goos w) (w_os w) (w_trm w) Background d2)
         else (True, r1, d2))"

lemma shutdown_runs:
  assumes "\<not> dm_done d"
  shows "interleaved w (reaper_at st (Shutting Closing) (d\<lparr>dm_done := True\<rparr>))
    (reaper_at st Gone (shutdownServer (w_goos w) (w_os w) (w_trm w) Background d))"
proof -
  let ?d1 = "d\<lparr>dm_done := True\<rparr>"
  let ?d2 = "snd (stopSUTOnly (w_goos w) (w_os w) Background ?d1)"
  let ?final = "reaper_at st Gone (shutdownServer (w_goos w) (w_os w) (w_trm w) Background d)"
  note run = reaper_runs [where t = None]
  have "reaper_step w None (Shutting ContainersDown) (snd (stopContainersOnly (w_trm w) ?d2)) =
      Some (Gone, shutdownServer (w_goos w) (w_os w) (w_trm w) Background d)"
    using assms by (simp add: shutdownServer_def shutting_def Let_def)
  then have "interleaved w (reaper_at st (Shutting ContainersDown) (snd (stopContainersOnly (w_trm w) ?d2))) ?final"
    by (rule run) (rule rtranclp.rtrancl_refl)
  then have down: "interleaved w (reaper_at st (Shutting SutDown) ?d2) ?final"
    by (intro run [of _ "Shutting SutDown"]) (simp_all add: shutting_def)
  obtain x d1 where x: "begin_stop w ?d1 = (x, d1)" by fastforce
  show ?thesis
  proof (cases x)
    case None
    with x stop_steps(1) have "?d2 = d1" by fastforce
    with down x None show ?thesis by (intro run [of _ "Shutting Closing"]) (simp_all add: shutting_def)
  next
    case (Some cch)
    obtain c ch where cch: "cch = (c, ch)" by force
    with x Some stop_steps(2) have d2: "?d2 = finish_stop w c ch d1" by blast
    have "interleaved w (reaper_at st (Shutting (StoppingLast c ch)) d1) ?final"
      using down unfolding d2 by (intro run [of _ "Shutting (StoppingLast c ch)"]) (simp_all add: shutting_def)
    with x Some cch show ?thesis by (intro run [of _ "Shutting Closing"]) (simp_all add: shutting_def)
  qed
qed

lemma deciding_runs:
  assumes "\<not> dm_done d"
  shows "interleaved w (reaper_at st (Deciding now r) d)
    (if time_IsZero (rp_idleSince r) then reaper_at st (Waiting (r\<lparr>rp_idleSince := now\<rparr>)) d
     else if dc_IdleTTL (dm_cfg d) \<le> time_Sub now (rp_idleSince r)
     then reaper_at st Gone (shutdownServer (w_goos w) (w_os w) (w_trm w) Background d)
     else reaper_at st (Waiting r) d)"
proof -
  let ?shut = "shutdownServer (w_goos w) (w_os w) (w_trm w) Background d"
  note run = reaper_runs [where t = None]
  show ?thesis
  proof (cases "time_IsZero (rp_idleSince r) \<or> \<not> dc_IdleTTL (dm_cfg d) \<le> time_Sub now (rp_idleSince r)")
    case True
    then show ?thesis
      by (cases "time_IsZero (rp_idleSince r)") (rule run [of _ "Deciding now r"], simp+)+
  next
    case False
    then have "reaper_step w None (Deciding now r) d = Some (Shutting Closing, d\<lparr>dm_done := True\<rparr>)"
      using assms by (simp add: shutting_def enter_shutdown_def)
    from run [OF this shutdown_runs [OF assms]] False show ?thesis by simp
  qed
qed

lemma stop_keeps: "dm_done (snd (stopSUTOnly g os ctx d)) = dm_done d"
  by (simp add: stopSUTOnly_def split: prod.split)

lemma idle_tick_runs:
  assumes "idle_tick w now r d = (go, r', d')" "\<not> dm_done d"
  shows "interleaved w (reaper_at st (NotBusy now r) d) (reaper_at st (if go then Waiting r' else Gone) d')"
proof -
  let ?sutStopped = "\<not> time_IsZero (rp_sutIdleSince r) \<and> idleTTL (dm_sut d) \<le> time_Sub now (rp_sutIdleSince r)"
  let ?r1 = "if time_IsZero (rp_sutIdleSince r) then r\<lparr>rp_sutIdleSince := now\<rparr> else r"
  let ?d2 = "if ?sutStopped then snd (stopSUTOnly (w_goos w) (w_os w) Background d) else d"
  note run = reaper_runs [where t = None]
  have "\<not> dm_done ?d2" using assms(2) by (simp add: stop_keeps)
  from deciding_runs [OF this, of w st now ?r1]
  have "interleaved w (reaper_at st (Deciding now ?r1) ?d2) (reaper_at st (if go then Waiting r' else Gone) d')"
    using assms(1) by (simp add: idle_tick_def Let_def split: if_splits)
  moreover have "interleaved w (reaper_at st (NotBusy now r) d) (reaper_at st (Deciding now ?r1) ?d2)"
  proof (cases ?sutStopped)
    case False
    then show ?thesis
      by (cases "time_IsZero (rp_sutIdleSince r)") (rule run [of _ "NotBusy now r"], simp+)+
  next
    case True
    obtain x d1 where x: "begin_stop w d = (x, d1)" by fastforce
    show ?thesis
    proof (cases x)
      case None
      with x stop_steps(1) have "?d2 = d1" using True by fastforce
      with True x None show ?thesis by (intro run [of _ "NotBusy now r"]) auto
    next
      case (Some cch)
      obtain c ch where cch: "cch = (c, ch)" by force
      with x Some stop_steps(2) True have d2: "?d2 = finish_stop w c ch d1" by auto
      have "interleaved w (reaper_at st (StoppingIdle now r c ch) d1) (reaper_at st (Deciding now ?r1) ?d2)"
        unfolding d2 using True by (intro run [of _ "StoppingIdle now r c ch"]) auto
      with True x Some cch show ?thesis by (intro run [of _ "NotBusy now r"]) auto
    qed
  qed
  ultimately show ?thesis by (meson rtranclp_trans)
qed

lemma reaper_tick_idle:
  "reaper_tick (w_goos w) (w_os w) (w_trm w) now r d =
     (let d1 = d\<lparr>dm_store := gc now (dm_store d)\<rparr> in
      if activeCount now (dm_store d1) > 0 \<or> dm_acquireInFlight d1 > 0 then (True, reaper_reset, d1) else idle_tick w now r d1)"
  by (simp add: reaper_tick_def idle_tick_def Let_def)

lemma serial_tick_runs:
  assumes "reaper_tick (w_goos w) (w_os w) (w_trm w) now r d = (go, r', d')" "\<not> dm_done d"
  shows "interleaved w (reaper_at st (Waiting r) d) (reaper_at st (if go then Waiting r' else Gone) d')"
proof -
  let ?d1 = "d\<lparr>dm_store := gc now (dm_store d)\<rparr>"
  note run = reaper_runs [where t = "Some now"]
  have "interleaved w (reaper_at st (Swept now r) ?d1) (reaper_at st (if go then Waiting r' else Gone) d')"
  proof (cases "activeCount now (dm_store ?d1) > 0")
    case True
    with assms(1) show ?thesis by (intro run [of _ "Swept now r"]) (auto simp: reaper_tick_idle Let_def)
  next
    case False
    have "interleaved w (reaper_at st (NoLease now r) ?d1) (reaper_at st (if go then Waiting r' else Gone) d')"
    proof (cases "dm_acquireInFlight d > 0")
      case True
      with assms(1) show ?thesis by (intro run [of _ "NoLease now r"]) (auto simp: reaper_tick_idle Let_def)
    next
      case idle: False
      with False assms(1) have "idle_tick w now r ?d1 = (go, r', d')" by (simp add: reaper_tick_idle)
      from idle_tick_runs [OF this, of st] assms(2) idle show ?thesis by (intro run [of _ "NoLease now r"]) simp_all
    qed
    with False show ?thesis by (intro run [of _ "Swept now r"]) simp_all
  qed
  then show ?thesis by (intro run [of _ "Waiting r"]) simp_all
qed

text \<open>
  The handler of an acquire request and the tick of the reaper, each taken as one operation, are runs of
  the interleaved daemon in which nothing comes between: what is shown of serial runs is the behaviour
  of the interleaved daemon when operations do not overlap.
\<close>

theorem serial_operations_are_runs:
  assumes "i < length (co_acquires st)" "\<not> dm_done d"
  shows "(\<forall>resp d'. handleAcquire (w_goos w) (w_os w) (w_trm w) sched ctx rd now answered rq d = Some (resp, d') \<longrightarrow>
      interleaved w (acquire_at st i rq Arrived d) (acquire_at st i rq (Answered resp) d')) \<and>
    (\<forall>go r' d'. reaper_tick (w_goos w) (w_os w) (w_trm w) now r d = (go, r', d') \<longrightarrow>
      interleaved w (reaper_at st (Waiting r) d) (reaper_at st (if go then Waiting r' else Gone) d'))"
  using assms serial_acquire_runs serial_tick_runs by blast

section \<open>Requests in flight\<close>

text \<open>The requests that have been counted and not yet been answered.\<close>

fun in_flight :: "acquire_pc \<Rightarrow> bool" where
  "in_flight Arrived = False"
| "in_flight (Answered resp) = False"
| "in_flight pc = True"

definition flight_exact :: "'c conc \<Rightarrow> bool" where
  "flight_exact st \<longleftrightarrow>
     dm_acquireInFlight (co_daemon st) = sum_list (map (\<lambda>(rq, pc). of_bool (in_flight pc)) (co_acquires st))"

lemma stop_in_flight [simp]:
  "begin_stop w d = (x, d') \<Longrightarrow> dm_acquireInFlight d' = dm_acquireInFlight d"
  "dm_acquireInFlight (finish_stop w c ch d) = dm_acquireInFlight d"
  by (auto simp: begin_stop_def finish_stop_def split: option.splits prod.splits)

lemma acquire_step_in_flight:
  assumes "acquire_step w sched ctx rd now answered rq pc d = Some (pc', d')"
  shows "dm_acquireInFlight d' = dm_acquireInFlight d + of_bool (in_flight pc') - of_bool (in_flight pc)"
  using assms by (cases pc) (auto simp: Let_def split: if_splits sum.splits option.splits prod.splits)

lemma shutting_in_flight [simp]: "shutting x = (rp, d) \<Longrightarrow> dm_acquireInFlight d = dm_acquireInFlight (snd x)"
  by (auto simp: shutting_def split: prod.splits shutdown_pc.splits)

lemma enter_in_flight [simp]: "dm_acquireInFlight (snd (enter_shutdown d)) = dm_acquireInFlight d"
  by (simp add: enter_shutdown_def)

lemma shutdown_step_in_flight:
  "shutdown_step w p d = Some (p', d') \<Longrightarrow> dm_acquireInFlight d' = dm_acquireInFlight d"
  by (cases p) (auto split: option.splits prod.splits)

lemma reaper_step_in_flight:
  assumes "reaper_step w t rp d = Some (rp', d')"
  shows "dm_acquireInFlight d' = dm_acquireInFlight d"
  using assms
  by (cases "(w, t, rp, d)" rule: reaper_step.cases)
    (auto simp: Let_def split: if_splits option.splits prod.splits dest: shutdown_step_in_flight)

lemma flight_exact_step:
  assumes "interleave w st st'" "flight_exact st"
  shows "flight_exact st'"
  using assms(1)
proof (cases rule: interleave.cases)
  case (Acquires i rq pc sched ctx rd now answered pc' d')
  let ?f = "\<lambda>(rq, pc). of_bool (in_flight pc) :: int"
  obtain rest where rest: "sum_list (map ?f (co_acquires st)) = ?f (co_acquires st ! i) + rest"
    "\<And>v. sum_list (map ?f ((co_acquires st)[i := v])) = ?f v + rest"
    using sum_list_map_split [OF Acquires(2)] by blast
  with assms(2) acquire_step_in_flight [OF Acquires(4)] Acquires(1,3) show ?thesis by (simp add: flight_exact_def)
next
  case (Reaps t pc' d')
  with assms(2) reaper_step_in_flight [OF Reaps(2)] show ?thesis by (simp add: flight_exact_def)
next
  case (Interrupts p d')
  with assms(2) enter_in_flight [of "co_daemon st"] show ?thesis by (simp add: flight_exact_def)
next
  case (Closes p p' d')
  with assms(2) shutdown_step_in_flight [OF Closes(3)] show ?thesis by (simp add: flight_exact_def)
next
  case (Snapshots x m s)
  with assms(2) show ?thesis by (simp add: flight_exact_def)
next
  case (Others wr now resp d')
  with assms(2) serve_in_flight [OF Others(3)] show ?thesis by (simp add: flight_exact_def)
qed

text \<open>
  C21. The counter of requests in flight is exact in every interleaving, and the reaper takes the daemon for idle
  only at a moment when no acquire request is between its first and its last step.
\<close>

theorem counter_is_exact:
  assumes "interleaved w st st'" "flight_exact st"
  shows "flight_exact st' \<and>
    (\<forall>now r st''. co_reaper st' = NoLease now r \<and> interleave w st' st'' \<and> co_reaper st'' = NotBusy now r \<longrightarrow>
       (\<forall>(rq, pc)\<in>set (co_acquires st'). \<not> in_flight pc))"
proof -
  have exact: "flight_exact st'"
    using assms by (induction rule: rtranclp_induct) (auto intro: flight_exact_step)
  moreover have "\<not> in_flight pc"
    if "co_reaper st' = NoLease now r" "interleave w st' st''" "co_reaper st'' = NotBusy now r" "(rq, pc) \<in> set (co_acquires st')"
    for now r st'' rq pc
  proof -
    have idle: "\<not> 0 < dm_acquireInFlight (co_daemon st')"
      using that(2) that(1,3) by (cases rule: interleaveE) (auto split: if_splits)
    show ?thesis
    proof
      assume "in_flight pc"
      let ?xs = "map (\<lambda>(rq, pc). of_bool (in_flight pc) :: int) (co_acquires st')"
      have "1 \<in> set ?xs" using that(4) \<open>in_flight pc\<close> by force
      moreover have "\<forall>x\<in>set ?xs. 0 \<le> x" by auto
      ultimately have "1 \<le> sum_list ?xs" by (meson member_le_sum_list)
      with idle exact show False by (simp add: flight_exact_def)
    qed
  qed
  ultimately show ?thesis by blast
qed

section \<open>An acquire between the two checks\<close>

lemma at_commute: "acquire_at (reaper_at st rp d) i rq pc d' = reaper_at (acquire_at st i rq pc d') rp d'"
  by (simp add: acquire_at_def reaper_at_def)

lemma at_same: "reaper_at (acquire_at st i rq pc d) rp d' = reaper_at (acquire_at st i rq pc d') rp d'"
  by (simp add: acquire_at_def reaper_at_def)

lemma handleAcquire_200:
  assumes "handleAcquire g os trm sched ctx rd now answered rq d = Some (resp, d')" "rs_Status resp = 200" "daemon_ok d"
  obtains req where "rq_Body rq = Inr req"
    "rs_Body resp = AcquireBody \<lparr>resp_LeaseID = lease_ident (rd, acq_PID req), resp_AcquiredAt = answered\<rparr>"
  using assms(1)
proof (cases rule: handleAcquire_cases)
  case (processed d1)
  let ?d0 = "d\<lparr>dm_acquireInFlight := dm_acquireInFlight d + 1\<rparr>"
  have ok0: "daemon_ok ?d0" using assms(3) by (simp add: daemon_ok_def)
  from processed(1) ok0 show thesis
    by (cases rule: acquire_body_cases) (use assms(2) that in simp_all)
qed (use assms(2) in simp)

lemma idle_tick_shutdown:
  assumes "daemon_ok d" "\<not> dm_done d" "rp_idleSince r \<noteq> 0" "dc_IdleTTL (dm_cfg d) \<le> time_Sub now (rp_idleSince r)"
  obtains r' d1 where "idle_tick w now r d = (False, r', shutdownServer (w_goos w) (w_os w) (w_trm w) Background d1)"
    "daemon_ok d1" "\<not> dm_done d1" "dm_store d1 = dm_store d" "dm_bundle d1 = dm_bundle d" "dm_infraStarted d1 = dm_infraStarted d"
    "isEnabled (dm_sut d1) = isEnabled (dm_sut d)"
proof -
  let ?stop = "\<not> time_IsZero (rp_sutIdleSince r) \<and> idleTTL (dm_sut d) \<le> time_Sub now (rp_sutIdleSince r)"
  let ?d1 = "if ?stop then snd (stopSUTOnly (w_goos w) (w_os w) Background d) else d"
  obtain x d2 where stop: "stopSUTOnly (w_goos w) (w_os w) Background d = (x, d2)" by fastforce
  have facts: "same_frame d ?d1 \<and> daemon_ok ?d1 \<and> dm_store ?d1 = dm_store d \<and> dm_bundle ?d1 = dm_bundle d \<and> dm_infraStarted ?d1 = dm_infraStarted d"
    using stopSUT_spec [OF stop assms(1)] stop assms(1) by simp
  let ?r1 = "if time_IsZero (rp_sutIdleSince r) then r\<lparr>rp_sutIdleSince := now\<rparr> else r"
  have "idle_tick w now r d = (False, ?r1, shutdownServer (w_goos w) (w_os w) (w_trm w) Background ?d1)"
    using assms(3,4) facts by (simp add: idle_tick_def same_frame_def time_IsZero_def Let_def)
  from that [OF this] facts assms(2) show thesis by (simp add: same_frame_def isEnabled_def)
qed

text \<open>
  The reaper counts the leases before it looks for requests in flight, so a request that comes and goes
  between the two is seen by neither: when a tick finds no lease and the daemon has been idle for its time,
  and a running environment grants a lease in between, then there is an interleaving in which the client gets
  its lease with status 200 for a full lease time and the same tick shuts the daemon down, terminates every
  container and leaves no process of the service alive, except one whose kill the operating system refused.
\<close>

theorem lease_lost_between_checks:
  assumes "i < length (co_acquires st)" "daemon_ok d" "\<not> dm_done d" "dm_infraStarted d" "dm_acquireInFlight d = 0"
    and "activeCount now (gc now (dm_store d)) = 0"
    and "rp_idleSince r \<noteq> 0" "dc_IdleTTL (dm_cfg d) \<le> time_Sub now (rp_idleSince r)"
    and grant: "handleAcquire (w_goos w) (w_os w) (w_trm w) sched ctx rd granted answered rq (d\<lparr>dm_store := gc now (dm_store d)\<rparr>) =
      Some (resp, d2)" "rs_Status resp = 200"
  shows "\<exists>d3 lid. interleaved w (reaper_at (acquire_at st i rq Arrived d) (Waiting r) d)
      (reaper_at (acquire_at st i rq (Answered resp) d3) Gone d3) \<and>
    rs_Body resp = AcquireBody \<lparr>resp_LeaseID = lid, resp_AcquiredAt = answered\<rparr> \<and>
    lease_expiry (dm_store d3) lid = Some (granted + LeaseTTL) \<and>
    dm_done d3 \<and> set (somes (bd_cleanup (dm_bundle d))) \<subseteq> set (terminated (sys_log (dm_sys d3))) \<and>
    (isEnabled (dm_sut d) \<longrightarrow> live_pids (sys_log (dm_sys d3)) \<subseteq> kill_failed (sys_log (dm_sys d3)))"
proof -
  let ?d1 = "d\<lparr>dm_store := gc now (dm_store d)\<rparr>"
  let ?req = "\<lambda>pc d. acquire_at st i rq pc d"
  have st1: "store_ok (dm_store ?d1)" using assms(2) store.ok_run [of "dm_store d" "[(now, Sweep)]"] by (simp add: daemon_ok_def)
  then have ok1: "daemon_ok ?d1" using assms(2) by (simp add: daemon_ok_def)
  obtain req where req: "rq_Body rq = Inr req"
    "rs_Body resp = AcquireBody \<lparr>resp_LeaseID = lease_ident (rd, acq_PID req), resp_AcquiredAt = answered\<rparr>"
    using grant ok1 by (rule handleAcquire_200)
  let ?lid = "lease_ident (rd, acq_PID req)"
  from served_acquire [OF grant(1) ok1] grant(2) req(1) have
    d2: "same_frame ?d1 d2" "dm_store d2 = store_grant (rd, acq_PID req) granted (dm_store ?d1)" "daemon_ok d2" "dm_infraStarted d2"
      "dm_bundle d2 = dm_bundle d"
    using assms(4) by (simp_all add: served_def)
  have idle2: "\<not> dm_done d2" "dc_IdleTTL (dm_cfg d2) \<le> time_Sub now (rp_idleSince r)" "dm_acquireInFlight d2 = 0"
    "isEnabled (dm_sut d2) = isEnabled (dm_sut d)"
    using d2(1) assms(3,5,8) by (simp_all add: same_frame_def isEnabled_def)
  obtain r' e where tick: "idle_tick w now r d2 = (False, r', shutdownServer (w_goos w) (w_os w) (w_trm w) Background e)"
    and e: "daemon_ok e" "\<not> dm_done e" "dm_store e = dm_store d2" "dm_bundle e = dm_bundle d2" "dm_infraStarted e = dm_infraStarted d2"
      "isEnabled (dm_sut e) = isEnabled (dm_sut d2)"
    using d2(3) idle2(1) assms(7) idle2(2) by (rule idle_tick_shutdown)
  let ?d3 = "shutdownServer (w_goos w) (w_os w) (w_trm w) Background e"
  have "interleaved w (reaper_at (?req Arrived d) (Waiting r) d) (reaper_at (?req Arrived d) (NoLease now r) ?d1)"
  proof -
    have sweep: "reaper_step w (Some now) (Waiting r) d = Some (Swept now r, ?d1)" by simp
    have none: "reaper_step w None (Swept now r) ?d1 = Some (NoLease now r, ?d1)"
      by (simp add: assms(6))
    have "interleaved w (reaper_at (?req Arrived d) (Swept now r) ?d1) (reaper_at (?req Arrived d) (NoLease now r) ?d1)"
      by (rule r_into_rtranclp, rule interleave_reaper, rule none)
    with sweep show ?thesis by (rule reaper_runs)
  qed
  also have "reaper_at (?req Arrived d) (NoLease now r) ?d1 = acquire_at (reaper_at st (NoLease now r) ?d1) i rq Arrived ?d1"
    unfolding at_commute by (rule at_same)
  also have "interleaved w \<dots> (acquire_at (reaper_at st (NoLease now r) ?d1) i rq (Answered resp) d2)"
    by (rule serial_acquire_runs [OF grant(1)]) (simp add: assms(1))
  also have "acquire_at (reaper_at st (NoLease now r) ?d1) i rq (Answered resp) d2 = reaper_at (?req (Answered resp) d2) (NoLease now r) d2"
    by (simp add: at_commute)
  also have "interleaved w \<dots> (reaper_at (?req (Answered resp) d2) (NotBusy now r) d2)"
    using idle2(3) by (intro r_into_rtranclp interleave_reaper [where t = None]) simp
  also have "interleaved w \<dots> (reaper_at (?req (Answered resp) d2) Gone ?d3)"
    using idle_tick_runs [OF tick idle2(1)] by simp
  finally have run: "interleaved w (reaper_at (?req Arrived d) (Waiting r) d) (reaper_at (?req (Answered resp) ?d3) Gone ?d3)"
    by (subst (asm) at_same [of _ _ _ _ d2])
  note down = shutdown_spec [OF e(1,2) refl, of "w_goos w" "w_os w" "w_trm w" Background]
  from down obtain cont mid where log: "sys_log (dm_sys ?d3) =
      RuntimeRemoved (dm_runtimePath e) # (if dm_serving e then [ServerShutdown] else []) @ cont @ mid"
    "isEnabled (dm_sut e) \<longrightarrow> unsettled_pids mid = {}" "only_terminates cont" "terminated cont = somes (bd_cleanup (dm_bundle e))"
    using e(5) d2(4) by auto
  have "isEnabled (dm_sut d) \<longrightarrow> live_pids (sys_log (dm_sys ?d3)) \<subseteq> kill_failed (sys_log (dm_sys ?d3))"
    unfolding unsettled_empty [symmetric] using log(1,2) only_terminates_live [OF log(3)] e(6) idle2(4) by simp
  moreover have "set (somes (bd_cleanup (dm_bundle d))) \<subseteq> set (terminated (sys_log (dm_sys ?d3)))"
    using log(1,4) e(4) d2(5) by auto
  moreover have "lease_expiry (dm_store ?d3) ?lid = Some (granted + LeaseTTL)"
    using store.expiry_grant [OF st1, of "(rd, acq_PID req)" granted ?lid] down e(3) d2(2) by simp
  moreover have "dm_done ?d3" using down by blast
  ultimately show ?thesis using run req(2) by (intro exI [of _ ?d3] exI [of _ ?lid]) simp
qed

definition conc_start :: "nat Daemon \<Rightarrow> nat conc" where
  "conc_start d = \<lparr>co_daemon = d, co_acquires = [(sample_acquire, Arrived)], co_reaper = Waiting reaper_reset,
     co_interrupt = None\<rparr>"

lemma expired_sample: "activeCount (20 * time_Second) (gc (20 * time_Second) sample_store) = 0"
  by (simp add: activeCount_gc_length gc_filter) (simp add: sample_store_eq time_After_def)

theorem lease_lost_between_checks_witness:
  "\<exists>d3 resp lid. interleaved sample_world
      (reaper_at (acquire_at (conc_start sample_daemon) 0 sample_acquire Arrived sample_daemon)
         (Waiting \<lparr>rp_idleSince = 1, rp_sutIdleSince = 0\<rparr>) sample_daemon)
      (reaper_at (acquire_at (conc_start sample_daemon) 0 sample_acquire (Answered resp) d3) Gone d3) \<and>
    rs_Status resp = 200 \<and> lease_expiry (dm_store d3) lid = Some (20 * time_Second + 5 + LeaseTTL) \<and>
    {1, 2} \<subseteq> set (terminated (sys_log (dm_sys d3)))"
proof -
  let ?r = "\<lparr>rp_idleSince = 1, rp_sutIdleSince = 0\<rparr>" and ?now = "20 * time_Second"
  obtain resp d2 where grant: "handleAcquire (w_goos sample_world) (w_os sample_world) (w_trm sample_world) [] Background sample_rand (?now + 5) 7
      sample_acquire (sample_daemon\<lparr>dm_store := gc ?now (dm_store sample_daemon)\<rparr>) = Some (resp, d2)" "rs_Status resp = 200"
    using sample_granted_at [of "?now + 5" 7 "gc ?now (dm_store sample_daemon)"] by (auto simp: sample_world_def)
  have "0 < length (co_acquires (conc_start sample_daemon))" by (simp add: conc_start_def)
  moreover have "\<not> dm_done sample_daemon" "dm_infraStarted sample_daemon" "dm_acquireInFlight sample_daemon = 0"
    "activeCount ?now (gc ?now (dm_store sample_daemon)) = 0" "rp_idleSince ?r \<noteq> 0"
    "dc_IdleTTL (dm_cfg sample_daemon) \<le> time_Sub ?now (rp_idleSince ?r)"
    using expired_sample by (simp_all add: sample_daemon_def sample_dcfg_def time_Sub_def)
  moreover have "somes (bd_cleanup (dm_bundle sample_daemon)) = [1, 2]" by (simp add: sample_daemon_def up_bundle_def)
  ultimately show ?thesis
    using lease_lost_between_checks [OF _ sample_daemon_ok _ _ _ _ _ _ grant, of 0 "conc_start sample_daemon" ?r] grant(2) by fastforce
qed

theorem counter_is_exact_witness:
  "\<exists>st'. interleaved sample_world (conc_start sample_daemon) st' \<and> dm_acquireInFlight (co_daemon st') = 1 \<and> flight_exact st'"
proof -
  let ?st' = "acquire_at (conc_start sample_daemon) 0 sample_acquire Counted
     (sample_daemon\<lparr>dm_acquireInFlight := dm_acquireInFlight sample_daemon + 1\<rparr>)"
  have "interleave sample_world (acquire_at (conc_start sample_daemon) 0 sample_acquire Arrived sample_daemon) ?st'"
    by (rule interleave_acquire) (simp_all add: sample_acquire_def conc_start_def)
  moreover have "acquire_at (conc_start sample_daemon) 0 sample_acquire Arrived sample_daemon = conc_start sample_daemon"
    by (simp add: acquire_at_def conc_start_def)
  ultimately have run: "interleaved sample_world (conc_start sample_daemon) ?st'" by (simp add: r_into_rtranclp)
  have "flight_exact (conc_start sample_daemon)" by (simp add: flight_exact_def conc_start_def sample_daemon_def)
  with counter_is_exact [OF run] run show ?thesis by (auto simp: sample_daemon_def)
qed

section \<open>A start during a stop\<close>

lemma sample_launch_at:
  "\<exists>c f. launch Unix sample_os sample_plan sample_input s =
     (Inr c, emit (SpawnReturn (Inr (100 + length (spawned_pids (sys_log s))))) (emit (LogOpened f None) s)) \<and>
     cmd_Process c = Some (100 + length (spawned_pids (sys_log s)))"
proof -
  have trims: "strings_TrimSpace ''/bin/app'' = ''/bin/app''" "strings_TrimSpace ''/srv'' = ''/srv''"
    by (rule TrimSpace_id; simp add: space_byte_def space_runes_def)+
  obtain f where f: "OpenAppLogFile sample_os (in_RuntimePath sample_input) s = (Inr f, emit (LogOpened f None) s)"
    by (simp add: OpenAppLogFile_def openLogFile_def Let_def)
  have "validateCommand sample_os (Some sample_cmd) s = None"
    by (simp add: validateCommand_def sample_cmd_def trims)
  then have "\<exists>c. launch Unix sample_os sample_plan sample_input s =
     (Inr c, emit (SpawnReturn (Inr (100 + length (spawned_pids (sys_log s))))) (emit (LogOpened f None) s)) \<and>
     cmd_Process c = Some (100 + length (spawned_pids (sys_log s)))"
    by (simp add: launch_def sample_plan_def f prepareSUTCommand_def unix_prepareSUTCommand_def Let_def
        start_process_def afterSUTStart_def unix_afterSUTStart_def)
  then show ?thesis by blast
qed

lemma sample_started_at:
  assumes "sm_boot m = Some sample_plan" "sm_cmd m = None"
  shows "\<exists>c f. cmd_Process c = Some (100 + length (spawned_pids (sys_log s))) \<and>
    ensureStarted Unix sample_os Background sample_input m s =
      (let s' = emit (Blocked (400 * time_Millisecond)) (emit (SpawnReturn (Inr (100 + length (spawned_pids (sys_log s))))) (emit (LogOpened f None) s))
       in Some (None, sut_started c (100 + length (spawned_pids (sys_log s))) (slept_time (sys_log s')) m, s'))"
proof -
  obtain c f where l: "launch Unix sample_os sample_plan sample_input s =
      (Inr c, emit (SpawnReturn (Inr (100 + length (spawned_pids (sys_log s))))) (emit (LogOpened f None) s))"
    "cmd_Process c = Some (100 + length (spawned_pids (sys_log s)))"
    using sample_launch_at by blast
  have en: "isEnabled m" using assms(1) by (simp add: isEnabled_def sample_plan_def)
  have off: "isRunningLocked sample_os m s = (False, m, s)" by (simp add: isRunningLocked_def assms(2) process_of_def)
  show ?thesis
    by (intro exI [of _ c] exI [of _ f])
      (simp add: ensureStarted_def en off assms l waitSUTReady_def blocking_select_def Let_def)
qed

text \<open>
  \<^verbatim>\<open>stop\<close> forgets the process and gives up its mutex before the process is gone. So an acquire that comes
  between finds no service and starts one: the run below ends with the processes 100, still
  being stopped, and 101, of the request, both alive.
\<close>

theorem two_services_at_once:
  "\<exists>d r c d'. ensureSUTStarted Unix sample_os Background sample_daemon = Some (None, d) \<and>
     interleaved sample_world (reaper_at (acquire_at (conc_start d) 0 sample_acquire Arrived d) (NotBusy (20 * time_Second) r) d)
       (reaper_at (acquire_at (conc_start d) 0 sample_acquire
          (SutUp \<lparr>acq_Project = ''shop'', acq_PID = 42, acq_RunID = []\<rparr>) d') (StoppingIdle (20 * time_Second) r c 100) d') \<and>
     live_pids (sys_log (dm_sys d')) = {100, 101}"
proof -
  let ?now = "20 * time_Second" and ?r = "\<lparr>rp_idleSince = 1, rp_sutIdleSince = 1\<rparr>"
  let ?req = "\<lparr>acq_Project = ''shop'', acq_PID = 42, acq_RunID = []\<rparr> :: AcquireReq"
  let ?m = "newSUTManager (Some sample_plan) :: nat sutManager"
  obtain c f where first: "ensureStarted Unix sample_os Background sample_input ?m empty_sys =
     Some (None, sut_started c 100 (400 * time_Millisecond + 1) ?m,
       \<lparr>sys_log = [Blocked (400 * time_Millisecond), SpawnReturn (Inr 100), LogOpened f None], sys_jobs = []\<rparr>)"
    "cmd_Process c = Some 100"
    using sample_started by blast
  define s where "s = (\<lparr>sys_log = [Blocked (400 * time_Millisecond), SpawnReturn (Inr 100), LogOpened f None], sys_jobs = []\<rparr> :: nat sys)"
  define m where "m = sut_started c 100 (400 * time_Millisecond + 1) ?m"
  define d where "d = sample_daemon\<lparr>dm_sut := m, dm_sys := s\<rparr>"
  define m1 where "m1 = m\<lparr>sm_cmd := None, sm_waitCh := None\<rparr>"
  define d1 where "d1 = d\<lparr>dm_sut := m1\<rparr>"
  have start: "ensureSUTStarted Unix sample_os Background sample_daemon = Some (None, d)"
    using first(1) by (simp add: ensureSUTStarted_def sample_daemon_def sample_dcfg_def sample_input_def d_def m_def s_def)
  have m: "sm_cmd m = Some c" "sm_waitCh m = Some 100" "sm_boot m = Some sample_plan" "isEnabled m" "idleTTL m = 2 * time_Second"
    by (simp_all add: m_def sut_started_def newSUTManager_def isEnabled_def idleTTL_def sample_plan_def)
  have d: "dm_sut d = m" "dm_sys d = s" by (simp_all add: d_def)
  have "isRunningLocked sample_os m s = (True, m, s)"
    by (simp add: isRunningLocked_def m first(2) process_of_def)
  then have "stop_locked sample_os m s = (Some (c, 100), m1, s)" by (simp add: stop_locked_def m m1_def)
  moreover have "d\<lparr>dm_sut := m1, dm_sys := s\<rparr> = d1" by (simp add: d1_def d_def)
  ultimately have begun: "begin_stop sample_world d = (Some (c, 100), d1)"
    by (simp add: begin_stop_def sample_world_def d)
  obtain c' f' where second: "ensureStarted Unix sample_os Background sample_input m1 s =
      (let s' = emit (Blocked (400 * time_Millisecond)) (emit (SpawnReturn (Inr 101)) (emit (LogOpened f' None) s))
       in Some (None, sut_started c' 101 (slept_time (sys_log s')) m1, s'))"
    using sample_started_at [of m1 s] by (auto simp: m1_def m s_def)
  then obtain d2 where up: "ensureSUTStarted Unix sample_os Background (d1\<lparr>dm_acquireInFlight := 1\<rparr>) = Some (None, d2)"
    "live_pids (sys_log (dm_sys d2)) = {100, 101}"
    by (auto simp: ensureSUTStarted_def d1_def d_def sample_daemon_def sample_dcfg_def sample_input_def Let_def s_def emit_def)
  let ?st = "conc_start d" and ?stop = "StoppingIdle ?now ?r c 100"
  let ?d3 = "d1\<lparr>dm_acquireInFlight := 1\<rparr>"
  have world: "w_goos sample_world = Unix" "w_os sample_world = sample_os" by (simp_all add: sample_world_def)
  have len: "0 < length (co_acquires (reaper_at ?st ?stop x))" for x by (simp add: conc_start_def reaper_at_def)
  have "reaper_step sample_world None (NotBusy ?now ?r) d = Some (?stop, d1)"
    using begun by (simp add: time_IsZero_def d m time_Sub_def)
  then have "interleave sample_world (reaper_at (acquire_at ?st 0 sample_acquire Arrived d) (NotBusy ?now ?r) d)
      (reaper_at (acquire_at ?st 0 sample_acquire Arrived d) ?stop d1)" by (rule interleave_reaper)
  then have A: "interleaved sample_world (reaper_at (acquire_at ?st 0 sample_acquire Arrived d) (NotBusy ?now ?r) d)
      (acquire_at (reaper_at ?st ?stop d1) 0 sample_acquire Arrived d1)"
    unfolding at_commute at_same [of _ _ _ _ d _ d1] by (rule r_into_rtranclp)
  have B: "interleaved sample_world (acquire_at (reaper_at ?st ?stop d1) 0 sample_acquire Arrived d1)
      (acquire_at (reaper_at ?st ?stop d1) 0 sample_acquire (SutUp ?req) d2)"
  proof -
    note run = acquire_runs [OF _ len, where sched = "[]" and ctx = Background and rd = sample_rand and now = 0 and answered = 0]
    have "interleaved sample_world (acquire_at (reaper_at ?st ?stop d1) 0 sample_acquire (InfraUp ?req) ?d3)
        (acquire_at (reaper_at ?st ?stop d1) 0 sample_acquire (SutUp ?req) d2)"
      by (rule run [of _ _ "InfraUp ?req"], simp add: up(1) world) simp
    then have "interleaved sample_world (acquire_at (reaper_at ?st ?stop d1) 0 sample_acquire (Decoded ?req) ?d3)
        (acquire_at (reaper_at ?st ?stop d1) 0 sample_acquire (SutUp ?req) d2)"
      by (intro run [of _ _ "Decoded ?req"]) (simp_all add: ensureInfraStarted_def d1_def d_def sample_daemon_def)
    then have "interleaved sample_world (acquire_at (reaper_at ?st ?stop d1) 0 sample_acquire Counted ?d3)
        (acquire_at (reaper_at ?st ?stop d1) 0 sample_acquire (SutUp ?req) d2)"
      by (intro run [of _ _ Counted]) (simp_all add: sample_acquire_def)
    then show ?thesis
      by (intro run [of _ _ Arrived]) (simp_all add: sample_acquire_def d1_def d_def sample_daemon_def)
  qed
  have "interleaved sample_world (reaper_at (acquire_at ?st 0 sample_acquire Arrived d) (NotBusy ?now ?r) d)
      (reaper_at (acquire_at ?st 0 sample_acquire (SutUp ?req) d2) ?stop d2)"
    using rtranclp_trans [OF A B] unfolding at_commute .
  then show ?thesis using start up(2) by blast
qed

section \<open>A request protects the environment\<close>

text \<open>The requests that have seen the containers running and will answer on that ground.\<close>

fun needs_containers :: "acquire_pc \<Rightarrow> bool" where
  "needs_containers (InfraUp req) = True"
| "needs_containers (SutUp req) = True"
| "needs_containers pc = False"

text \<open>The flag of the daemon is that of the bundle.\<close>

definition flags_agree :: "'c Daemon \<Rightarrow> bool" where
  "flags_agree d \<longleftrightarrow> (dm_infraStarted d \<longleftrightarrow> Started (dm_bundle d))"

lemma StartAll_started:
  assumes "StartAll trm sched dn b h = Some (r, b', h')"
  shows "bd_started b' \<longleftrightarrow> bd_started b \<or> r = None"
proof (cases "bd_started b")
  case False
  then have "adopt rs m b = (x, b1) \<Longrightarrow> \<not> bd_started b1" for rs m x b1
    using adopt_frame [of rs m b] by simp
  with assms False show ?thesis
    by (auto simp: StartAll_def rollback_def resetState_def Let_def split: option.splits sum.splits prod.splits)
qed (use assms in \<open>simp add: StartAll_def\<close>)

lemma StopAll_started:
  "StopAll trm b h = (r, b', h') \<Longrightarrow> bd_started b' = (bd_started b \<and> r \<noteq> None)"
  by (auto simp: StopAll_def resetState_def split: prod.splits option.splits)

text \<open>What a step may do to the two flags: only the stop of the containers takes them away.\<close>

definition keeps_up :: "'c Daemon \<Rightarrow> 'c Daemon \<Rightarrow> bool" where
  "keeps_up d d' \<longleftrightarrow> (dm_infraStarted d \<longrightarrow> dm_infraStarted d') \<and> (dm_done d \<longrightarrow> dm_done d') \<and> (flags_agree d \<longrightarrow> flags_agree d')"

lemma keeps_up_same:
  "dm_infraStarted d' = dm_infraStarted d \<Longrightarrow> dm_done d' = dm_done d \<Longrightarrow> dm_bundle d' = dm_bundle d \<Longrightarrow> keeps_up d d'"
  by (simp add: keeps_up_def flags_agree_def)

lemma ensureInfra_up:
  assumes "ensureInfraStarted trm sched ctx d = Some (r, d')"
  shows "keeps_up d d' \<and> (r = None \<longrightarrow> dm_infraStarted d')"
  using assms StartAll_started
  by (fastforce simp: ensureInfraStarted_def keeps_up_def flags_agree_def Started_def Let_def split: if_splits option.splits)

lemma ensureSUT_up: "ensureSUTStarted g os ctx d = Some (r, d') \<Longrightarrow> keeps_up d d' \<and> dm_infraStarted d' = dm_infraStarted d"
  by (auto simp: ensureSUTStarted_def intro!: keeps_up_same split: option.splits)

lemma stop_flags [simp]:
  "begin_stop w d = (x, d1) \<Longrightarrow> dm_infraStarted d1 = dm_infraStarted d \<and> dm_done d1 = dm_done d \<and> dm_bundle d1 = dm_bundle d"
  "dm_infraStarted (finish_stop w c ch d) = dm_infraStarted d" "dm_done (finish_stop w c ch d) = dm_done d"
  "dm_bundle (finish_stop w c ch d) = dm_bundle d"
  by (auto simp: begin_stop_def finish_stop_def split: prod.splits option.splits)

lemma stopContainers_agree:
  "flags_agree d \<Longrightarrow> flags_agree (snd (stopContainersOnly trm d)) \<and> dm_done (snd (stopContainersOnly trm d)) = dm_done d"
  using StopAll_started
  by (fastforce simp: stopContainersOnly_def flags_agree_def Started_def Let_def split: prod.splits option.splits)

lemma acquire_step_up:
  assumes "acquire_step w sched ctx rd now answered rq pc d = Some (pc', d')"
  shows "keeps_up d d' \<and> (needs_containers pc' \<longrightarrow> needs_containers pc \<or> dm_infraStarted d')"
proof (cases pc)
  case (Decoded req)
  then obtain r where r: "ensureInfraStarted (w_trm w) sched ctx d = Some (r, d')" "needs_containers pc' \<longrightarrow> r = None"
    using assms by (auto split: option.splits)
  with ensureInfra_up [OF r(1)] show ?thesis by blast
next
  case (InfraUp req)
  then obtain r where "ensureSUTStarted (w_goos w) (w_os w) ctx d = Some (r, d')"
    using assms by (auto split: option.splits)
  with ensureSUT_up [OF this] InfraUp show ?thesis by simp
qed (use assms in \<open>auto simp: keeps_up_def flags_agree_def Let_def split: if_splits sum.splits prod.splits\<close>)

lemma serve_up:
  assumes "serve w sched ctx rd now answered wr d = Some (resp, d')" "wr_Path wr \<notin> {PathAcquire, PathState}"
  shows "keeps_up d d' \<and> dm_done d' = dm_done d"
  using assms
  by (auto simp: serve_def withAuth_def handleHeartbeat_def handleRelease_def Let_def
      intro!: keeps_up_same split: if_splits sum.splits prod.splits bool.splits)

text \<open>The reaper has not yet found the daemon idle in its tick.\<close>

fun looking :: "reaper_pc \<Rightarrow> bool" where
  "looking (Waiting r) = True"
| "looking (Swept now r) = True"
| "looking (NoLease now r) = True"
| "looking rp = False"

lemma acquire_step_done:
  "acquire_step w sched ctx rd now answered rq pc d = Some (pc', d') \<Longrightarrow> dm_done d' = dm_done d"
  by (cases pc) (auto simp: Let_def split: if_splits sum.splits option.splits prod.splits dest: ensure_frame)

lemma acquire_step_flying:
  "acquire_step w sched ctx rd now answered rq pc d = Some (pc', d') \<Longrightarrow> in_flight pc \<Longrightarrow> in_flight pc' \<or> (\<exists>resp. pc' = Answered resp)"
  by (cases pc) (auto simp: Let_def split: if_splits sum.splits option.splits prod.splits)

lemma looking_step:
  assumes "reaper_step w t rp d = Some (rp', d')" "looking rp" "0 < dm_acquireInFlight d" "\<not> dm_done d"
  shows "looking rp' \<and> keeps_up d d' \<and> dm_done d' = dm_done d"
  using assms
  by (cases "(w, t, rp, d)" rule: reaper_step.cases) (auto simp: keeps_up_def flags_agree_def split: if_splits)

text \<open>The invariant of the request at a position, from the moment it is in flight: it is answered, or an interrupt has come, or it is safe.\<close>

definition guarded :: "nat \<Rightarrow> 'c conc \<Rightarrow> bool" where
  "guarded i st \<longleftrightarrow>
     i < length (co_acquires st) \<and> flight_exact st \<and>
     (let pc = snd (co_acquires st ! i); d = co_daemon st
      in (\<exists>resp. pc = Answered resp) \<or>
         in_flight pc \<and>
         (co_interrupt st \<noteq> None \<or>
          \<not> dm_done d \<and> looking (co_reaper st) \<and> flags_agree d \<and> (needs_containers pc \<longrightarrow> dm_infraStarted d)))"

lemma in_flight_counted:
  assumes "flight_exact st" "i < length (co_acquires st)" "in_flight (snd (co_acquires st ! i))"
  shows "0 < dm_acquireInFlight (co_daemon st)"
proof -
  let ?xs = "map (\<lambda>(rq, pc). of_bool (in_flight pc) :: int) (co_acquires st)"
  have "?xs ! i = 1" using assms(2,3) by (simp add: case_prod_beta)
  then have "1 \<in> set ?xs" using assms(2) by (metis length_map nth_mem)
  moreover have "\<forall>x\<in>set ?xs. 0 \<le> x" by auto
  ultimately have "1 \<le> sum_list ?xs" by (meson member_le_sum_list)
  with assms(1) show ?thesis by (simp add: flight_exact_def)
qed

lemma guarded_other:
  assumes "guarded i st" "flight_exact st'" "co_acquires st' = co_acquires st" "co_interrupt st = None \<longrightarrow> co_interrupt st' = None"
    and "co_interrupt st \<noteq> None \<longrightarrow> co_interrupt st' \<noteq> None"
    and "in_flight (snd (co_acquires st ! i)) \<Longrightarrow> co_interrupt st = None \<Longrightarrow> \<not> dm_done (co_daemon st) \<Longrightarrow> looking (co_reaper st) \<Longrightarrow>
      looking (co_reaper st') \<and> keeps_up (co_daemon st) (co_daemon st') \<and> dm_done (co_daemon st') = dm_done (co_daemon st)"
  shows "guarded i st'"
  using assms unfolding guarded_def Let_def by (auto simp: keeps_up_def)

lemma guarded_step:
  assumes "interleave w st st'" "guarded i st"
  shows "guarded i st'"
proof -
  have exact: "flight_exact st'" using assms flight_exact_step by (auto simp: guarded_def)
  show ?thesis using assms(1)
  proof (cases rule: interleave.cases)
    case (Acquires j rq pc sched ctx rd now answered pc' d')
    note up = acquire_step_up [OF Acquires(4)] and same = acquire_step_done [OF Acquires(4)]
    show ?thesis
    proof (cases "j = i")
      case True
      with Acquires have "snd (co_acquires st ! i) = pc" "snd (co_acquires st' ! i) = pc'" by simp_all
      then show ?thesis
        using assms(2) exact up same acquire_step_flying [OF Acquires(4)] Acquires(1,4)
        unfolding guarded_def Let_def by (auto simp: keeps_up_def)
    next
      case False
      with Acquires have "co_acquires st' ! i = co_acquires st ! i" by simp
      then show ?thesis
        using assms(2) exact up same Acquires(1) unfolding guarded_def Let_def by (auto simp: keeps_up_def)
    qed
  next
    case (Reaps t pc' d')
    show ?thesis
    proof (rule guarded_other [OF assms(2) exact])
      assume "in_flight (snd (co_acquires st ! i))" "\<not> dm_done (co_daemon st)" "looking (co_reaper st)"
      moreover from this have "0 < dm_acquireInFlight (co_daemon st)"
        using assms(2) in_flight_counted by (auto simp: guarded_def)
      ultimately show "looking (co_reaper st') \<and> keeps_up (co_daemon st) (co_daemon st') \<and> dm_done (co_daemon st') = dm_done (co_daemon st)"
        using looking_step [OF Reaps(2)] Reaps(1) by simp
    qed (simp_all add: Reaps(1))
  next
    case (Interrupts p d')
    with assms(2) exact show ?thesis by (auto simp: guarded_def Let_def)
  next
    case (Closes p p' d')
    with assms(2) exact show ?thesis by (auto simp: guarded_def Let_def)
  next
    case (Snapshots x m s)
    show ?thesis by (rule guarded_other [OF assms(2) exact]) (simp_all add: Snapshots(1) keeps_up_same)
  next
    case (Others wr now resp d')
    with serve_up [OF Others(3,2)] show ?thesis by (intro guarded_other [OF assms(2) exact]) simp_all
  qed
qed

text \<open>
  C17. An acquire request protects the environment from the reaper. Take a state in which the request is counted as in flight, the
  reaper has not yet looked at the counter in its present tick (it waits, has swept the leases or has found none), and no shutdown
  has begun. In every interleaving from there, whatever the other requests, the schedules and the calls do, as long as the
  request is not answered and the daemon is not interrupted: no shutdown has begun, the reaper is neither stopping the service nor past
  its look at the counter, and the containers are up from the moment the request has found or started them.
\<close>

theorem containers_stay_up:
  assumes "interleaved w st st'" "flight_exact st" "flags_agree (co_daemon st)" "\<not> dm_done (co_daemon st)"
    and "i < length (co_acquires st)" "in_flight (snd (co_acquires st ! i))"
      "needs_containers (snd (co_acquires st ! i)) \<longrightarrow> dm_infraStarted (co_daemon st)"
    and "\<exists>now r. co_reaper st \<in> {Waiting r, Swept now r, NoLease now r}"
    and "in_flight (snd (co_acquires st' ! i))" "co_interrupt st' = None"
  shows "\<not> dm_done (co_daemon st') \<and> (\<exists>now r. co_reaper st' \<in> {Waiting r, Swept now r, NoLease now r}) \<and>
    (needs_containers (snd (co_acquires st' ! i)) \<longrightarrow> Started (dm_bundle (co_daemon st')))"
proof -
  have "looking (co_reaper st)" using assms(8) by auto
  then have "guarded i st" using assms(2-7) by (simp add: guarded_def Let_def)
  with assms(1) have "guarded i st'"
    by (induction rule: rtranclp_induct) (auto intro: guarded_step)
  with assms(9,10) have ok: "\<not> dm_done (co_daemon st')" "looking (co_reaper st')" "flags_agree (co_daemon st')"
    "needs_containers (snd (co_acquires st' ! i)) \<longrightarrow> dm_infraStarted (co_daemon st')"
    by (auto simp: guarded_def Let_def)
  from ok(2) have "\<exists>now r. co_reaper st' \<in> {Waiting r, Swept now r, NoLease now r}" by (cases "co_reaper st'") auto
  with ok show ?thesis by (simp add: flags_agree_def)
qed

text \<open>The request starts the service while a tick comes that would stop the daemon: it has been idle for its time.\<close>

theorem containers_stay_up_witness:
  "\<exists>st' req. interleaved sample_world
      (acquire_at (reaper_at (conc_start sample_daemon) (NoLease (20 * time_Second) \<lparr>rp_idleSince = 1, rp_sutIdleSince = 1\<rparr>) sample_daemon)
         0 sample_acquire Counted (sample_daemon\<lparr>dm_acquireInFlight := 1\<rparr>)) st' \<and>
     co_acquires st' = [(sample_acquire, InfraUp req)] \<and> co_reaper st' = Waiting reaper_reset \<and>
     \<not> dm_done (co_daemon st') \<and> Started (dm_bundle (co_daemon st'))"
proof -
  let ?req = "\<lparr>acq_Project = ''shop'', acq_PID = 42, acq_RunID = []\<rparr> :: AcquireReq"
  let ?late = "NoLease (20 * time_Second) \<lparr>rp_idleSince = 1, rp_sutIdleSince = 1\<rparr>"
  let ?d = "sample_daemon\<lparr>dm_acquireInFlight := 1\<rparr>" and ?base = "reaper_at (conc_start sample_daemon) ?late sample_daemon"
  let ?st = "acquire_at ?base 0 sample_acquire Counted ?d"
  let ?mid = "acquire_at ?base 0 sample_acquire (InfraUp ?req) ?d"
  let ?st' = "acquire_at (reaper_at (conc_start sample_daemon) (Waiting reaper_reset) ?d) 0 sample_acquire (InfraUp ?req) ?d"
  have len: "0 < length (co_acquires ?base)" by (simp add: conc_start_def)
  note run = acquire_runs [OF _ len, where sched = "[]" and ctx = Background and rd = sample_rand and now = 0 and answered = 0]
  have infra: "ensureInfraStarted trm sched ctx ?d = Some (None, ?d)" for trm sched ctx
    by (simp add: ensureInfraStarted_def sample_daemon_def)
  have "interleaved sample_world (acquire_at ?base 0 sample_acquire (Decoded ?req) ?d) ?mid"
    by (rule run [of _ _ "Decoded ?req"], simp add: infra) simp
  then have first: "interleaved sample_world ?st ?mid"
    by (intro run [of _ _ Counted]) (simp_all add: sample_acquire_def)
  have "reaper_step sample_world None ?late ?d = Some (Waiting reaper_reset, ?d)" by simp
  then have "interleave sample_world (reaper_at (acquire_at (conc_start sample_daemon) 0 sample_acquire (InfraUp ?req) ?d) ?late ?d)
      (reaper_at (acquire_at (conc_start sample_daemon) 0 sample_acquire (InfraUp ?req) ?d) (Waiting reaper_reset) ?d)"
    by (rule interleave_reaper)
  then have "interleave sample_world ?mid ?st'" unfolding at_commute .
  with first have run': "interleaved sample_world ?st ?st'" by (rule rtranclp.rtrancl_into_rtrancl)
  have "flight_exact ?st" "flags_agree (co_daemon ?st)" "\<not> dm_done (co_daemon ?st)"
    by (simp_all add: flight_exact_def conc_start_def flags_agree_def sample_daemon_def up_bundle_def Started_def)
  moreover have "0 < length (co_acquires ?st)" "in_flight (snd (co_acquires ?st ! 0))"
    "needs_containers (snd (co_acquires ?st ! 0)) \<longrightarrow> dm_infraStarted (co_daemon ?st)"
    "\<exists>now r. co_reaper ?st \<in> {Waiting r, Swept now r, NoLease now r}"
    "in_flight (snd (co_acquires ?st' ! 0))" "co_interrupt ?st' = None"
    by (auto simp: conc_start_def)
  ultimately have "\<not> dm_done (co_daemon ?st') \<and> (needs_containers (snd (co_acquires ?st' ! 0)) \<longrightarrow> Started (dm_bundle (co_daemon ?st')))"
    using containers_stay_up [OF run'] by blast
  moreover have "needs_containers (snd (co_acquires ?st' ! 0))" "co_acquires ?st' = [(sample_acquire, InfraUp ?req)]"
    by (simp_all add: conc_start_def)
  ultimately show ?thesis using run' by (intro exI [of _ ?st'] exI [of _ ?req]) simp
qed

lemma granted_up:
  assumes "handleAcquire g os trm sched ctx rd now answered rq d = Some (resp, d')" "rs_Status resp = 200" "daemon_ok d"
  shows "Started (dm_bundle d')"
  using assms(1)
proof (cases rule: handleAcquire_cases)
  case (processed d1)
  let ?d0 = "d\<lparr>dm_acquireInFlight := dm_acquireInFlight d + 1\<rparr>"
  have "daemon_ok ?d0" "flags_agree ?d0" using assms(3) by (simp_all add: daemon_ok_def flags_agree_def Started_def)
  with processed(1) show ?thesis
  proof (cases rule: acquire_body_cases)
    case (granted req e1 e2)
    with ensureInfra_up [OF granted(2)] ensureSUT_up [OF granted(4)] \<open>flags_agree ?d0\<close> processed(2) show ?thesis
      by (auto simp: keeps_up_def flags_agree_def)
  qed (use assms(2) in simp_all)
qed (use assms(2) in simp)

text \<open>
  During a shutdown nothing protects it. Between the stop of the containers and that of the HTTP server the daemon still serves:
  an acquire that comes then starts the containers again, gets its lease, and the daemon ends without
  terminating them.
\<close>

theorem acquire_during_shutdown_leaks:
  assumes "i < length (co_acquires st)" "daemon_ok d"
    and grant: "handleAcquire (w_goos w) (w_os w) (w_trm w) sched ctx rd granted answered rq d = Some (resp, d2)" "rs_Status resp = 200"
  shows "\<exists>d3. interleaved w (reaper_at (acquire_at st i rq Arrived d) (Shutting ContainersDown) d)
      (reaper_at (acquire_at st i rq (Answered resp) d3) Gone d3) \<and>
    Started (dm_bundle d3) \<and> dm_bundle d3 = dm_bundle d2 \<and> terminated (sys_log (dm_sys d3)) = terminated (sys_log (dm_sys d2))"
proof -
  let ?d3 = "d2\<lparr>dm_sys := emit (RuntimeRemoved (dm_runtimePath d2))
    (if dm_serving d2 then emit ServerShutdown (dm_sys d2) else dm_sys d2)\<rparr>"
  have "interleaved w (acquire_at (reaper_at st (Shutting ContainersDown) d) i rq Arrived d)
      (acquire_at (reaper_at st (Shutting ContainersDown) d) i rq (Answered resp) d2)"
    by (rule serial_acquire_runs [OF grant(1)]) (simp add: assms(1))
  then have A: "interleaved w (reaper_at (acquire_at st i rq Arrived d) (Shutting ContainersDown) d)
      (reaper_at (acquire_at st i rq (Answered resp) d2) (Shutting ContainersDown) d2)"
    unfolding at_commute by (simp add: acquire_at_def reaper_at_def)
  have "interleaved w (reaper_at (acquire_at st i rq (Answered resp) d2) (Shutting ContainersDown) d2)
      (reaper_at (acquire_at st i rq (Answered resp) d2) Gone ?d3)"
    by (intro r_into_rtranclp interleave_reaper [where t = None]) (simp add: shutting_def)
  then have B: "interleaved w (reaper_at (acquire_at st i rq (Answered resp) d2) (Shutting ContainersDown) d2)
      (reaper_at (acquire_at st i rq (Answered resp) ?d3) Gone ?d3)"
    by (simp add: acquire_at_def reaper_at_def)
  have "Started (dm_bundle ?d3)" using granted_up [OF grant assms(2)] by simp
  with rtranclp_trans [OF A B] show ?thesis by (intro exI [of _ ?d3]) simp
qed

end
