(* ===== verification/Runtime_Files.thy ===== *)
theory Runtime_Files
  imports History
begin

text \<open>
  The runtime file, through which a client finds its daemon (\<^verbatim>\<open>tcdruntime/file.go\<close>): written to a
  temporary file and renamed, read and checked, waited for, removed. The JSON codec and the failures
  of the file system are parameters.
\<close>

section \<open>Writing and removing\<close>

text \<open>
  A disk maps the path of a regular file to its contents. The failures: \<open>io_WriteFile\<close> gives the
  error and what is left of the file, the others only the error.
\<close>

type_synonym disk = "string \<Rightarrow> string option"

record io_faults =
  io_MkdirAll :: "string \<Rightarrow> go_error option"
  io_WriteFile :: "string \<Rightarrow> (go_error \<times> string option) option"
  io_Rename :: "string \<Rightarrow> string \<Rightarrow> go_error option"
  io_ReadFile :: "string \<Rightarrow> go_error option"
  io_Remove :: "string \<Rightarrow> go_error option"

definition runtime_path :: "string \<Rightarrow> string \<Rightarrow> string" where
  "runtime_path tmp path = (if path = [] then DefaultRuntimePath tmp ''default'' else path)"

definition tmp_file :: "string \<Rightarrow> string" where
  "tmp_file path = path @ ''.tmp''"

text \<open>
  The write with the disks it goes through, the one it leaves last: while \<^verbatim>\<open>WriteFile\<close> runs, the
  temporary file holds a part of the contents, any part when it fails; the rename is one step.
\<close>

definition Write ::
  "string \<Rightarrow> (RuntimeInfo \<Rightarrow> go_error + string) \<Rightarrow> io_faults \<Rightarrow> string \<Rightarrow> RuntimeInfo \<Rightarrow> disk \<Rightarrow>
   go_error option \<times> disk list" where
  "Write tmp enc io path0 info dk =
     (let path = runtime_path tmp path0 in
      case io_MkdirAll io (filepath_Dir path) of
        Some e \<Rightarrow> (Some e, [dk])
      | None \<Rightarrow>
          (case enc info of
             Inl e \<Rightarrow> (Some e, [dk])
           | Inr b \<Rightarrow>
               (let tmpf = tmp_file path;
                    written = dk # map (\<lambda>k. dk(tmpf \<mapsto> take k b)) [0..<Suc (length b)]
                in case io_WriteFile io tmpf of
                     Some (e, left) \<Rightarrow> (Some e, written @ [dk(tmpf := left)])
                   | None \<Rightarrow>
                       (case io_Rename io tmpf path of
                          Some e \<Rightarrow> (Some e, written)
                        | None \<Rightarrow> (None, written @ [dk(path \<mapsto> b, tmpf := None)])))))"

definition Remove :: "string \<Rightarrow> io_faults \<Rightarrow> string \<Rightarrow> disk \<Rightarrow> disk" where
  "Remove tmp io path0 dk =
     (let path = runtime_path tmp path0 in if io_Remove io path = None then dk(path := None) else dk)"

definition os_ReadFile :: "io_faults \<Rightarrow> disk \<Rightarrow> string \<Rightarrow> go_error + string" where
  "os_ReadFile io dk path =
     (case io_ReadFile io path of
        Some e \<Rightarrow> Inl e
      | None \<Rightarrow> (case dk path of None \<Rightarrow> Inl (ErrorSentinel ErrNotExist) | Some b \<Rightarrow> Inr b))"

section \<open>Reading and waiting\<close>

definition Read ::
  "string \<Rightarrow> (string \<Rightarrow> go_error + RuntimeInfo) \<Rightarrow> (string \<Rightarrow> go_error + string) \<Rightarrow> string \<Rightarrow> go_error + RuntimeInfo" where
  "Read tmp dec readFile path0 =
     (case readFile (runtime_path tmp path0) of
        Inl e \<Rightarrow> Inl e
      | Inr b \<Rightarrow>
          (case dec b of
             Inl e \<Rightarrow> Inl e
           | Inr info \<Rightarrow>
               if info_Addr info = [] \<or> info_Token info = [] then Inl (ErrorNew ''invalid runtime info'')
               else Inr info))"

text \<open>
  What a client sees of the files, which other processes write: the answers to its calls, as functions of
  the history of its own interactions.
\<close>

record 'c fs_env =
  fs_ReadFile :: "'c history \<Rightarrow> string \<Rightarrow> go_error + string"
  fs_dec_RuntimeInfo :: "string \<Rightarrow> go_error + RuntimeInfo"
  fs_OpenExcl :: "'c history \<Rightarrow> string \<Rightarrow> go_error option"
  fs_ModTime :: "'c history \<Rightarrow> string \<Rightarrow> go_error + go_time"
  fs_Executable :: "go_error + string"
  fs_Open :: "'c history \<Rightarrow> string \<Rightarrow> go_error option"
  fs_OpenTrunc :: "'c history \<Rightarrow> string \<Rightarrow> go_error option"
  fs_Copy :: "'c history \<Rightarrow> string \<Rightarrow> string \<Rightarrow> go_error option"
  fs_Sync :: "'c history \<Rightarrow> string \<Rightarrow> go_error option"
  fs_iter :: "(string, string) gomap \<Rightarrow> (string \<times> string) list"

definition ReadRuntime :: "'c os_env \<Rightarrow> 'c fs_env \<Rightarrow> string \<Rightarrow> 'c sys \<Rightarrow> (go_error + RuntimeInfo) \<times> 'c sys" where
  "ReadRuntime os fs path s =
     (Read (os_TempDir os) (fs_dec_RuntimeInfo fs) (fs_ReadFile fs (sys_log s)) path, emit (FileRead path) s)"

definition Wait_round ::
  "'c os_env \<Rightarrow> 'c fs_env \<Rightarrow> string \<Rightarrow> go_time \<Rightarrow> 'c sys \<Rightarrow> ((go_error + RuntimeInfo) \<times> 'c sys) + 'c sys" where
  "Wait_round os fs path deadline s =
     (case ReadRuntime os fs path s of
        (Inr info, s1) \<Rightarrow> Inl (Inr info, s1)
      | (Inl e, s1) \<Rightarrow>
          if time_After (os_now os (sys_log s1)) deadline then Inl (Inl e, s1)
          else Inr (emit (Slept (120 * time_Millisecond)) s1))"

definition Wait :: "'c os_env \<Rightarrow> 'c fs_env \<Rightarrow> string \<Rightarrow> duration \<Rightarrow> 'c sys \<Rightarrow> ((go_error + RuntimeInfo) \<times> 'c sys) option" where
  "Wait os fs path timeout s =
     go_loop (Wait_round os fs path (time_Add (os_now os (sys_log s)) timeout)) s"

section \<open>Polling\<close>

text \<open>
  The loops that poll until a deadline: a round that does not return leaves the deadline unpassed and
  sleeps. Such a loop returns when the clock moves.
\<close>

definition polls :: "'c os_env \<Rightarrow> duration \<Rightarrow> go_time \<Rightarrow> ('c sys \<Rightarrow> 'r + 'c sys) \<Rightarrow> bool" where
  "polls os pause deadline round \<longleftrightarrow>
     (\<forall>s t. round s = Inr t \<longrightarrow>
        (\<exists>s1. grows s s1 \<and> \<not> time_After (os_now os (sys_log s1)) deadline \<and> t = emit (Slept pause) s1))"

lemma now_grows: "clock_ok os \<Longrightarrow> grows s t \<Longrightarrow> os_now os (sys_log s) \<le> os_now os (sys_log t)"
  by (auto simp: grows_def suffix_def dest: clock_mono)

lemma poll_returns:
  assumes "polls os pause deadline round" "clock_ok os" "0 < pause"
  shows "\<exists>r. go_loop round s = Some r"
proof (rule go_loop_total [of "\<lambda>s. True" s round "\<lambda>s. nat (deadline + pause - os_now os (sys_log s))"])
  fix s t
  assume "round s = Inr t"
  with assms(1) obtain s1 where s1: "grows s s1" "\<not> time_After (os_now os (sys_log s1)) deadline" "t = emit (Slept pause) s1"
    unfolding polls_def by blast
  have "os_now os (sys_log s) \<le> os_now os (sys_log s1)" using assms(2) s1(1) by (rule now_grows)
  moreover have "os_now os (sys_log s1) + pause \<le> os_now os (sys_log t)"
    using assms(2) by (simp add: s1(3) clock_ok_def)
  ultimately show "True \<and> nat (deadline + pause - os_now os (sys_log t)) < nat (deadline + pause - os_now os (sys_log s))"
    using assms(3) s1(2) by (simp add: time_After_def)
qed simp

lemma poll_result:
  assumes "go_loop round s = Some r" "\<And>s t. round s = Inr t \<Longrightarrow> extends P s t"
  shows "\<exists>s'. extends P s s' \<and> round s' = Inl r"
  by (rule go_loop_result [OF assms(1)]) (auto intro: extends_trans assms(2))

lemma Wait_polls: "polls os (120 * time_Millisecond) deadline (Wait_round os fs path deadline)"
  unfolding polls_def
proof (intro allI impI)
  fix s t
  assume "Wait_round os fs path deadline s = Inr t"
  then show "\<exists>s1. grows s s1 \<and> \<not> time_After (os_now os (sys_log s1)) deadline \<and> t = emit (Slept (120 * time_Millisecond)) s1"
    by (intro exI [of _ "emit (FileRead path) s"])
      (auto simp: Wait_round_def ReadRuntime_def split: sum.splits if_splits)
qed

lemma Wait_result:
  assumes "Wait os fs path timeout s = Some (res, s')"
  shows "\<exists>s1. extends (\<lambda>e. e = FileRead path \<or> e = Slept (120 * time_Millisecond)) s s1 \<and> s' = emit (FileRead path) s1 \<and>
    res = Read (os_TempDir os) (fs_dec_RuntimeInfo fs) (fs_ReadFile fs (sys_log s1)) path \<and>
    (\<forall>e. res = Inl e \<longrightarrow> os_now os (sys_log s) + timeout < os_now os (sys_log s'))"
proof -
  let ?d = "time_Add (os_now os (sys_log s)) timeout" and ?P = "\<lambda>e. e = FileRead path \<or> e = Slept (120 * time_Millisecond)"
  have "extends ?P s t" if "Wait_round os fs path ?d s = Inr t" for s t
    using that by (auto simp: Wait_round_def ReadRuntime_def split: sum.splits if_splits intro!: extends_emit)
  from poll_result [OF assms [unfolded Wait_def] this] obtain s1 where
    "extends ?P s s1" "Wait_round os fs path ?d s1 = Inl (res, s')" by blast
  then show ?thesis
    by (intro exI [of _ s1]) (auto simp: Wait_round_def ReadRuntime_def time_Add_def time_After_def split: sum.splits if_splits)
qed

lemma Wait_extends:
  "Wait os fs path timeout s = Some (res, s') \<Longrightarrow> extends (\<lambda>e. e = FileRead path \<or> e = Slept (120 * time_Millisecond)) s s'"
  using Wait_result [of os fs path timeout s res s'] by (auto intro: extends_emit)

lemma Wait_total: "clock_ok os \<Longrightarrow> \<exists>r. Wait os fs path timeout s = Some r"
  unfolding Wait_def by (rule poll_returns [OF Wait_polls]) simp_all

section \<open>Properties\<close>

lemma tmp_file_neq [simp]: "tmp_file p \<noteq> p" "p \<noteq> tmp_file p"
  by (simp_all add: tmp_file_def)

lemma Write_simps:
  assumes "io_MkdirAll io (filepath_Dir (runtime_path tmp path)) = None" "enc info = Inr b"
    "io_WriteFile io (tmp_file (runtime_path tmp path)) = None"
    "io_Rename io (tmp_file (runtime_path tmp path)) (runtime_path tmp path) = None"
  shows "Write tmp enc io path info dk =
    (None, (dk # map (\<lambda>k. dk(tmp_file (runtime_path tmp path) \<mapsto> take k b)) [0..<Suc (length b)]) @
       [dk(runtime_path tmp path \<mapsto> b, tmp_file (runtime_path tmp path) := None)])"
  using assms by (simp add: Write_def Let_def del: upt_Suc)

lemma Write_None:
  assumes "Write tmp enc io path info dk = (None, dks)"
  obtains b where "enc info = Inr b" "last dks = dk(runtime_path tmp path \<mapsto> b, tmp_file (runtime_path tmp path) := None)"
  using assms by (auto simp: Write_def Let_def split: option.splits sum.splits)

lemma Write_disks:
  assumes "Write tmp enc io path info dk = (err, dks)" "d \<in> set dks"
  shows "d (runtime_path tmp path) = dk (runtime_path tmp path) \<or>
    (err = None \<and> (\<exists>b. enc info = Inr b \<and> d (runtime_path tmp path) = Some b))"
  using assms by (auto simp: Write_def Let_def simp del: upt_Suc split: option.splits sum.splits)

text \<open>
  C35. Round trip: what \<open>Write\<close> has written without an error is what \<open>Read\<close> returns, provided the codec
  decodes what it encoded and the information has an address and a token. No file but the runtime file
  has changed, the temporary file is gone, and after \<open>Remove\<close> the file is not found any more.
\<close>

theorem runtime_file_roundtrip:
  assumes "Write tmp enc io path info dk = (None, dks)"
    and codec: "\<And>b. enc info = Inr b \<Longrightarrow> dec b = Inr info" and "info_Addr info \<noteq> []" "info_Token info \<noteq> []"
    and "io_ReadFile io (runtime_path tmp path) = None" "io_Remove io (runtime_path tmp path) = None"
  shows "Read tmp dec (os_ReadFile io (last dks)) path = Inr info \<and>
    (\<forall>p. p \<noteq> runtime_path tmp path \<and> p \<noteq> tmp_file (runtime_path tmp path) \<longrightarrow> last dks p = dk p) \<and>
    last dks (tmp_file (runtime_path tmp path)) = None \<and>
    Read tmp dec (os_ReadFile io (Remove tmp io path (last dks))) path = Inl (ErrorSentinel ErrNotExist)"
proof -
  from assms(1) obtain b where b: "enc info = Inr b"
    "last dks = dk(runtime_path tmp path \<mapsto> b, tmp_file (runtime_path tmp path) := None)" by (rule Write_None)
  then have "dec b = Inr info" using codec by blast
  with b assms(3-6) show ?thesis by (simp add: Read_def os_ReadFile_def Remove_def Let_def)
qed

text \<open>
  C36. The write is atomic for its readers: on every disk it goes through, also when it fails, \<open>Read\<close> gives what
  it gave before or the new information, never a part of it; and when it fails, the old one to the end.
\<close>

theorem write_is_atomic:
  assumes "Write tmp enc io path info dk = (err, dks)" and "d \<in> set dks"
    and codec: "\<And>b. enc info = Inr b \<Longrightarrow> dec b = Inr info" and "info_Addr info \<noteq> []" "info_Token info \<noteq> []"
    and "io_ReadFile io (runtime_path tmp path) = None"
  shows "Read tmp dec (os_ReadFile io d) path = Read tmp dec (os_ReadFile io dk) path \<or>
    err = None \<and> Read tmp dec (os_ReadFile io d) path = Inr info"
  using Write_disks [OF assms(1,2)]
proof
  assume "d (runtime_path tmp path) = dk (runtime_path tmp path)"
  with assms(6) show ?thesis by (simp add: Read_def os_ReadFile_def)
next
  assume "err = None \<and> (\<exists>b. enc info = Inr b \<and> d (runtime_path tmp path) = Some b)"
  then obtain b where "err = None" "enc info = Inr b" "d (runtime_path tmp path) = Some b" by blast
  with codec assms(4-6) show ?thesis by (simp add: Read_def os_ReadFile_def)
qed

text \<open>A codec that puts a line break between the address and the token, and a disk without failures.\<close>

definition no_faults :: io_faults where
  "no_faults = \<lparr>io_MkdirAll = (\<lambda>p. None), io_WriteFile = (\<lambda>p. None), io_Rename = (\<lambda>p q. None),
     io_ReadFile = (\<lambda>p. None), io_Remove = (\<lambda>p. None)\<rparr>"

definition line_enc :: "RuntimeInfo \<Rightarrow> go_error + string" where
  "line_enc info = Inr (info_Addr info @ [CHR 0x0A] @ info_Token info)"

definition line_dec :: "string \<Rightarrow> go_error + RuntimeInfo" where
  "line_dec b =
     (case split_two (CHR 0x0A) b of
        None \<Rightarrow> Inl (ErrorNew ''unexpected end of JSON input'')
      | Some (a, t) \<Rightarrow> Inr \<lparr>info_Addr = a, info_Token = t, info_PID = 1, info_StartedAt = 1\<rparr>)"

definition sample_info :: RuntimeInfo where
  "sample_info = \<lparr>info_Addr = ''127.0.0.1:80'', info_Token = ''7'', info_PID = 1, info_StartedAt = 1\<rparr>"

definition sample_text :: string where
  "sample_text = ''127.0.0.1:80'' @ [CHR 0x0A] @ ''7''"

lemma sample_write:
  "Write ''/tmp'' line_enc no_faults ''/r.json'' sample_info Map.empty =
    (None, (Map.empty # map (\<lambda>k. [''/r.json.tmp'' \<mapsto> take k sample_text]) [0..<Suc (length sample_text)]) @
       [Map.empty(''/r.json'' \<mapsto> sample_text, ''/r.json.tmp'' := None)])"
  using Write_simps [of no_faults "''/tmp''" "''/r.json''" line_enc sample_info sample_text Map.empty]
  by (simp add: no_faults_def line_enc_def sample_info_def sample_text_def runtime_path_def tmp_file_def del: upt_Suc)

lemma sample_line: "line_enc sample_info = Inr b \<Longrightarrow> line_dec b = Inr sample_info"
  by (auto simp: line_enc_def line_dec_def sample_info_def split_two_def)

theorem runtime_file_roundtrip_witness:
  "Read ''/tmp'' line_dec (os_ReadFile no_faults (Map.empty(''/r.json'' \<mapsto> sample_text, ''/r.json.tmp'' := None))) ''/r.json'' = Inr sample_info"
  using runtime_file_roundtrip [OF sample_write sample_line]
  by (simp add: sample_info_def no_faults_def)

theorem write_is_atomic_witness:
  "Read ''/tmp'' line_dec (os_ReadFile no_faults [''/r.json.tmp'' \<mapsto> take 5 sample_text]) ''/r.json'' \<in>
     {Read ''/tmp'' line_dec (os_ReadFile no_faults Map.empty) ''/r.json'', Inr sample_info}"
proof -
  let ?dks = "(Map.empty # map (\<lambda>k. [''/r.json.tmp'' \<mapsto> take k sample_text]) [0..<Suc (length sample_text)]) @
       [Map.empty(''/r.json'' \<mapsto> sample_text, ''/r.json.tmp'' := None)]"
  have "5 \<in> set [0..<Suc (length sample_text)]" by (simp add: sample_text_def)
  then have "[''/r.json.tmp'' \<mapsto> take 5 sample_text] \<in> set ?dks"
    by (simp del: upt_Suc set_upt)
  from write_is_atomic [OF sample_write this sample_line] show ?thesis
    by (simp add: sample_info_def no_faults_def)
qed

end
