(* ===== verification/Autostart.thy ===== *)
theory Autostart
  imports Runtime_Files
begin

text \<open>
  How a client starts the daemon it needs (\<^verbatim>\<open>client/autostart.go\<close>): the lock file that lets one of
  several processes do it, the command, and the loop of those that wait. A failed removal of a file is
  ignored by the code, so a removal is only an event; what the text of the lock file is does not matter.
\<close>

section \<open>The daemon's environment and executable\<close>

text \<open>
  \<open>iter\<close> is the order in which a map is iterated, which Go leaves open.
\<close>

fun env_map :: "string list \<Rightarrow> (string, string) gomap \<Rightarrow> (string, string) gomap" where
  "env_map [] m = m"
| "env_map (item # base) m =
     (case split_two (CHR ''='') item of
        None \<Rightarrow> env_map base m
      | Some (k, v) \<Rightarrow> env_map base (AList.update k v m))"

definition mergeEnv ::
  "((string, string) gomap \<Rightarrow> (string \<times> string) list) \<Rightarrow> string list \<Rightarrow> (string, string) gomap \<Rightarrow> string list" where
  "mergeEnv iter base override =
     (let m = fold (\<lambda>(k, v) m. AList.update k v m) (iter override) (env_map base [])
      in map (\<lambda>(k, v). k @ ''='' @ v) (iter m))"

definition filepath_Ext :: "string \<Rightarrow> string" where
  "filepath_Ext path =
     (let base = last (split_byte (CHR ''/'') path)
      in case last_index_byte (CHR ''.'') base of None \<Rightarrow> [] | Some i \<Rightarrow> drop i base)"

text \<open>Nanoseconds since 1970, of an instant counted from Go's zero time.\<close>

definition time_UnixNano :: "go_time \<Rightarrow> int" where
  "time_UnixNano t = t - 62135596800 * time_Second"

definition copyFile :: "'c fs_env \<Rightarrow> string \<Rightarrow> string \<Rightarrow> 'c sys \<Rightarrow> go_error option \<times> 'c sys" where
  "copyFile fs src dst s =
     (let h = sys_log s in
      case fs_Open fs h src of
        Some e \<Rightarrow> (Some e, s)
      | None \<Rightarrow>
          (case fs_OpenTrunc fs h dst of
             Some e \<Rightarrow> (Some e, s)
           | None \<Rightarrow>
               (let err = fs_Copy fs h src dst; s1 = emit (FileCopied src dst err) s in
                case err of Some e \<Rightarrow> (Some e, s1) | None \<Rightarrow> (fs_Sync fs (sys_log s1) dst, s1))))"

definition prepareDaemonExecutable ::
  "goos \<Rightarrow> 'c os_env \<Rightarrow> 'c fs_env \<Rightarrow> string \<Rightarrow> string \<Rightarrow> 'c sys \<Rightarrow> (go_error + string) \<times> 'c sys" where
  "prepareDaemonExecutable g os fs exe runtimePath s =
     (if g \<noteq> Windows then (Inr exe, s)
      else let runnerDir = RunnerDir (os_TempDir os) runtimePath in
        case os_MkdirAll os (sys_log s) runnerDir of
          Some e \<Rightarrow> (Inl (errorf_w ''create daemon runner dir: '' e []), s)
        | None \<Rightarrow>
            (let runner = filepath_Join [runnerDir,
                   ''tcd_'' @ decimal (time_UnixNano (os_now os (sys_log s))) @ filepath_Ext exe]
             in case copyFile fs exe runner s of
                  (Some e, s1) \<Rightarrow> (Inl (errorf_w ''prepare daemon runner executable: '' e []), s1)
                | (None, s1) \<Rightarrow> (Inr runner, s1)))"

definition daemon_env :: "string \<Rightarrow> (string, string) gomap" where
  "daemon_env runtimePath = [(EnvTCDMode, TCDModeDaemon), (EnvTCDRuntime, runtimePath)]"

definition buildDaemonCommand ::
  "goos \<Rightarrow> 'c os_env \<Rightarrow> 'c fs_env \<Rightarrow> string \<Rightarrow> 'c sys \<Rightarrow> (go_error + exec_Cmd) \<times> 'c sys" where
  "buildDaemonCommand g os fs runtimePath s =
     (case fs_Executable fs of
        Inl e \<Rightarrow> (Inl (errorf_w ''resolve current executable: '' e []), s)
      | Inr exe \<Rightarrow>
          (case prepareDaemonExecutable g os fs exe runtimePath s of
             (Inl e, s1) \<Rightarrow> (Inl e, s1)
           | (Inr runner, s1) \<Rightarrow>
               (Inr \<lparr>cmd_Path = runner, cmd_Args = [runner, ''-test.run=^$''], cmd_Dir = [],
                     cmd_Env = mergeEnv (fs_iter fs) (os_environ os) (daemon_env runtimePath),
                     cmd_Output = None, cmd_Setpgid = False, cmd_Process = None\<rparr>, s1)))"

definition attachDaemonOutput :: "'c os_env \<Rightarrow> exec_Cmd \<Rightarrow> string \<Rightarrow> 'c sys \<Rightarrow> (go_error + string \<times> exec_Cmd) \<times> 'c sys" where
  "attachDaemonOutput os cmd runtimePath s =
     (case OpenDaemonLogFile os runtimePath s of
        (Inl e, s1) \<Rightarrow> (Inl e, s1)
      | (Inr logFile, s1) \<Rightarrow> (Inr (logFile, the (AttachCmdOutput (Some cmd) (Some logFile))), s1))"

section \<open>The start lock\<close>

definition startLockPath :: "string \<Rightarrow> string" where
  "startLockPath runtimePath = runtimePath @ ''.start.lock''"

text \<open>The owner gets the open file, the others \<open>None\<close>.\<close>

definition tryAcquireStartLock ::
  "'c os_env \<Rightarrow> 'c fs_env \<Rightarrow> string \<Rightarrow> 'c sys \<Rightarrow> (go_error + string option) \<times> 'c sys" where
  "tryAcquireStartLock os fs lockPath s =
     (case os_MkdirAll os (sys_log s) (filepath_Dir lockPath) of
        Some e \<Rightarrow> (Inl (errorf_w ''create lock dir: '' e []), s)
      | None \<Rightarrow>
          (let err = fs_OpenExcl fs (sys_log s) lockPath; s1 = emit (LockOpened lockPath err) s in
           case err of
             None \<Rightarrow> (Inr (Some lockPath), s1)
           | Some e \<Rightarrow> if errors_Is e (ErrorSentinel ErrExist) then (Inr None, s1) else (Inl e, s1)))"

definition releaseStartLock :: "string option \<Rightarrow> 'c sys \<Rightarrow> 'c sys" where
  "releaseStartLock lockFile s =
     (case lockFile of None \<Rightarrow> s | Some f \<Rightarrow> emit (FileRemoved f) (emit (LockClosed f) s))"

definition isStaleStartLock ::
  "'c os_env \<Rightarrow> 'c fs_env \<Rightarrow> string \<Rightarrow> string \<Rightarrow> duration \<Rightarrow> 'c sys \<Rightarrow> bool \<times> 'c sys" where
  "isStaleStartLock os fs lockPath runtimePath staleAfter s =
     (case fs_ModTime fs (sys_log s) lockPath of
        Inl e \<Rightarrow> (False, s)
      | Inr modTime \<Rightarrow>
          if time_Sub (os_now os (sys_log s)) modTime < staleAfter then (False, s)
          else case ReadRuntime os fs runtimePath s of
                 (Inr info, s1) \<Rightarrow> (False, s1)
               | (Inl e, s1) \<Rightarrow> (True, s1))"

section \<open>Is the daemon there?\<close>

definition runtimeAlive :: "'c os_env \<Rightarrow> RuntimeInfo \<Rightarrow> 'c sys \<Rightarrow> bool \<times> 'c sys" where
  "runtimeAlive os info s =
     (if strings_TrimSpace (info_Addr info) = [] then (False, s)
      else let ok = os_dial os (sys_log s) (info_Addr info) in (ok, emit (DialReturn (info_Addr info) ok) s))"

definition alive_round :: "'c os_env \<Rightarrow> RuntimeInfo \<Rightarrow> go_time \<Rightarrow> 'c sys \<Rightarrow> (bool \<times> 'c sys) + 'c sys" where
  "alive_round os info deadline s =
     (case runtimeAlive os info s of
        (True, s1) \<Rightarrow> Inl (True, s1)
      | (False, s1) \<Rightarrow>
          if time_After (os_now os (sys_log s1)) deadline then Inl (False, s1)
          else Inr (emit (Slept (200 * time_Millisecond)) s1))"

definition waitRuntimeAlive :: "'c os_env \<Rightarrow> RuntimeInfo \<Rightarrow> duration \<Rightarrow> 'c sys \<Rightarrow> (bool \<times> 'c sys) option" where
  "waitRuntimeAlive os info timeout s =
     go_loop (alive_round os info (time_Add (os_now os (sys_log s)) timeout)) s"

section \<open>Starting the daemon\<close>

text \<open>What the owner of the lock does when no daemon answers.\<close>

definition start_new_daemon ::
  "goos \<Rightarrow> 'c os_env \<Rightarrow> 'c fs_env \<Rightarrow> string \<Rightarrow> 'c sys \<Rightarrow> (go_error option \<times> 'c sys) option" where
  "start_new_daemon g os fs rp s =
     (case buildDaemonCommand g os fs rp s of
        (Inl e, s1) \<Rightarrow> Some (Some e, s1)
      | (Inr cmd, s1) \<Rightarrow>
          (case attachDaemonOutput os cmd rp s1 of
             (Inl e, s2) \<Rightarrow> Some (Some e, s2)
           | (Inr (logFile, cmd'), s2) \<Rightarrow>
               (let started = os_spawn os (sys_log s2) cmd'; s3 = emit (SpawnReturn started) s2 in
                case started of
                  Inl e \<Rightarrow>
                    (case Wait os fs rp (3 * time_Second) (emit (LogClosed logFile) s3) of
                       None \<Rightarrow> None
                     | Some (Inr info, s4) \<Rightarrow> Some (None, s4)
                     | Some (Inl we, s4) \<Rightarrow> Some (Some e, s4))
                | Inr pid \<Rightarrow>
                    (case Wait os fs rp (10 * time_Second) s3 of
                       None \<Rightarrow> None
                     | Some (Inl e, s4) \<Rightarrow> Some (Some e, s4)
                     | Some (Inr info, s4) \<Rightarrow>
                         (case waitRuntimeAlive os info (5 * time_Second) s4 of
                            None \<Rightarrow> None
                          | Some (True, s5) \<Rightarrow> Some (None, s5)
                          | Some (False, s5) \<Rightarrow>
                              Some (Some (ErrorNew ''daemon runtime created but service not reachable''), s5))))))"

definition start_as_owner ::
  "goos \<Rightarrow> 'c os_env \<Rightarrow> 'c fs_env \<Rightarrow> string \<Rightarrow> 'c sys \<Rightarrow> (go_error option \<times> 'c sys) option" where
  "start_as_owner g os fs rp s =
     (case ReadRuntime os fs rp s of
        (Inl e, s1) \<Rightarrow> start_new_daemon g os fs rp s1
      | (Inr info, s1) \<Rightarrow>
          (case waitRuntimeAlive os info (3 * time_Second) s1 of
             None \<Rightarrow> None
           | Some (True, s2) \<Rightarrow> Some (None, s2)
           | Some (False, s2) \<Rightarrow> start_new_daemon g os fs rp (emit (FileRemoved rp) s2)))"

definition autoStart_round ::
  "goos \<Rightarrow> 'c os_env \<Rightarrow> 'c fs_env \<Rightarrow> string \<Rightarrow> go_time \<Rightarrow> 'c sys \<Rightarrow> (go_error option \<times> 'c sys) option + 'c sys" where
  "autoStart_round g os fs rp deadline s =
     (let lockPath = startLockPath rp in
      case tryAcquireStartLock os fs lockPath s of
        (Inl e, s1) \<Rightarrow> Inl (Some (Some e, s1))
      | (Inr (Some f), s1) \<Rightarrow>
          Inl (map_option (\<lambda>(err, s2). (err, releaseStartLock (Some f) s2)) (start_as_owner g os fs rp s1))
      | (Inr None, s1) \<Rightarrow>
          (case Wait os fs rp (1500 * time_Millisecond) s1 of
             None \<Rightarrow> Inl None
           | Some (Inr info, s2) \<Rightarrow> Inl (Some (None, s2))
           | Some (Inl e, s2) \<Rightarrow>
               (case isStaleStartLock os fs lockPath rp (90 * time_Second) s2 of
                  (True, s3) \<Rightarrow> Inr (emit (FileRemoved lockPath) s3)
                | (False, s3) \<Rightarrow>
                    if time_After (os_now os (sys_log s3)) deadline
                    then Inl (Some (Some (ErrorNew (''wait daemon start lock timeout: '' @ lockPath)), s3))
                    else Inr (emit (Slept (150 * time_Millisecond)) s3))))"

definition autoStartDaemon ::
  "goos \<Rightarrow> 'c os_env \<Rightarrow> 'c fs_env \<Rightarrow> string \<Rightarrow> 'c sys \<Rightarrow> (go_error option \<times> 'c sys) option" where
  "autoStartDaemon g os fs rp s =
     Option.bind (go_loop (autoStart_round g os fs rp (time_Add (os_now os (sys_log s)) (3 * time_Minute))) s) id"

end
