(* ===== verification/Autostart_Proofs.thy ===== *)
theory Autostart_Proofs
  imports Autostart
begin

text \<open>
  The environment a daemon is started with, that only the owner of the lock starts one and gives the
  lock up again, and when the wait for another process's daemon ends.
\<close>

section \<open>The environment\<close>

definition last_assignment :: "string list \<Rightarrow> string \<Rightarrow> string option" where
  "last_assignment base k = map_of (rev (List.map_filter (split_two (CHR ''='')) base)) k"

lemma env_map_lookup:
  "map_of (env_map base m) k = (case last_assignment base k of None \<Rightarrow> map_of m k | Some v \<Rightarrow> Some v)"
  by (induction base m rule: env_map.induct)
    (auto simp: last_assignment_def map_filter_simps map_add_def update_conv split: option.splits)

lemma env_map_ok: "gomap_ok m \<Longrightarrow> gomap_ok (env_map base m)"
  by (induction base m rule: env_map.induct) (auto split: option.split)

lemma env_map_keys:
  "(\<forall>k\<in>fst ` set m. CHR ''='' \<notin> set k) \<Longrightarrow> \<forall>k\<in>fst ` set (env_map base m). CHR ''='' \<notin> set k"
proof (induction base arbitrary: m)
  case (Cons item base)
  show ?case
  proof (cases "split_two (CHR ''='') item")
    case (Some kv)
    obtain k' v where kv: "kv = (k', v)" by force
    have "\<forall>k\<in>fst ` set (AList.update k' v m). CHR ''='' \<notin> set k"
      using Cons.prems split_two_Some [OF Some [unfolded kv]]
      by (auto simp: dom_map_of_conv_image_fst [symmetric] update_conv split: if_splits)
    from Cons.IH [OF this] show ?thesis by (simp add: Some kv)
  qed (use Cons in simp)
qed simp

lemma fold_update_ok: "gomap_ok m \<Longrightarrow> gomap_ok (fold (\<lambda>(k, v) m. AList.update k v m) kvs m)"
  by (induction kvs arbitrary: m) auto

lemma fold_update_lookup:
  "distinct (map fst kvs) \<Longrightarrow>
   map_of (fold (\<lambda>(k, v) m. AList.update k v m) kvs m) k = (case map_of kvs k of None \<Rightarrow> map_of m k | Some v \<Rightarrow> Some v)"
proof (induction kvs arbitrary: m)
  case (Cons kv kvs)
  obtain k' v where kv: "kv = (k', v)" by force
  with Cons.prems have "map_of kvs k' = None" by (simp add: map_of_eq_None_iff)
  moreover have "map_of (fold (\<lambda>(k, v) m. AList.update k v m) kvs (AList.update k' v m)) k =
      (case map_of kvs k of None \<Rightarrow> map_of (AList.update k' v m) k | Some v \<Rightarrow> Some v)"
    using Cons.prems by (intro Cons.IH) simp
  ultimately show ?case by (cases "k = k'"; cases "map_of kvs k") (simp_all add: kv update_conv)
qed simp

lemma assignment_inj:
  assumes "CHR ''='' \<notin> set k" "CHR ''='' \<notin> set k'" "k @ ''='' @ v = k' @ ''='' @ v'"
  shows "k = k' \<and> v = v'"
proof -
  have "split_two (CHR ''='') (k @ ''='' @ v) = Some (k, v)" "split_two (CHR ''='') (k' @ ''='' @ v') = Some (k', v')"
    using split_two_append [OF assms(1), of v] split_two_append [OF assms(2), of v'] by simp_all
  with assms(3) show ?thesis by simp
qed

text \<open>
  The environment of the daemon: whatever order Go iterates its maps in, a variable has in the merged
  environment the value of the override if there is one, and otherwise the last value of the base
  environment, and no other; in particular no variable is set twice.
\<close>

theorem mergeEnv_exact:
  assumes iter: "\<And>m. mset (iter m) = mset m" and "distinct (map fst override)"
    and "\<forall>kv\<in>set override. CHR ''='' \<notin> set (fst kv)" and "CHR ''='' \<notin> set k"
  shows "k @ ''='' @ v \<in> set (mergeEnv iter base override) \<longleftrightarrow>
    (case map_of override k of Some w \<Rightarrow> v = w | None \<Rightarrow> last_assignment base k = Some v)"
proof -
  let ?m = "fold (\<lambda>(k, v) m. AList.update k v m) (iter override) (env_map base [])"
  have set: "set (iter m) = set m" for m using iter by (metis set_mset_mset)
  have "mset (map fst (iter override)) = mset (map fst override)" using iter by simp
  then have dist: "distinct (map fst (iter override))" using assms(2) by (metis mset_eq_imp_distinct_iff)
  have same: "map_of (iter override) k = map_of override k" for k
    using dist assms(2) set [of override] map_of_eqI by (metis map_of_inject_set)
  have look: "map_of ?m k = (case map_of override k of Some w \<Rightarrow> Some w | None \<Rightarrow> last_assignment base k)" for k
    using fold_update_lookup [OF dist, of "env_map base []" k] env_map_lookup [of base "[]" k] same
    by (auto split: option.split)
  have ok: "gomap_ok ?m" by (intro fold_update_ok env_map_ok) simp
  have keys: "CHR ''='' \<notin> set k'" if "(k', v') \<in> set ?m" for k' v'
  proof -
    have "map_of ?m k' \<noteq> None" using that by (metis map_of_eq_None_iff fst_conv image_eqI)
    then consider "map_of override k' \<noteq> None" | "map_of (env_map base []) k' \<noteq> None"
      using look [of k'] env_map_lookup [of base "[]" k'] by (auto split: option.splits)
    then show ?thesis using assms(3) env_map_keys [of "[]" base] by cases (auto dest!: map_of_SomeD)
  qed
  have "k @ ''='' @ v \<in> set (mergeEnv iter base override) \<longleftrightarrow> (k, v) \<in> set ?m"
  proof
    assume "k @ ''='' @ v \<in> set (mergeEnv iter base override)"
    then obtain k' v' where kv: "(k', v') \<in> set ?m" "k @ ''='' @ v = k' @ ''='' @ v'"
      by (auto simp: mergeEnv_def Let_def set)
    from assignment_inj [OF assms(4) keys [OF kv(1)] kv(2)] kv(1) show "(k, v) \<in> set ?m" by simp
  next
    assume "(k, v) \<in> set ?m"
    then show "k @ ''='' @ v \<in> set (mergeEnv iter base override)"
      by (force simp: mergeEnv_def Let_def set)
  qed
  also have "\<dots> \<longleftrightarrow> map_of ?m k = Some v"
    using ok by (auto simp: gomap_ok_def dest: map_of_SomeD)
  finally show ?thesis by (auto simp: look split: option.split)
qed

theorem mergeEnv_exact_witness:
  "''TCD_MODE=daemon'' \<in> set (mergeEnv rev [''TCD_MODE=client'', ''HOME=/root''] (daemon_env ''/r.json''))"
proof -
  have "distinct (map fst (daemon_env ''/r.json''))" "\<forall>kv\<in>set (daemon_env ''/r.json''). CHR ''='' \<notin> set (fst kv)"
    "map_of (daemon_env ''/r.json'') ''TCD_MODE'' = Some ''daemon''"
    by (simp_all add: daemon_env_def EnvTCDMode_def EnvTCDRuntime_def TCDModeDaemon_def)
  with mergeEnv_exact [of rev "daemon_env ''/r.json''" "''TCD_MODE''" "''daemon''"] show ?thesis by simp
qed

section \<open>Only the owner of the lock starts a daemon\<close>

text \<open>The events that neither take the lock nor start a process.\<close>

definition harmless :: "'c event \<Rightarrow> bool" where
  "harmless e \<longleftrightarrow> (\<forall>x. e \<noteq> SpawnReturn x) \<and> (\<forall>f. e \<noteq> LockOpened f None)"

lemma harmless_simps [simp]:
  "harmless (FileRead f)" "harmless (Slept d)" "harmless (DialReturn a ok)" "harmless (FileRemoved f)"
  "harmless (FileCopied f f' r)" "harmless (LogOpened f r)" "harmless (LogClosed f)" "harmless (LockOpened f (Some err))"
  "\<not> harmless (SpawnReturn x)" "\<not> harmless (LockOpened f None)"
  by (simp_all add: harmless_def)

lemma alive_extends: "runtimeAlive os info s = (ok, s') \<Longrightarrow> extends harmless s s'"
  by (auto simp: runtimeAlive_def Let_def split: if_splits intro!: extends_emit)

lemma alive_round_next:
  "alive_round os info deadline s = Inr t \<Longrightarrow>
   \<exists>s1. extends harmless s s1 \<and> \<not> time_After (os_now os (sys_log s1)) deadline \<and> t = emit (Slept (200 * time_Millisecond)) s1"
  by (auto simp: alive_round_def split: prod.splits bool.splits if_splits dest: alive_extends)

lemma waitRuntimeAlive_result:
  assumes "waitRuntimeAlive os info timeout s = Some (ok, s')"
  shows "extends harmless s s' \<and>
    (ok \<longrightarrow> (\<exists>h. sys_log s' = DialReturn (info_Addr info) True # h \<and> os_dial os h (info_Addr info)))"
proof -
  let ?d = "time_Add (os_now os (sys_log s)) timeout"
  have "extends harmless s t" if "alive_round os info ?d s = Inr t" for s t
    using alive_round_next [OF that] by (auto intro: extends_emit)
  from poll_result [OF assms [unfolded waitRuntimeAlive_def] this] obtain s1 where
    s1: "extends harmless s s1" "alive_round os info ?d s1 = Inl (ok, s')" by blast
  obtain ok' s2 where alive: "runtimeAlive os info s1 = (ok', s2)" by fastforce
  with s1(2) have "ok' = ok" "s2 = s'" by (auto simp: alive_round_def split: bool.splits if_splits)
  with alive extends_trans [OF s1(1) alive_extends [OF alive]] show ?thesis
    by (auto simp: runtimeAlive_def Let_def split: if_splits)
qed

lemma waitRuntimeAlive_total: "clock_ok os \<Longrightarrow> \<exists>r. waitRuntimeAlive os info timeout s = Some r"
  unfolding waitRuntimeAlive_def
proof (rule poll_returns)
  show "polls os (200 * time_Millisecond) deadline (alive_round os info deadline)" for deadline
    unfolding polls_def using alive_round_next extends_grows by blast
qed simp_all

lemma Wait_harmless: "Wait os fs path timeout s = Some (res, s') \<Longrightarrow> extends harmless s s'"
  by (drule Wait_extends) (auto elim: extends_mono)

lemma prepare_extends: "prepareDaemonExecutable g os fs exe rp s = (r, s') \<Longrightarrow> extends harmless s s'"
  by (auto simp: prepareDaemonExecutable_def copyFile_def Let_def intro!: extends_emit
      split: if_splits option.splits prod.splits)

lemma build_extends: "buildDaemonCommand g os fs rp s = (r, s') \<Longrightarrow> extends harmless s s'"
  by (auto simp: buildDaemonCommand_def split: sum.splits prod.splits dest: prepare_extends)

lemma attach_extends: "attachDaemonOutput os cmd rp s = (r, s') \<Longrightarrow> extends harmless s s'"
  by (auto simp: attachDaemonOutput_def OpenDaemonLogFile_def openLogFile_def Let_def intro!: extends_emit
      split: sum.splits prod.splits option.splits)

text \<open>Harmless events with at most one start of a process among them.\<close>

definition one_start :: "'c sys \<Rightarrow> 'c sys \<Rightarrow> bool" where
  "one_start s s' \<longleftrightarrow> extends harmless s s' \<or> (\<exists>t x. extends harmless s t \<and> extends harmless (emit (SpawnReturn x) t) s')"

lemma one_start_after: "extends harmless s t \<Longrightarrow> one_start t u \<Longrightarrow> one_start s u"
  unfolding one_start_def using extends_trans by blast

lemma one_start_now: "extends harmless s t \<Longrightarrow> extends harmless (emit (SpawnReturn x) t) s' \<Longrightarrow> one_start s s'"
  unfolding one_start_def by blast

lemma start_new_one_start:
  assumes "start_new_daemon g os fs rp s = Some (err, s')"
  shows "one_start s s'"
proof -
  obtain c s1 where b: "buildDaemonCommand g os fs rp s = (c, s1)" by fastforce
  note e1 = build_extends [OF b]
  show ?thesis
  proof (cases c)
    case (Inl e)
    with assms b e1 show ?thesis by (simp add: start_new_daemon_def one_start_def)
  next
    case (Inr cmd)
    obtain a s2 where a: "attachDaemonOutput os cmd rp s1 = (a, s2)" by fastforce
    note e2 = extends_trans [OF e1 attach_extends [OF a]]
    show ?thesis
    proof (cases a)
      case (Inl e)
      with assms b \<open>c = Inr cmd\<close> a e2 show ?thesis by (simp add: start_new_daemon_def one_start_def)
    next
      case (Inr x)
      obtain logFile cmd' where x: "x = (logFile, cmd')" by force
      let ?r = "os_spawn os (sys_log s2) cmd'"
      let ?s3 = "emit (SpawnReturn ?r) s2"
      have "extends harmless ?s3 s'"
      proof (cases ?r)
        case (Inl e)
        with assms b \<open>c = Inr cmd\<close> a \<open>a = Inr x\<close> x obtain res where
          "Wait os fs rp (3 * time_Second) (emit (LogClosed logFile) ?s3) = Some (res, s')"
          by (auto simp: start_new_daemon_def Let_def split: option.splits sum.splits)
        from Wait_harmless [OF this] show ?thesis by (rule extends_trans [OF extends_emit, OF extends_refl, rotated]) simp
      next
        case (Inr pid)
        with assms b \<open>c = Inr cmd\<close> a \<open>a = Inr x\<close> x obtain res s4 where
          w: "Wait os fs rp (10 * time_Second) ?s3 = Some (res, s4)" and
          rest: "s' = s4 \<or> (\<exists>info ok. waitRuntimeAlive os info (5 * time_Second) s4 = Some (ok, s'))"
          by (auto simp: start_new_daemon_def Let_def split: option.splits sum.splits bool.splits prod.splits)
        from rest show ?thesis
          using Wait_harmless [OF w] waitRuntimeAlive_result extends_trans by blast
      qed
      with e2 show ?thesis by (rule one_start_now)
    qed
  qed
qed

lemma start_as_owner_one_start:
  assumes "start_as_owner g os fs rp s = Some (err, s')"
  shows "one_start s s'"
proof -
  let ?s1 = "emit (FileRead rp) s"
  have e1: "extends harmless s ?s1" by (simp add: extends_emit)
  show ?thesis
  proof (cases "fst (ReadRuntime os fs rp s)")
    case (Inl e)
    with assms have "start_new_daemon g os fs rp ?s1 = Some (err, s')"
      by (simp add: start_as_owner_def ReadRuntime_def)
    from one_start_after [OF e1 start_new_one_start [OF this]] show ?thesis .
  next
    case (Inr info)
    with assms obtain ok s2 where w: "waitRuntimeAlive os info (3 * time_Second) ?s1 = Some (ok, s2)"
      by (auto simp: start_as_owner_def ReadRuntime_def split: option.splits)
    then have e2: "extends harmless s s2" using extends_trans [OF e1] waitRuntimeAlive_result by blast
    show ?thesis
    proof (cases ok)
      case True
      with assms Inr w e2 show ?thesis by (simp add: start_as_owner_def ReadRuntime_def one_start_def)
    next
      case False
      with assms Inr w have "start_new_daemon g os fs rp (emit (FileRemoved rp) s2) = Some (err, s')"
        by (simp add: start_as_owner_def ReadRuntime_def)
      moreover have "extends harmless s (emit (FileRemoved rp) s2)" using e2 by (simp add: extends_emit)
      ultimately show ?thesis using one_start_after start_new_one_start by blast
    qed
  qed
qed

lemma lock_extends: "tryAcquireStartLock os fs lk s = (r, s1) \<Longrightarrow> (\<forall>f. r \<noteq> Inr (Some f)) \<Longrightarrow> extends harmless s s1"
  by (auto simp: tryAcquireStartLock_def Let_def intro!: extends_emit split: option.splits if_splits)

lemma lock_owner: "tryAcquireStartLock os fs lk s = (Inr (Some f), s1) \<Longrightarrow> f = lk \<and> s1 = emit (LockOpened lk None) s"
  by (auto simp: tryAcquireStartLock_def Let_def split: option.splits if_splits)

lemma stale_extends: "isStaleStartLock os fs lk rp d s = (b, s1) \<Longrightarrow> extends harmless s s1"
  by (auto simp: isStaleStartLock_def ReadRuntime_def intro!: extends_emit split: sum.splits if_splits prod.splits)

text \<open>How a round of the loop ends.\<close>

lemma autoStart_round_cases [consumes 1, case_names failed owner stuck found timed_out stale again]:
  assumes "autoStart_round g os fs rp deadline s = x"
  obtains (failed) e s1 where "x = Inl (Some (Some e, s1))" "extends harmless s s1"
  | (owner) "x = Inl (map_option (\<lambda>(err, u). (err, releaseStartLock (Some (startLockPath rp)) u))
        (start_as_owner g os fs rp (emit (LockOpened (startLockPath rp) None) s)))"
  | (stuck) s1 where "x = Inl None" "Wait os fs rp (1500 * time_Millisecond) s1 = None"
  | (found) s1 where "x = Inl (Some (None, s1))" "extends harmless s s1"
  | (timed_out) e s1 where "x = Inl (Some (Some e, s1))" "extends harmless s s1" "deadline < os_now os (sys_log s1)"
  | (stale) s1 s2 where "x = Inr (emit (FileRemoved (startLockPath rp)) s2)" "extends harmless s s2"
      "isStaleStartLock os fs (startLockPath rp) rp (90 * time_Second) s1 = (True, s2)"
  | (again) s1 where "x = Inr (emit (Slept (150 * time_Millisecond)) s1)" "extends harmless s s1"
      "\<not> time_After (os_now os (sys_log s1)) deadline"
proof -
  obtain r s1 where l: "tryAcquireStartLock os fs (startLockPath rp) s = (r, s1)" by fastforce
  consider (err) e where "r = Inl e" | (own) f where "r = Inr (Some f)" | (other) "r = Inr None"
    by (cases r) auto
  then show thesis
  proof cases
    case err
    with assms l show thesis using lock_extends [OF l]
      by (intro failed [of e s1]) (auto simp: autoStart_round_def)
  next
    case own
    with lock_owner [of os fs "startLockPath rp" s f s1] assms l show thesis
      by (intro owner) (auto simp: autoStart_round_def Let_def)
  next
    case other
    with lock_extends [OF l] have e1: "extends harmless s s1" by simp
    show thesis
    proof (cases "Wait os fs rp (1500 * time_Millisecond) s1")
      case None
      with assms l other show thesis by (intro stuck [of s1]) (auto simp: autoStart_round_def)
    next
      case (Some w)
      then obtain res s2 where w: "Wait os fs rp (1500 * time_Millisecond) s1 = Some (res, s2)" by (cases w) auto
      have e2: "extends harmless s s2" using e1 Wait_harmless [OF w] by (rule extends_trans)
      show thesis
      proof (cases res)
        case (Inr info)
        with assms l other w e2 show thesis by (intro found [of s2]) (auto simp: autoStart_round_def)
      next
        case (Inl e)
        obtain b s3 where st: "isStaleStartLock os fs (startLockPath rp) rp (90 * time_Second) s2 = (b, s3)" by fastforce
        have e3: "extends harmless s s3" using e2 stale_extends [OF st] by (rule extends_trans)
        show thesis
        proof (cases b)
          case True
          with assms l other w Inl st e3 show thesis by (intro stale [of s3 s2]) (auto simp: autoStart_round_def)
        next
          case b: False
          show thesis
          proof (cases "time_After (os_now os (sys_log s3)) deadline")
            case True
            with assms l other w Inl st b e3 show thesis
              by (intro timed_out [of _ s3]) (auto simp: autoStart_round_def time_After_def)
          next
            case False
            with assms l other w Inl st b e3 show thesis by (intro again [of s3]) (auto simp: autoStart_round_def)
          qed
        qed
      qed
    qed
  qed
qed

lemma autoStart_round_next: "autoStart_round g os fs rp deadline s = Inr t \<Longrightarrow> extends harmless s t"
  by (erule autoStart_round_cases) (auto intro: extends_emit)

text \<open>
  C7. Only the owner of the lock starts a daemon: a call of \<open>autoStartDaemon\<close> that returns either has
  started no process and never taken the lock, or it has taken the lock once, started at most one process
  while it held it, and in the end closed and removed the lock file, also when it fails.
\<close>

theorem only_owner_starts_daemon:
  assumes "autoStartDaemon g os fs rp s = Some (err, s')"
  shows "extends harmless s s' \<or>
    (\<exists>t u. extends harmless s t \<and> one_start (emit (LockOpened (startLockPath rp) None) t) u \<and>
       s' = emit (FileRemoved (startLockPath rp)) (emit (LockClosed (startLockPath rp)) u))"
proof -
  let ?d = "time_Add (os_now os (sys_log s)) (3 * time_Minute)"
  from assms have "go_loop (autoStart_round g os fs rp ?d) s = Some (Some (err, s'))"
    by (auto simp: autoStartDaemon_def bind_eq_Some_conv)
  then obtain t where t: "extends harmless s t" "autoStart_round g os fs rp ?d t = Inl (Some (err, s'))"
    using poll_result [of "autoStart_round g os fs rp ?d" s "Some (err, s')" harmless] autoStart_round_next by blast
  from t(2) show ?thesis
  proof (cases rule: autoStart_round_cases)
    case owner
    then obtain u where "start_as_owner g os fs rp (emit (LockOpened (startLockPath rp) None) t) = Some (err, u)"
      "s' = releaseStartLock (Some (startLockPath rp)) u" by (auto simp: eq_commute [of "Some _" "map_option _ _"])
    with t(1) start_as_owner_one_start [OF this(1)] show ?thesis
      by (intro disjI2 exI [of _ t] exI [of _ u]) (simp add: releaseStartLock_def)
  qed (use t(1) extends_trans in \<open>auto intro: extends_trans\<close>)
qed

text \<open>
  The three minutes that a client waits for the lock do not bound its wait: when the lock file is
  older than 90 seconds and cannot be removed, which the code does not notice, and no runtime file
  appears, a client that does not own the lock never returns, however the clock moves.
\<close>

theorem undeletable_lock_blocks_forever:
  assumes "\<And>h d. os_MkdirAll os h d = None" and "\<And>h. fs_OpenExcl fs h (startLockPath rp) = Some (ErrorSentinel ErrExist)"
    and "\<And>h. \<exists>e. fs_ReadFile fs h (runtime_path (os_TempDir os) rp) = Inl e"
    and "\<And>h. \<exists>m. fs_ModTime fs h (startLockPath rp) = Inr m \<and> 90 * time_Second \<le> time_Sub (os_now os h) m"
    and "clock_ok os"
  shows "autoStartDaemon g os fs rp s = None"
proof -
  let ?d = "time_Add (os_now os (sys_log s)) (3 * time_Minute)"
  have read: "\<exists>e. fst (ReadRuntime os fs rp t) = Inl e" for t
    using assms(3) [of "sys_log t"] by (auto simp: ReadRuntime_def Read_def)
  have "\<exists>u. autoStart_round g os fs rp ?d t = Inr u" for t
  proof -
    let ?t1 = "emit (LockOpened (startLockPath rp) (Some (ErrorSentinel ErrExist))) t"
    have l: "tryAcquireStartLock os fs (startLockPath rp) t = (Inr None, ?t1)"
      by (simp add: tryAcquireStartLock_def assms(1,2))
    obtain res t2 where w: "Wait os fs rp (1500 * time_Millisecond) ?t1 = Some (res, t2)"
      using Wait_total [OF assms(5)] by (metis prod.collapse)
    obtain t3 where "res = fst (ReadRuntime os fs rp t3)"
      using Wait_result [OF w] by (auto simp: ReadRuntime_def)
    then obtain e where "res = Inl e" using read by auto
    moreover have "\<exists>t4. isStaleStartLock os fs (startLockPath rp) rp (90 * time_Second) t2 = (True, t4)"
    proof -
      obtain m where m: "fs_ModTime fs (sys_log t2) (startLockPath rp) = Inr m" "90 * time_Second \<le> time_Sub (os_now os (sys_log t2)) m"
        using assms(4) by blast
      obtain e t4 where "ReadRuntime os fs rp t2 = (Inl e, t4)" using read [of t2] by (metis prod.collapse)
      with m show ?thesis by (auto simp: isStaleStartLock_def)
    qed
    ultimately show ?thesis using l w by (auto simp: autoStart_round_def)
  qed
  then have "go_loop (autoStart_round g os fs rp ?d) s = None"
    by (intro go_loop_diverges [of "\<lambda>t. True"]) auto
  then show ?thesis by (simp add: autoStartDaemon_def)
qed

section \<open>The wait ends\<close>

lemma start_as_owner_total:
  assumes "clock_ok os"
  shows "\<exists>r. start_as_owner g os fs rp s = Some r"
proof -
  have w: "\<exists>res t. Wait os fs rp d u = Some (res, t)" for d u using Wait_total [OF assms] by (metis prod.collapse)
  have a: "\<exists>ok t. waitRuntimeAlive os info d u = Some (ok, t)" for info d u
    using waitRuntimeAlive_total [OF assms] by (metis prod.collapse)
  have new: "\<exists>r. start_new_daemon g os fs rp t = Some r" for t
  proof -
    obtain c s1 where b: "buildDaemonCommand g os fs rp t = (c, s1)" by fastforce
    show ?thesis
    proof (cases c)
      case (Inl e)
      with b show ?thesis by (simp add: start_new_daemon_def)
    next
      case (Inr cmd)
      obtain y s2 where at: "attachDaemonOutput os cmd rp s1 = (y, s2)" by fastforce
      show ?thesis
      proof (cases y)
        case (Inl e)
        with b \<open>c = Inr cmd\<close> at show ?thesis by (simp add: start_new_daemon_def)
      next
        case (Inr z)
        obtain logFile cmd' where z: "z = (logFile, cmd')" by force
        let ?r = "os_spawn os (sys_log s2) cmd'"
        obtain res1 t1 where w1: "Wait os fs rp (3 * time_Second) (emit (LogClosed logFile) (emit (SpawnReturn ?r) s2)) = Some (res1, t1)"
          using w by blast
        obtain res2 t2 where w2: "Wait os fs rp (10 * time_Second) (emit (SpawnReturn ?r) s2) = Some (res2, t2)" using w by blast
        obtain ok t3 where a3: "waitRuntimeAlive os (projr res2) (5 * time_Second) t2 = Some (ok, t3)" using a by blast
        show ?thesis
          using b \<open>c = Inr cmd\<close> at \<open>y = Inr z\<close> z w1 w2 a3
          by (cases ?r; cases res1; cases res2; cases ok) (simp_all add: start_new_daemon_def Let_def)
      qed
    qed
  qed
  show ?thesis
  proof (cases "fst (ReadRuntime os fs rp s)")
    case (Inl e)
    with new show ?thesis by (simp add: start_as_owner_def ReadRuntime_def)
  next
    case (Inr info)
    obtain ok t where "waitRuntimeAlive os info (3 * time_Second) (emit (FileRead rp) s) = Some (ok, t)" using a by blast
    with Inr new show ?thesis by (cases ok) (simp_all add: start_as_owner_def ReadRuntime_def)
  qed
qed

lemma not_stale: "(\<And>h m. fs_ModTime fs h lk = Inr m \<Longrightarrow> time_Sub (os_now os h) m < 90 * time_Second) \<Longrightarrow>
    isStaleStartLock os fs lk rp (90 * time_Second) s = (False, s)"
  by (auto simp: isStaleStartLock_def split: sum.split)

text \<open>
  C37. A client that asks for a daemon gets an answer: when the clock moves and the lock file never gets as
  old as 90 seconds, \<open>autoStartDaemon\<close> returns, with a daemon or with an error.
\<close>

theorem autoStartDaemon_returns:
  assumes "clock_ok os"
    and "\<And>h m. fs_ModTime fs h (startLockPath rp) = Inr m \<Longrightarrow> time_Sub (os_now os h) m < 90 * time_Second"
  shows "\<exists>r. autoStartDaemon g os fs rp s = Some r"
proof -
  let ?d = "time_Add (os_now os (sys_log s)) (3 * time_Minute)"
  let ?round = "autoStart_round g os fs rp ?d"
  have "polls os (150 * time_Millisecond) ?d ?round"
    unfolding polls_def
  proof (intro allI impI)
    fix t u
    assume "?round t = Inr u"
    then show "\<exists>s1. grows t s1 \<and> \<not> time_After (os_now os (sys_log s1)) ?d \<and> u = emit (Slept (150 * time_Millisecond)) s1"
    proof (cases rule: autoStart_round_cases)
      case (stale s1 s2)
      with not_stale [where os = os and fs = fs and rp = rp and s = s1, OF assms(2)] show ?thesis by simp
    qed (use extends_grows in auto)
  qed
  then obtain r where r: "go_loop ?round s = Some r"
    using poll_returns [of os "150 * time_Millisecond" ?d ?round s] assms(1) by auto
  then obtain t where "?round t = Inl r"
    using poll_result [of ?round s r harmless] autoStart_round_next by blast
  then have "r \<noteq> None"
  proof (cases rule: autoStart_round_cases)
    case owner
    with start_as_owner_total [OF assms(1)] show ?thesis by (metis Inl_inject option.map_disc_iff option.distinct(1))
  next
    case (stuck s1)
    with Wait_total [OF assms(1)] show ?thesis by (metis option.distinct(1))
  qed auto
  with r show ?thesis by (auto simp: autoStartDaemon_def)
qed

section \<open>Witnesses\<close>

text \<open>A file system on which the runtime file appears once a process was started.\<close>

definition sample_fs :: "nat fs_env" where
  "sample_fs = \<lparr>fs_ReadFile = (\<lambda>h p. if spawned_pids h = [] then Inl (ErrorSentinel ErrNotExist) else Inr sample_text),
     fs_dec_RuntimeInfo = line_dec, fs_OpenExcl = (\<lambda>h p. None), fs_ModTime = (\<lambda>h p. Inl (ErrorSentinel ErrNotExist)),
     fs_Executable = Inr ''/bin/shop.test'', fs_Open = (\<lambda>h p. None), fs_OpenTrunc = (\<lambda>h p. None),
     fs_Copy = (\<lambda>h p q. None), fs_Sync = (\<lambda>h p. None), fs_iter = (\<lambda>m. m)\<rparr>"

lemma sample_line_text [simp]: "line_dec sample_text = Inr sample_info"
  by (simp add: line_dec_def sample_text_def sample_info_def split_two_def)

lemma sample_info_simps [simp]:
  "info_Addr sample_info = ''127.0.0.1:80''" "info_Token sample_info = ''7''" "strings_TrimSpace ''127.0.0.1:80'' = ''127.0.0.1:80''"
  by (simp_all add: sample_info_def TrimSpace_id space_byte_def space_runes_def)

lemma sample_read [simp]:
  "ReadRuntime sample_os sample_fs p s =
     (if spawned_pids (sys_log s) = [] then Inl (ErrorSentinel ErrNotExist) else Inr sample_info, emit (FileRead p) s)"
  by (simp add: ReadRuntime_def Read_def sample_fs_def)

lemma sample_Wait: "spawned_pids (sys_log s) \<noteq> [] \<Longrightarrow> Wait sample_os sample_fs p d s = Some (Inr sample_info, emit (FileRead p) s)"
  unfolding Wait_def by (rule go_loop_simps(1)) (simp add: Wait_round_def)

lemma sample_alive: "runtimeAlive sample_os sample_info s = (True, emit (DialReturn ''127.0.0.1:80'' True) s)"
  by (simp add: runtimeAlive_def)

lemma sample_waitAlive: "waitRuntimeAlive sample_os sample_info d s = Some (True, emit (DialReturn ''127.0.0.1:80'' True) s)"
  unfolding waitRuntimeAlive_def by (rule go_loop_simps(1)) (simp add: alive_round_def sample_alive)

lemma sample_fs_simps [simp]:
  "fs_OpenExcl sample_fs h p = None" "fs_Executable sample_fs = Inr ''/bin/shop.test''"
  by (simp_all add: sample_fs_def)

lemma sample_autostart:
  assumes "spawned_pids (sys_log s) = []"
  shows "\<exists>s'. autoStartDaemon Unix sample_os sample_fs ''/r.json'' s = Some (None, s') \<and>
    SpawnReturn (Inr 100) \<in> set (sys_log s') \<and> spawned_pids (sys_log s') \<noteq> []"
proof -
  have lock: "tryAcquireStartLock sample_os sample_fs lk s = (Inr (Some lk), emit (LockOpened lk None) s)" for lk
    by (simp add: tryAcquireStartLock_def)
  obtain c where build: "buildDaemonCommand Unix sample_os sample_fs ''/r.json'' s = (Inr c, s)" for s
    by (auto simp: buildDaemonCommand_def prepareDaemonExecutable_def)
  obtain s' where "start_as_owner Unix sample_os sample_fs ''/r.json'' (emit (LockOpened (startLockPath ''/r.json'') None) s) = Some (None, s')"
    "SpawnReturn (Inr 100) \<in> set (sys_log s')" "spawned_pids (sys_log s') \<noteq> []"
    using assms by (simp add: start_as_owner_def start_new_daemon_def build attachDaemonOutput_def OpenDaemonLogFile_def openLogFile_def
        Let_def sample_Wait sample_waitAlive)
  then show ?thesis
    by (simp add: autoStartDaemon_def autoStart_round_def lock go_loop_simps(1) releaseStartLock_def Let_def)
qed

lemma sample_autostart_empty:
  "\<exists>s'. autoStartDaemon Unix sample_os sample_fs ''/r.json'' empty_sys = Some (None, s') \<and> SpawnReturn (Inr 100) \<in> set (sys_log s')"
  using sample_autostart [of empty_sys] by (auto simp: empty_sys_def)

theorem only_owner_starts_daemon_witness:
  "\<exists>s' t u. autoStartDaemon Unix sample_os sample_fs ''/r.json'' empty_sys = Some (None, s') \<and>
     one_start (emit (LockOpened ''/r.json.start.lock'' None) t) u \<and>
     s' = emit (FileRemoved ''/r.json.start.lock'') (emit (LockClosed ''/r.json.start.lock'') u)"
proof -
  obtain s' where run: "autoStartDaemon Unix sample_os sample_fs ''/r.json'' empty_sys = Some (None, s')"
    "SpawnReturn (Inr 100) \<in> set (sys_log s')" using sample_autostart_empty by blast
  then have "\<not> extends harmless empty_sys s'"
    by (auto simp: extends_def empty_sys_def intro!: bexI [of _ "SpawnReturn (Inr 100)"])
  with only_owner_starts_daemon [OF run(1)] run(1) show ?thesis by (auto simp: startLockPath_def)
qed

theorem autoStartDaemon_returns_witness:
  "\<exists>err s'. autoStartDaemon Windows sample_os sample_fs ''/r.json'' empty_sys = Some (err, s')"
proof -
  have "clock_ok sample_os" by (rule sample_clock)
  from autoStartDaemon_returns [OF this, of sample_fs "''/r.json''" Windows empty_sys] show ?thesis
    by (auto simp: sample_fs_def)
qed

text \<open>A lock file from the year 1 in a directory where nothing can be removed, and no daemon.\<close>

definition stuck_fs :: "nat fs_env" where
  "stuck_fs = sample_fs\<lparr>fs_ReadFile := (\<lambda>h p. Inl (ErrorSentinel ErrNotExist)),
     fs_OpenExcl := (\<lambda>h p. Some (ErrorSentinel ErrExist)), fs_ModTime := (\<lambda>h p. Inr 0)\<rparr>"

definition late_os :: "nat os_env" where
  "late_os = sample_os\<lparr>os_now := (\<lambda>h. slept_time h + 200 * time_Second)\<rparr>"

lemma slept_time_pos: "0 < slept_time h"
  by (induction h rule: slept_time.induct) auto

theorem undeletable_lock_blocks_forever_witness:
  "autoStartDaemon Unix late_os stuck_fs ''/r.json'' empty_sys = None"
proof (rule undeletable_lock_blocks_forever)
  show "clock_ok late_os" using sample_clock by (simp add: clock_ok_def late_os_def)
  show "\<exists>m. fs_ModTime stuck_fs h (startLockPath ''/r.json'') = Inr m \<and> 90 * time_Second \<le> time_Sub (os_now late_os h) m" for h
    using slept_time_pos [of h] by (simp add: stuck_fs_def late_os_def time_Sub_def)
qed (simp_all add: stuck_fs_def late_os_def)

end
