(* ===== verification/Start_Race.thy ===== *)
theory Start_Race
  imports Autostart_Proofs
begin

text \<open>
  Several test processes that start the daemon at once (\<^verbatim>\<open>client/autostart.go\<close>): each moves through
  \<^verbatim>\<open>autoStartDaemon\<close> in steps of one call on a shared file each, between which the others run, the clock moves, a
  process dies, or the daemon writes or removes its runtime file.
\<close>

section \<open>Steps\<close>

text \<open>Where a process is; from \<open>Leading\<close> to \<open>Unlocking\<close> it is the owner of the lock.\<close>

datatype starter_pc =
    Contending
  | Leading
  | Launching
  | Launched
  | Unlocking
  | Following
  | Judging
  | Rereading
  | Clearing
  | Late_Check
  | Finished

text \<open>The clock, the time of the lock file if there is one, and the contents of the runtime file if it can be read.\<close>

record lock_files =
  lf_now :: go_time
  lf_lock :: "go_time option"
  lf_runtime :: "RuntimeInfo option"

text \<open>
  The flag says whether the call of the step succeeds: the directory of the lock can be made, the daemon of the
  runtime file answers, the command can be built, the removal of the lock file works.
\<close>

fun starter_step :: "bool \<Rightarrow> go_time \<Rightarrow> starter_pc \<Rightarrow> lock_files \<Rightarrow> starter_pc \<times> lock_files" where
  "starter_step ok deadline Contending f =
     (if \<not> ok then (Finished, f)
      else case lf_lock f of
             None \<Rightarrow> (Leading, f\<lparr>lf_lock := Some (lf_now f)\<rparr>)
           | Some t \<Rightarrow> (Following, f))"
| "starter_step ok deadline Leading f =
     (case lf_runtime f of
        None \<Rightarrow> (Launching, f)
      | Some info \<Rightarrow> if ok then (Unlocking, f) else (Launching, f\<lparr>lf_runtime := None\<rparr>))"
| "starter_step ok deadline Launching f = (if ok then Launched else Unlocking, f)"
| "starter_step ok deadline Launched f = (Unlocking, f)"
| "starter_step ok deadline Unlocking f = (Finished, if ok then f\<lparr>lf_lock := None\<rparr> else f)"
| "starter_step ok deadline Following f = (if lf_runtime f = None then Judging else Finished, f)"
| "starter_step ok deadline Judging f =
     (case lf_lock f of
        None \<Rightarrow> (Late_Check, f)
      | Some t \<Rightarrow> (if time_Sub (lf_now f) t < 90 * time_Second then Late_Check else Rereading, f))"
| "starter_step ok deadline Rereading f = (if lf_runtime f = None then Clearing else Late_Check, f)"
| "starter_step ok deadline Clearing f = (Contending, if ok then f\<lparr>lf_lock := None\<rparr> else f)"
| "starter_step ok deadline Late_Check f = (if time_After (lf_now f) deadline then Finished else Contending, f)"
| "starter_step ok deadline Finished f = (Finished, f)"

text \<open>Each process has its deadline, three minutes after its start.\<close>

record start_race =
  sr_files :: lock_files
  sr_starters :: "(go_time \<times> starter_pc) list"

datatype race_event =
    Moves nat bool
  | Dies nat
  | Clock go_time
  | Runtime_Is "RuntimeInfo option"

fun race_step :: "race_event \<Rightarrow> start_race \<Rightarrow> start_race option" where
  "race_step (Moves i ok) st =
     (if i < length (sr_starters st)
      then case sr_starters st ! i of
             (deadline, pc) \<Rightarrow>
               (case starter_step ok deadline pc (sr_files st) of
                  (pc', f) \<Rightarrow> Some \<lparr>sr_files = f, sr_starters = (sr_starters st)[i := (deadline, pc')]\<rparr>)
      else None)"
| "race_step (Dies i) st =
     (if i < length (sr_starters st)
      then Some (st\<lparr>sr_starters := (sr_starters st)[i := (fst (sr_starters st ! i), Finished)]\<rparr>) else None)"
| "race_step (Clock t) st =
     (if lf_now (sr_files st) \<le> t then Some (st\<lparr>sr_files := (sr_files st)\<lparr>lf_now := t\<rparr>\<rparr>) else None)"
| "race_step (Runtime_Is r) st = Some (st\<lparr>sr_files := (sr_files st)\<lparr>lf_runtime := r\<rparr>\<rparr>)"

section \<open>Mutual exclusion\<close>

text \<open>The steps after which no lock file is 90 seconds old.\<close>

definition young :: "start_race \<Rightarrow> bool" where
  "young st \<longleftrightarrow> (case lf_lock (sr_files st) of None \<Rightarrow> True | Some t \<Rightarrow> time_Sub (lf_now (sr_files st)) t < 90 * time_Second)"

definition timely_step :: "race_event \<Rightarrow> start_race \<Rightarrow> start_race option" where
  "timely_step e st = (case race_step e st of None \<Rightarrow> None | Some st' \<Rightarrow> if young st' then Some st' else None)"

fun leads :: "starter_pc \<Rightarrow> bool" where
  "leads Leading = True"
| "leads Launching = True"
| "leads Launched = True"
| "leads Unlocking = True"
| "leads pc = False"

definition one_leader :: "start_race \<Rightarrow> bool" where
  "one_leader st \<longleftrightarrow> young st \<and>
     (\<forall>i<length (sr_starters st). leads (snd (sr_starters st ! i)) \<longrightarrow>
        lf_lock (sr_files st) \<noteq> None \<and>
        (\<forall>j<length (sr_starters st). leads (snd (sr_starters st ! j)) \<longrightarrow> i = j)) \<and>
     (\<forall>(d, pc)\<in>set (sr_starters st). pc \<noteq> Rereading \<and> pc \<noteq> Clearing)"

lemma one_leader_update:
  assumes "one_leader st" "i < length (sr_starters st)" "pc' \<noteq> Rereading" "pc' \<noteq> Clearing"
    and "young \<lparr>sr_files = f, sr_starters = (sr_starters st)[i := (d, pc')]\<rparr>"
    and "leads pc' \<Longrightarrow> lf_lock f \<noteq> None \<and> (leads (snd (sr_starters st ! i)) \<or> lf_lock (sr_files st) = None)"
    and "lf_lock f = None \<Longrightarrow> lf_lock (sr_files st) = None \<or> leads (snd (sr_starters st ! i))"
  shows "one_leader \<lparr>sr_files = f, sr_starters = (sr_starters st)[i := (d, pc')]\<rparr>"
proof -
  have unique: "\<forall>i<length (sr_starters st). leads (snd (sr_starters st ! i)) \<longrightarrow> lf_lock (sr_files st) \<noteq> None \<and>
      (\<forall>j<length (sr_starters st). leads (snd (sr_starters st ! j)) \<longrightarrow> i = j)"
    using assms(1) by (simp add: one_leader_def)
  have "\<forall>(d, pc)\<in>set ((sr_starters st)[i := (d, pc')]). pc \<noteq> Rereading \<and> pc \<noteq> Clearing"
    using assms(1,3,4) set_update_subset_insert [of "sr_starters st" i "(d, pc')"] by (fastforce simp: one_leader_def)
  moreover have "lf_lock f \<noteq> None \<and> (\<forall>k<length (sr_starters st). leads (snd ((sr_starters st)[i := (d, pc')] ! k)) \<longrightarrow> j = k)"
    if j: "j < length (sr_starters st)" "leads (snd ((sr_starters st)[i := (d, pc')] ! j))" for j
  proof (cases "j = i")
    case True
    then have pc': "leads pc'" using j assms(2) by simp
    have "j = k" if k: "k < length (sr_starters st)" "leads (snd ((sr_starters st)[i := (d, pc')] ! k))" for k
    proof (rule ccontr)
      assume "j \<noteq> k"
      with k True have "leads (snd (sr_starters st ! k))" by simp
      with k(1) unique have "lf_lock (sr_files st) \<noteq> None" "leads (snd (sr_starters st ! i)) \<longrightarrow> i = k" using assms(2) by blast+
      with assms(6) [OF pc'] \<open>j \<noteq> k\<close> True show False by blast
    qed
    with assms(6) [OF pc'] show ?thesis by blast
  next
    case False
    then have other: "leads (snd (sr_starters st ! j))" using j by simp
    with j(1) unique False assms(2) have lock: "lf_lock (sr_files st) \<noteq> None" "\<not> leads (snd (sr_starters st ! i))" by blast+
    have "j = k" if k: "k < length (sr_starters st)" "leads (snd ((sr_starters st)[i := (d, pc')] ! k))" for k
    proof (cases "k = i")
      case True
      then have "leads pc'" using k assms(2) by simp
      with assms(6) lock show ?thesis by blast
    next
      case False
      then have "leads (snd (sr_starters st ! k))" using k by simp
      with j(1) k(1) other unique show ?thesis by blast
    qed
    with assms(7) lock show ?thesis by blast
  qed
  ultimately show ?thesis using assms(5) by (simp add: one_leader_def)
qed

lemma one_leader_step:
  assumes "one_leader st" "timely_step e st = Some st'"
  shows "one_leader st'"
proof -
  from assms(2) have step: "race_step e st = Some st'" "young st'"
    by (auto simp: timely_step_def split: option.splits if_splits)
  show ?thesis
  proof (cases e)
    case (Moves i ok)
    obtain d pc where pc: "sr_starters st ! i = (d, pc)" by force
    obtain pc' f where go: "starter_step ok d pc (sr_files st) = (pc', f)" by force
    from step Moves pc go have st': "i < length (sr_starters st)" "st' = \<lparr>sr_files = f, sr_starters = (sr_starters st)[i := (d, pc')]\<rparr>"
      by (auto split: if_splits)
    have "(d, pc) \<in> set (sr_starters st)" using st'(1) pc by (metis nth_mem)
    with assms(1) have ok: "pc \<noteq> Rereading" "pc \<noteq> Clearing" "young st" by (auto simp: one_leader_def)
    show ?thesis
      unfolding st'(2)
    proof (rule one_leader_update [OF assms(1) st'(1)])
      show "pc' \<noteq> Rereading" "pc' \<noteq> Clearing"
        using go ok by (cases pc; auto simp: young_def split: if_splits option.splits)+
      show "lf_lock f \<noteq> None \<and> (leads (snd (sr_starters st ! i)) \<or> lf_lock (sr_files st) = None)" if "leads pc'"
        using go that assms(1) st'(1) pc by (cases pc) (auto simp: one_leader_def split: if_splits option.splits)
      show "lf_lock (sr_files st) = None \<or> leads (snd (sr_starters st ! i))" if "lf_lock f = None"
        using go that ok pc by (cases pc) (auto split: if_splits option.splits)
    qed (use step(2) st'(2) in simp)
  next
    case (Dies i)
    then have st': "i < length (sr_starters st)" "st' = \<lparr>sr_files = sr_files st, sr_starters = (sr_starters st)[i := (fst (sr_starters st ! i), Finished)]\<rparr>"
      using step(1) by (auto split: if_splits)
    show ?thesis
      unfolding st'(2) by (rule one_leader_update [OF assms(1) st'(1)]) (use step(2) st'(2) in simp_all)
  qed (use assms(1) step in \<open>auto simp: one_leader_def split: if_splits\<close>)
qed

interpretation start_lock: step_invariant timely_step one_leader
  by unfold_locales (rule one_leader_step)

text \<open>
  C16. One process at a time starts the daemon: however many processes come, whatever calls fail, processes die and the
  runtime file does, as long as no lock file gets 90 seconds old there is at most one owner of the lock, which has its
  lock file, and no waiting process removes a lock file. A lock file may be there at the beginning.
\<close>

theorem start_lock_exclusive:
  assumes "\<forall>(d, pc)\<in>set (sr_starters st). pc = Contending" "young st" and "run_steps timely_step es st = Some st'"
  shows "(\<forall>i<length (sr_starters st'). leads (snd (sr_starters st' ! i)) \<longrightarrow>
      lf_lock (sr_files st') \<noteq> None \<and> (\<forall>j<length (sr_starters st'). leads (snd (sr_starters st' ! j)) \<longrightarrow> i = j)) \<and>
    (\<forall>(d, pc)\<in>set (sr_starters st'). pc \<noteq> Clearing)"
proof -
  have "snd (sr_starters st ! i) = Contending" if "i < length (sr_starters st)" for i
    using assms(1) nth_mem [OF that] by (cases "sr_starters st ! i") auto
  then have "one_leader st" using assms(1,2) by (auto simp: one_leader_def)
  from start_lock.run_inv [OF this assms(3)] show ?thesis by (auto simp: one_leader_def)
qed

text \<open>
  Without the bound it fails: two processes find the lock file of a crashed one, both judge it stale, the first
  removes it and takes the lock, and the second removes the new lock file and takes the lock too. Both
  then launch a daemon.
\<close>

theorem stale_lock_two_leaders:
  "\<exists>es st'. run_steps race_step es
       \<lparr>sr_files = \<lparr>lf_now = 200 * time_Second, lf_lock = Some 0, lf_runtime = None\<rparr>,
        sr_starters = [(380 * time_Second, Contending), (380 * time_Second, Contending)]\<rparr> = Some st' \<and>
     map snd (sr_starters st') = [Launching, Launching]"
  by (intro exI [of _ "concat (replicate 4 [Moves 0 True, Moves 1 True]) @
        [Moves 0 True, Moves 0 True, Moves 1 True, Moves 0 True, Moves 1 True, Moves 1 True]"])
    (simp add: numeral_eq_Suc time_Sub_def)

theorem start_lock_exclusive_witness:
  "\<exists>st'. run_steps timely_step
       [Moves 0 True, Moves 1 True, Clock (205 * time_Second), Moves 0 True, Moves 1 True, Moves 0 True, Dies 0, Moves 1 True]
       \<lparr>sr_files = \<lparr>lf_now = 200 * time_Second, lf_lock = None, lf_runtime = None\<rparr>,
        sr_starters = [(380 * time_Second, Contending), (381 * time_Second, Contending)]\<rparr> = Some st' \<and>
     map snd (sr_starters st') = [Finished, Late_Check] \<and> lf_lock (sr_files st') = Some (200 * time_Second) \<and>
     (\<forall>(d, pc)\<in>set (sr_starters st'). pc \<noteq> Clearing)"
proof -
  let ?st = "\<lparr>sr_files = \<lparr>lf_now = 200 * time_Second, lf_lock = None, lf_runtime = None\<rparr>,
    sr_starters = [(380 * time_Second, Contending), (381 * time_Second, Contending)]\<rparr>"
  let ?es = "[Moves 0 True, Moves 1 True, Clock (205 * time_Second), Moves 0 True, Moves 1 True, Moves 0 True, Dies 0, Moves 1 True]"
  let ?final = "\<lparr>sr_files = \<lparr>lf_now = 205 * time_Second, lf_lock = Some (200 * time_Second), lf_runtime = None\<rparr>,
    sr_starters = [(380 * time_Second, Finished), (381 * time_Second, Late_Check)]\<rparr>"
  have run: "run_steps timely_step ?es ?st = Some ?final"
    by (simp add: timely_step_def young_def time_Sub_def)
  have "young ?st" "\<forall>(d, pc)\<in>set (sr_starters ?st). pc = Contending" by (simp_all add: young_def)
  from start_lock_exclusive [OF this(2,1) run] have "\<forall>(d, pc)\<in>set (sr_starters ?final). pc \<noteq> Clearing" by blast
  then show ?thesis using run by (intro exI [of _ ?final]) simp
qed

section \<open>The loop of one process\<close>

text \<open>
  A round of \<open>autoStartDaemon\<close> that finds the lock taken and no daemon, while the lock file stays, is a run of
  these steps from the top of the loop: it ends at the top again, with the lock file removed exactly when the round
  removed it, or it has finished.
\<close>

lemma run_alone:
  "run_steps race_step (Moves 0 ok # es) \<lparr>sr_files = f, sr_starters = [(d, pc)]\<rparr> =
     (case starter_step ok d pc f of (pc', f') \<Rightarrow> run_steps race_step es \<lparr>sr_files = f', sr_starters = [(d, pc')]\<rparr>)"
  by (simp split: prod.split)

theorem follower_round_is_run:
  assumes "\<And>h. os_MkdirAll os h (filepath_Dir (startLockPath rp)) = None"
    and "\<And>h. fs_OpenExcl fs h (startLockPath rp) = Some (ErrorSentinel ErrExist)"
    and "\<And>h. fs_ModTime fs h (startLockPath rp) = Inr m"
    and "\<And>h. \<exists>e. Read (os_TempDir os) (fs_dec_RuntimeInfo fs) (fs_ReadFile fs h) rp = Inl e"
    and "clock_ok os"
  shows "\<exists>es lock pc s'.
     run_steps race_step es
       \<lparr>sr_files = \<lparr>lf_now = os_now os (sys_log s), lf_lock = Some m, lf_runtime = None\<rparr>, sr_starters = [(deadline, Contending)]\<rparr> =
     Some \<lparr>sr_files = \<lparr>lf_now = os_now os (sys_log s'), lf_lock = lock, lf_runtime = None\<rparr>, sr_starters = [(deadline, pc)]\<rparr> \<and>
     (case autoStart_round g os fs rp deadline s of
        Inl r \<Rightarrow> \<exists>e. r = Some (Some e, s') \<and> pc = Finished \<and> lock = Some m
      | Inr t \<Rightarrow> t = s' \<and> pc = Contending \<and>
          (if hd (sys_log t) = FileRemoved (startLockPath rp) then lock = None else lock = Some m))"
proof -
  let ?lk = "startLockPath rp"
  let ?s1 = "emit (LockOpened ?lk (Some (ErrorSentinel ErrExist))) s"
  let ?st = "\<lambda>t lock pc. \<lparr>sr_files = \<lparr>lf_now = t, lf_lock = lock, lf_runtime = None\<rparr>, sr_starters = [(deadline, pc)]\<rparr>"
  have lock: "tryAcquireStartLock os fs ?lk s = (Inr None, ?s1)"
    by (simp add: tryAcquireStartLock_def assms(1,2) Let_def)
  obtain res s2 where w: "Wait os fs rp (1500 * time_Millisecond) ?s1 = Some (res, s2)"
    using Wait_total [OF assms(5)] by (metis prod.collapse)
  from Wait_result [OF w] obtain e where res: "res = Inl e" using assms(4) by metis
  have "grows s s2" using Wait_extends [OF w] extends_grows grows_trans [OF grows_emit] by blast
  then have now2: "os_now os (sys_log s) \<le> os_now os (sys_log s2)" by (rule now_grows [OF assms(5)])
  have tick: "os_now os (sys_log u) \<le> os_now os (sys_log (emit ev u))" for u ev
    by (rule now_grows [OF assms(5)]) simp
  have first: "run_steps race_step (Moves 0 True # Clock (os_now os (sys_log s2)) # Moves 0 True # es) (?st (os_now os (sys_log s)) (Some m) Contending) =
      run_steps race_step es (?st (os_now os (sys_log s2)) (Some m) Judging)" for es
    using now2 by simp
  have round: "autoStart_round g os fs rp deadline s =
      (case isStaleStartLock os fs ?lk rp (90 * time_Second) s2 of
         (True, s3) \<Rightarrow> Inr (emit (FileRemoved ?lk) s3)
       | (False, s3) \<Rightarrow>
           if time_After (os_now os (sys_log s3)) deadline
           then Inl (Some (Some (ErrorNew (''wait daemon start lock timeout: '' @ ?lk)), s3))
           else Inr (emit (Slept (150 * time_Millisecond)) s3))"
    by (simp only: autoStart_round_def Let_def lock w res prod.case sum.case option.case)
  show ?thesis
  proof (cases "time_Sub (os_now os (sys_log s2)) m < 90 * time_Second")
    case young: True
    then have fresh: "isStaleStartLock os fs ?lk rp (90 * time_Second) s2 = (False, s2)"
      by (simp add: isStaleStartLock_def assms(3))
    show ?thesis
    proof (cases "time_After (os_now os (sys_log s2)) deadline")
      case True
      then have result: "autoStart_round g os fs rp deadline s = Inl (Some (Some (ErrorNew (''wait daemon start lock timeout: '' @ ?lk)), s2))"
        by (simp only: round fresh prod.case bool.case if_True if_False)
      have run: "run_steps race_step (Moves 0 True # Clock (os_now os (sys_log s2)) # Moves 0 True # [Moves 0 True, Moves 0 True])
          (?st (os_now os (sys_log s)) (Some m) Contending) = Some (?st (os_now os (sys_log s2)) (Some m) Finished)"
        unfolding first using young True by simp
      show ?thesis by (rule exI, rule exI, rule exI, rule exI, rule conjI, rule run) (simp add: result)
    next
      case False
      let ?u = "emit (Slept (150 * time_Millisecond)) s2"
      from False have result: "autoStart_round g os fs rp deadline s = Inr ?u"
        by (simp only: round fresh prod.case bool.case if_True if_False)
      have run: "run_steps race_step (Moves 0 True # Clock (os_now os (sys_log s2)) # Moves 0 True #
          [Moves 0 True, Moves 0 True, Clock (os_now os (sys_log ?u))])
          (?st (os_now os (sys_log s)) (Some m) Contending) = Some (?st (os_now os (sys_log ?u)) (Some m) Contending)"
        unfolding first using young False tick [of s2 "Slept (150 * time_Millisecond)"] by simp
      show ?thesis by (rule exI, rule exI, rule exI, rule exI, rule conjI, rule run) (simp add: result)
    qed
  next
    case old: False
    obtain s3 where stale: "isStaleStartLock os fs ?lk rp (90 * time_Second) s2 = (True, s3)" and s3: "s3 = emit (FileRead rp) s2"
      using assms(4) [of "sys_log s2"] old by (auto simp: isStaleStartLock_def assms(3) ReadRuntime_def)
    let ?u = "emit (FileRemoved ?lk) s3"
    have result: "autoStart_round g os fs rp deadline s = Inr ?u"
      by (simp only: round stale prod.case bool.case)
    have "os_now os (sys_log s2) \<le> os_now os (sys_log ?u)"
      using tick [of s2] tick [of s3] s3 by (meson order_trans)
    then have run: "run_steps race_step (Moves 0 True # Clock (os_now os (sys_log s2)) # Moves 0 True #
        [Moves 0 True, Moves 0 True, Moves 0 True, Clock (os_now os (sys_log ?u))])
        (?st (os_now os (sys_log s)) (Some m) Contending) = Some (?st (os_now os (sys_log ?u)) None Contending)"
      unfolding first using old by simp
    show ?thesis by (rule exI, rule exI, rule exI, rule exI, rule conjI, rule run) (simp add: result)
  qed
qed

end
