(* ===== verification/Client.thy ===== *)
theory Client
  imports Autostart_Proofs Daemon
begin

text \<open>
  The client of the daemon (\<^verbatim>\<open>client/client.go\<close>, \<^verbatim>\<open>client/heartbeat.go\<close>): how it finds or starts its
  daemon, its four requests and its heartbeat. The HTTP client of the standard library and the JSON
  codec for the answers are parameters.
\<close>

section \<open>State\<close>

record client_Config =
  cc_Project :: string
  cc_RuntimePath :: string
  cc_HTTPTimeout :: duration

record Client =
  cl_cfg :: client_Config
  cl_baseURL :: string
  cl_token :: string

record LeaseInfo =
  li_LeaseID :: string
  li_AcquiredAt :: go_time

record http_request =
  hq_Method :: string
  hq_URL :: string
  hq_Token :: string
  hq_Body :: string

text \<open>
  \<open>he_NewRequest\<close> is the error for a malformed URL; \<open>he_Do\<close> gives the status and the body of the response.
  The decoder for errors is total, since the code ignores its error.
\<close>

record 'c http_env =
  he_NewRequest :: "string \<Rightarrow> go_error option"
  he_Do :: "'c history \<Rightarrow> duration \<Rightarrow> http_request \<Rightarrow> go_error + int \<times> string"
  he_pid :: int
  he_codec :: json_codec
  he_dec_ErrorResp :: "string \<Rightarrow> ErrorResp"
  he_dec_AcquireResp :: "string \<Rightarrow> go_error + AcquireResp"
  he_dec_OKResp :: "string \<Rightarrow> go_error + OKResp"
  he_dec_StateResp :: "string \<Rightarrow> go_error + StateResp"

section \<open>Requests\<close>

definition http_call ::
  "'c http_env \<Rightarrow> Client \<Rightarrow> (string \<Rightarrow> go_error + 'r) \<Rightarrow> string \<Rightarrow> string \<Rightarrow> string \<Rightarrow> 'c sys \<Rightarrow> (go_error + 'r) \<times> 'c sys" where
  "http_call he c dec meth path body s =
     (case he_NewRequest he (cl_baseURL c @ path) of
        Some e \<Rightarrow> (Inl e, s)
      | None \<Rightarrow>
          (let s1 = emit (HttpSent meth path) s in
           case he_Do he (sys_log s) (cc_HTTPTimeout (cl_cfg c))
                  \<lparr>hq_Method = meth, hq_URL = cl_baseURL c @ path, hq_Token = cl_token c, hq_Body = body\<rparr> of
             Inl e \<Rightarrow> (Inl e, s1)
           | Inr (status, b) \<Rightarrow>
               if status \<ge> 400 then
                 (let e = he_dec_ErrorResp he b
                  in (Inl (ErrorNew (''daemon error: '' @ err_Code e @ '' '' @ err_Message e)), s1))
               else (dec b, s1)))"

definition post ::
  "'c http_env \<Rightarrow> Client \<Rightarrow> (string \<Rightarrow> go_error + 'r) \<Rightarrow> string \<Rightarrow> string \<Rightarrow> 'c sys \<Rightarrow> (go_error + 'r) \<times> 'c sys" where
  "post he c dec path body s = http_call he c dec MethodPost path body s"

definition get :: "'c http_env \<Rightarrow> Client \<Rightarrow> (string \<Rightarrow> go_error + 'r) \<Rightarrow> string \<Rightarrow> 'c sys \<Rightarrow> (go_error + 'r) \<times> 'c sys" where
  "get he c dec path s = http_call he c dec MethodGet path [] s"

definition Acquire :: "'c http_env \<Rightarrow> Client \<Rightarrow> 'c sys \<Rightarrow> (go_error + LeaseInfo) \<times> 'c sys" where
  "Acquire he c s =
     (let req = \<lparr>acq_Project = cc_Project (cl_cfg c), acq_PID = he_pid he, acq_RunID = []\<rparr> in
      case post he c (he_dec_AcquireResp he) PathAcquire (enc_AcquireReq (he_codec he) req) s of
        (Inl e, s1) \<Rightarrow> (Inl e, s1)
      | (Inr resp, s1) \<Rightarrow> (Inr \<lparr>li_LeaseID = resp_LeaseID resp, li_AcquiredAt = resp_AcquiredAt resp\<rparr>, s1))"

definition client_error :: "(go_error + 'r) \<times> 'c sys \<Rightarrow> go_error option \<times> 'c sys" where
  "client_error x = (case x of (Inl e, s) \<Rightarrow> (Some e, s) | (Inr r, s) \<Rightarrow> (None, s))"

definition Heartbeat :: "'c http_env \<Rightarrow> Client \<Rightarrow> string \<Rightarrow> 'c sys \<Rightarrow> go_error option \<times> 'c sys" where
  "Heartbeat he c leaseID s =
     client_error (post he c (he_dec_OKResp he) PathHeartbeat (enc_HeartbeatReq (he_codec he) \<lparr>hb_LeaseID = leaseID\<rparr>) s)"

definition Release :: "'c http_env \<Rightarrow> Client \<Rightarrow> string \<Rightarrow> int \<Rightarrow> 'c sys \<Rightarrow> go_error option \<times> 'c sys" where
  "Release he c leaseID exitCode s =
     client_error (post he c (he_dec_OKResp he) PathRelease
       (enc_ReleaseReq (he_codec he) \<lparr>rel_LeaseID = leaseID, rel_ExitCode = exitCode\<rparr>) s)"

definition State :: "'c http_env \<Rightarrow> Client \<Rightarrow> 'c sys \<Rightarrow> (go_error + StateResp) \<times> 'c sys" where
  "State he c s = get he c (he_dec_StateResp he) PathState s"

section \<open>Finding the daemon\<close>

definition connected_to :: "RuntimeInfo \<Rightarrow> Client \<Rightarrow> Client" where
  "connected_to info c = c\<lparr>cl_baseURL := ''http://'' @ info_Addr info, cl_token := info_Token info\<rparr>"

text \<open>
  One pass of the loop over the attempts: \<open>Inl\<close> where it returns from the function (\<open>None\<close> when a call
  in it never returns), \<open>Inr\<close> where it goes on.
\<close>

definition connect_attempt ::
  "goos \<Rightarrow> 'c os_env \<Rightarrow> 'c fs_env \<Rightarrow> nat \<Rightarrow> Client \<Rightarrow> 'c sys \<Rightarrow> (go_error option \<times> Client \<times> 'c sys) option + 'c sys" where
  "connect_attempt g os fs attempt c s =
     (let rp = cc_RuntimePath (cl_cfg c);
          first = (case ReadRuntime os fs rp s of
             (Inl e, s1) \<Rightarrow> Inr s1
           | (Inr info, s1) \<Rightarrow>
               (case runtimeAlive os info s1 of
                  (True, s2) \<Rightarrow> Inl (connected_to info c, s2)
                | (False, s2) \<Rightarrow> Inr (emit (FileRemoved rp) s2)));
          refresh = (\<lambda>s3.
             case Wait os fs rp (12 * time_Second) s3 of
               None \<Rightarrow> Inl None
             | Some (Inl we, s4) \<Rightarrow> if attempt = 1 then Inl (Some (Some we, c, s4)) else Inr s4
             | Some (Inr info, s4) \<Rightarrow>
                 (case runtimeAlive os info s4 of
                    (True, s5) \<Rightarrow> Inl (Some (None, connected_to info c, s5))
                  | (False, s5) \<Rightarrow> Inr (emit (FileRemoved rp) s5)))
      in case first of
           Inl (c', s') \<Rightarrow> Inl (Some (None, c', s'))
         | Inr s1 \<Rightarrow>
             (case autoStartDaemon g os fs rp s1 of
                None \<Rightarrow> Inl None
              | Some (None, s2) \<Rightarrow> refresh s2
              | Some (Some e, s2) \<Rightarrow>
                  (case Wait os fs rp (3 * time_Second) s2 of
                     None \<Rightarrow> Inl None
                   | Some (Inl we, s3) \<Rightarrow> if attempt = 1 then Inl (Some (Some e, c, s3)) else Inr s3
                   | Some (Inr info, s3) \<Rightarrow> refresh s3)))"

definition connectOrStart ::
  "goos \<Rightarrow> 'c os_env \<Rightarrow> 'c fs_env \<Rightarrow> Client \<Rightarrow> 'c sys \<Rightarrow> (go_error option \<times> Client \<times> 'c sys) option" where
  "connectOrStart g os fs c s =
     (case connect_attempt g os fs 0 c s of
        Inl r \<Rightarrow> r
      | Inr s1 \<Rightarrow>
          (case connect_attempt g os fs 1 c s1 of
             Inl r \<Rightarrow> r
           | Inr s2 \<Rightarrow> Some (Some (ErrorNew ''connect daemon failed after runtime refresh''), c, s2)))"

definition client_New ::
  "goos \<Rightarrow> 'c os_env \<Rightarrow> 'c fs_env \<Rightarrow> client_Config \<Rightarrow> 'c sys \<Rightarrow> ((go_error + Client) \<times> 'c sys) option" where
  "client_New g os fs cfg s =
     (let c1 = (if cc_Project cfg = [] then cfg\<lparr>cc_Project := ''default''\<rparr> else cfg);
          c2 = (if cc_HTTPTimeout c1 \<le> 0 then c1\<lparr>cc_HTTPTimeout := 5 * time_Second\<rparr> else c1);
          c3 = (if cc_RuntimePath c2 = [] then c2\<lparr>cc_RuntimePath := DefaultRuntimePath (os_TempDir os) (cc_Project c2)\<rparr> else c2)
      in case connectOrStart g os fs \<lparr>cl_cfg = c3, cl_baseURL = [], cl_token = []\<rparr> s of
           None \<Rightarrow> None
         | Some (Some e, c, s1) \<Rightarrow> Some (Inl e, s1)
         | Some (None, c, s1) \<Rightarrow> Some (Inr c, s1))"

section \<open>The heartbeat\<close>

definition heartbeat_period :: duration where
  "heartbeat_period = (if HeartbeatInterval < time_Second then time_Second else HeartbeatInterval)"

text \<open>
  \<open>StartHeartbeat\<close> starts a goroutine and returns the cancellation of its context. What wakes the goroutine is
  given as a list of signals: the \<^verbatim>\<open>select\<close> may take a tick whenever the ticker has one, also after the cancellation, and
  the context only once it is cancelled (before that the signal has no effect). After that the goroutine is gone. A heartbeat
  is sent with a context of its own, so the cancellation does not take it back.
\<close>

datatype hb_signal = HbTick | HbCancelled

record hb_state =
  hb_running :: bool
  hb_cancelled :: bool

definition StartHeartbeat :: hb_state where
  "StartHeartbeat = \<lparr>hb_running = True, hb_cancelled = False\<rparr>"

definition stopHB :: "hb_state \<Rightarrow> hb_state" where
  "stopHB hb = hb\<lparr>hb_cancelled := True\<rparr>"

fun heartbeat_goroutine ::
  "'c http_env \<Rightarrow> Client \<Rightarrow> string \<Rightarrow> hb_signal list \<Rightarrow> hb_state \<Rightarrow> 'c sys \<Rightarrow> hb_state \<times> 'c sys" where
  "heartbeat_goroutine he c leaseID [] hb s = (hb, s)"
| "heartbeat_goroutine he c leaseID (HbCancelled # sigs) hb s =
     heartbeat_goroutine he c leaseID sigs (if hb_cancelled hb then hb\<lparr>hb_running := False\<rparr> else hb) s"
| "heartbeat_goroutine he c leaseID (HbTick # sigs) hb s =
     heartbeat_goroutine he c leaseID sigs hb (if hb_running hb then snd (Heartbeat he c leaseID s) else s)"

end
