(* ===== verification/Client_Proofs.thy ===== *)
theory Client_Proofs
  imports Client Daemon_Guarantees
begin

text \<open>
  A client that is connected is connected to a daemon that answered, and its acquire request, taken
  through both codecs and the daemon's server, gives the lease the daemon granted.
\<close>

section \<open>The connection\<close>

lemma Read_Inr: "Read tmp dec rf path = Inr info \<Longrightarrow> info_Addr info \<noteq> [] \<and> info_Token info \<noteq> []"
  by (auto simp: Read_def split: sum.splits if_splits)

text \<open>The runtime file was read, and the address in it dialled with success right after that.\<close>

definition found_daemon :: "'c os_env \<Rightarrow> 'c fs_env \<Rightarrow> string \<Rightarrow> RuntimeInfo \<Rightarrow> 'c sys \<Rightarrow> bool" where
  "found_daemon os fs rp info s \<longleftrightarrow>
     (\<exists>h. sys_log s = DialReturn (info_Addr info) True # FileRead rp # h \<and>
        Read (os_TempDir os) (fs_dec_RuntimeInfo fs) (fs_ReadFile fs h) rp = Inr info)"

lemma alive_found:
  assumes "runtimeAlive os info (emit (FileRead rp) s) = (True, s')"
    and "Read (os_TempDir os) (fs_dec_RuntimeInfo fs) (fs_ReadFile fs (sys_log s)) rp = Inr info"
  shows "found_daemon os fs rp info s'"
  using assms by (auto simp: runtimeAlive_def found_daemon_def Let_def split: if_splits)

lemma connect_attempt_cases:
  assumes "connect_attempt g os fs n c s = Inl (Some (None, c', s'))"
  shows "\<exists>info. c' = connected_to info c \<and> found_daemon os fs (cc_RuntimePath (cl_cfg c)) info s'"
proof -
  let ?rp = "cc_RuntimePath (cl_cfg c)"
  have waited: "\<exists>info. c' = connected_to info c \<and> found_daemon os fs ?rp info s'"
    if w: "Wait os fs ?rp d t = Some (Inr info, u)" and a: "runtimeAlive os info u = (True, s')" "c' = connected_to info c" for d t u info
  proof -
    from Wait_result [OF w] obtain s1 where "u = emit (FileRead ?rp) s1"
      "Read (os_TempDir os) (fs_dec_RuntimeInfo fs) (fs_ReadFile fs (sys_log s1)) ?rp = Inr info" by auto
    with a alive_found [of os info ?rp s1 s' fs] show ?thesis by blast
  qed
  from assms consider
      (first) info where "ReadRuntime os fs ?rp s = (Inr info, emit (FileRead ?rp) s)"
        "runtimeAlive os info (emit (FileRead ?rp) s) = (True, s')" "c' = connected_to info c"
    | (refreshed) d t u info where "Wait os fs ?rp d t = Some (Inr info, u)" "runtimeAlive os info u = (True, s')"
        "c' = connected_to info c"
    by (auto simp: connect_attempt_def ReadRuntime_def Let_def split: sum.splits prod.splits bool.splits option.splits if_splits)
  then show ?thesis
  proof cases
    case first
    then show ?thesis using alive_found [of os info ?rp s s' fs] by (auto simp: ReadRuntime_def)
  next
    case refreshed
    then show ?thesis by (rule waited)
  qed
qed

text \<open>
  C38. A client that is connected has a daemon: when \<open>connectOrStart\<close> returns without an error, the base URL
  and the token of the client are those of one runtime file, both are not empty, and after that file was
  read its address was dialled with success, as the last thing that happened.
\<close>

theorem connected_client_has_daemon:
  assumes "connectOrStart g os fs c s = Some (None, c', s')"
  shows "\<exists>info. c' = c\<lparr>cl_baseURL := ''http://'' @ info_Addr info, cl_token := info_Token info\<rparr> \<and>
    info_Addr info \<noteq> [] \<and> info_Token info \<noteq> [] \<and> found_daemon os fs (cc_RuntimePath (cl_cfg c)) info s'"
proof -
  from assms obtain n t where "connect_attempt g os fs n c t = Inl (Some (None, c', s'))"
    by (auto simp: connectOrStart_def split: sum.splits)
  from connect_attempt_cases [OF this] obtain info where
    "c' = connected_to info c" "found_daemon os fs (cc_RuntimePath (cl_cfg c)) info s'" by blast
  moreover from this(2) have "info_Addr info \<noteq> [] \<and> info_Token info \<noteq> []"
    using Read_Inr unfolding found_daemon_def by blast
  ultimately show ?thesis by (auto simp: connected_to_def)
qed

definition sample_client :: Client where
  "sample_client = \<lparr>cl_cfg = \<lparr>cc_Project = ''shop'', cc_RuntimePath = ''/r.json'', cc_HTTPTimeout = 5 * time_Second\<rparr>,
     cl_baseURL = [], cl_token = []\<rparr>"

text \<open>A client that starts its daemon itself.\<close>

lemma sample_connect:
  "\<exists>s'. connectOrStart Unix sample_os sample_fs sample_client empty_sys =
     Some (None, sample_client\<lparr>cl_baseURL := ''http://127.0.0.1:80'', cl_token := ''7''\<rparr>, s')"
proof -
  obtain t where auto: "autoStartDaemon Unix sample_os sample_fs ''/r.json'' (emit (FileRead ''/r.json'') empty_sys) = Some (None, t)"
    and spawned: "spawned_pids (sys_log t) \<noteq> []"
    using sample_autostart [of "emit (FileRead ''/r.json'') empty_sys"] by (auto simp: empty_sys_def)
  have none: "spawned_pids (sys_log empty_sys) = []" by (simp add: empty_sys_def)
  show ?thesis
    by (simp add: connectOrStart_def connect_attempt_def sample_client_def none auto sample_Wait [OF spawned] sample_alive
        connected_to_def Let_def)
qed

theorem connected_client_has_daemon_witness:
  "\<exists>s' info. connectOrStart Unix sample_os sample_fs sample_client empty_sys =
     Some (None, sample_client\<lparr>cl_baseURL := ''http://127.0.0.1:80'', cl_token := ''7''\<rparr>, s') \<and>
     info_Token info = ''7'' \<and> found_daemon sample_os sample_fs ''/r.json'' info s'"
proof -
  obtain s' where run: "connectOrStart Unix sample_os sample_fs sample_client empty_sys =
     Some (None, sample_client\<lparr>cl_baseURL := ''http://127.0.0.1:80'', cl_token := ''7''\<rparr>, s')"
    using sample_connect by blast
  from connected_client_has_daemon [OF run] run show ?thesis
    by (auto simp: sample_client_def)
qed

section \<open>An acquire request, end to end\<close>

text \<open>
  The connection between the client and the server: the HTTP client delivers the request to the
  daemon's server and its answer, encoded, back.
\<close>

definition delivers ::
  "'c http_env \<Rightarrow> Client \<Rightarrow> 'c history \<Rightarrow> (payload \<Rightarrow> string) \<Rightarrow> (wire_request \<Rightarrow> (response \<times> 'd) option) \<Rightarrow> bool" where
  "delivers he c h enc server \<longleftrightarrow>
     (\<forall>meth path body. he_NewRequest he (cl_baseURL c @ path) = None \<and>
        (\<forall>resp d'. server \<lparr>wr_Method = meth, wr_Path = path, wr_Token = cl_token c, wr_Body = body\<rparr> = Some (resp, d') \<longrightarrow>
           he_Do he h (cc_HTTPTimeout (cl_cfg c))
             \<lparr>hq_Method = meth, hq_URL = cl_baseURL c @ path, hq_Token = cl_token c, hq_Body = body\<rparr> =
           Inr (rs_Status resp, enc (rs_Body resp))))"

text \<open>The codecs of the two sides fit together on a request and the answer to it.\<close>

definition codecs_fit :: "'c http_env \<Rightarrow> json_codec \<Rightarrow> (payload \<Rightarrow> string) \<Rightarrow> AcquireReq \<Rightarrow> payload \<Rightarrow> bool" where
  "codecs_fit he cod enc req answer \<longleftrightarrow>
     dec_AcquireReq cod (enc_AcquireReq (he_codec he) req) = Inr req \<and>
     (\<forall>a. answer = AcquireBody a \<longrightarrow> he_dec_AcquireResp he (enc answer) = Inr a) \<and>
     (\<forall>e. answer = ErrorBody e \<longrightarrow> he_dec_ErrorResp he (enc answer) = e)"

definition acquire_req :: "'c http_env \<Rightarrow> Client \<Rightarrow> AcquireReq" where
  "acquire_req he c = \<lparr>acq_Project = cc_Project (cl_cfg c), acq_PID = he_pid he, acq_RunID = []\<rparr>"

lemma post_delivered:
  assumes "delivers he c (sys_log s) enc server"
    and "server \<lparr>wr_Method = MethodPost, wr_Path = path, wr_Token = cl_token c, wr_Body = body\<rparr> = Some (resp, d')"
  shows "post he c dec path body s =
    (if 400 \<le> rs_Status resp
     then (let e = he_dec_ErrorResp he (enc (rs_Body resp))
           in Inl (ErrorNew (''daemon error: '' @ err_Code e @ '' '' @ err_Message e)))
     else dec (enc (rs_Body resp)), emit (HttpSent MethodPost path) s)"
  using assms by (simp add: post_def http_call_def delivers_def Let_def)

text \<open>
  C4. An acquire request gets through: a client with the token of its daemon (which has no white space at its ends), whose
  request the daemon answers, either holds the lease that the daemon has stored, for one lease time and on running
  containers, or gets the daemon's own error with the message of its answer, and the daemon has stored nothing.
\<close>

theorem acquire_end_to_end:
  assumes "daemon_ok d" and "cl_token c = dc_Token (dm_cfg d)" "dc_Token (dm_cfg d) \<noteq> []"
    "strings_TrimSpace (dc_Token (dm_cfg d)) = dc_Token (dm_cfg d)"
    and "codecs_fit he (w_codec w) enc (acquire_req he c) (rs_Body resp)"
    and "delivers he c (sys_log s) enc (\<lambda>wr. serve w sched ctx rd now answered wr d)"
    and "serve w sched ctx rd now answered \<lparr>wr_Method = MethodPost, wr_Path = PathAcquire, wr_Token = cl_token c,
      wr_Body = enc_AcquireReq (he_codec he) (acquire_req he c)\<rparr> d = Some (resp, d')"
  shows "(\<exists>i. fst (Acquire he c s) = Inr \<lparr>li_LeaseID = i, li_AcquiredAt = answered\<rparr> \<and>
      lease_expiry (dm_store d') i = Some (now + LeaseTTL) \<and> dm_infraStarted d') \<or>
    (\<exists>msg. rs_Body resp = ErrorBody \<lparr>err_Code = ''internal'', err_Message = msg\<rparr> \<and>
       fst (Acquire he c s) = Inl (ErrorNew (''daemon error: internal '' @ msg)) \<and> dm_store d' = dm_store d)"
proof -
  let ?req = "acquire_req he c"
  let ?rq = "\<lparr>rq_Method = MethodPost, rq_Token = cl_token c, rq_Body = Inr ?req\<rparr> :: AcquireReq request"
  let ?d0 = "d\<lparr>dm_acquireInFlight := dm_acquireInFlight d + 1\<rparr>"
  have call: "fst (Acquire he c s) = (if 400 \<le> rs_Status resp
     then (let e = he_dec_ErrorResp he (enc (rs_Body resp))
           in Inl (ErrorNew (''daemon error: '' @ err_Code e @ '' '' @ err_Message e)))
     else map_sum id (\<lambda>r. \<lparr>li_LeaseID = resp_LeaseID r, li_AcquiredAt = resp_AcquiredAt r\<rparr>)
            (he_dec_AcquireResp he (enc (rs_Body resp))))"
    using post_delivered [OF assms(6,7), of "he_dec_AcquireResp he"]
    by (simp add: Acquire_def acquire_req_def Let_def split: sum.split)
  have "handleAcquire (w_goos w) (w_os w) (w_trm w) sched ctx rd now answered ?rq d = Some (resp, d')"
    using assms(2-5,7) by (simp add: serve_def decoded_def withAuth_passes codecs_fit_def)
  then obtain d1 where body: "acquire_body (w_goos w) (w_os w) (w_trm w) sched ctx rd now answered ?rq ?d0 = Some (resp, d1)"
    "d' = d1\<lparr>dm_acquireInFlight := dm_acquireInFlight d1 - 1\<rparr>"
    by (cases rule: handleAcquire_cases) auto
  have ok0: "daemon_ok ?d0" using assms(1) by (simp add: daemon_ok_def)
  from body(1) ok0 show ?thesis
  proof (cases rule: acquire_body_cases)
    case (infra e)
    have "dm_store d' = dm_store d" using ensureInfra_spec [OF infra(2) ok0] body(2) by simp
    with infra(1) call assms(5) show ?thesis by (simp add: codecs_fit_def writeError_def writeJSON_def)
  next
    case (sut e e1)
    have "dm_store d' = dm_store d"
      using ensureInfra_spec [OF sut(2) ok0] ensureSUT_spec [OF sut(4,3)] body(2) by simp
    with sut(1) call assms(5) show ?thesis by (simp add: codecs_fit_def writeError_def writeJSON_def)
  next
    case (granted req e1 e2)
    have st: "store_ok (dm_store e2)" using ensureSUT_spec [OF granted(4,3)] by (auto simp: daemon_ok_def)
    have up: "dm_infraStarted d'" using ensureInfra_spec [OF granted(2) ok0] ensureSUT_spec [OF granted(4,3)] body(2) granted(6) by simp
    have "lease_expiry (dm_store d') (lease_ident (rd, acq_PID req)) = Some (now + LeaseTTL)"
      using store.expiry_grant [OF st, of "(rd, acq_PID req)" now "lease_ident (rd, acq_PID req)"] body(2) granted(6) by simp
    with up granted(5) call assms(5) show ?thesis by (simp add: codecs_fit_def)
  qed simp
qed

text \<open>A client wired to the sample daemon.\<close>

definition wire_enc :: "payload \<Rightarrow> string" where
  "wire_enc p = (case p of AcquireBody a \<Rightarrow> resp_LeaseID a | _ \<Rightarrow> [])"

definition wired :: "nat http_env" where
  "wired = \<lparr>he_NewRequest = (\<lambda>u. None),
     he_Do = (\<lambda>h t q. case serve sample_world [] Background sample_rand 20 21
         \<lparr>wr_Method = hq_Method q, wr_Path = hq_URL q, wr_Token = hq_Token q, wr_Body = hq_Body q\<rparr> sample_daemon of
           None \<Rightarrow> Inl (ErrorSentinel ErrDeadlineExceeded) | Some (resp, d') \<Rightarrow> Inr (rs_Status resp, wire_enc (rs_Body resp))),
     he_pid = 42, he_codec = sample_codec, he_dec_ErrorResp = (\<lambda>b. \<lparr>err_Code = b, err_Message = []\<rparr>),
     he_dec_AcquireResp = (\<lambda>b. Inr \<lparr>resp_LeaseID = b, resp_AcquiredAt = 21\<rparr>),
     he_dec_OKResp = (\<lambda>b. Inr \<lparr>resp_OK = True\<rparr>), he_dec_StateResp = (\<lambda>b. Inl (ErrorNew ''EOF''))\<rparr>"

lemma wired_delivers:
  "delivers wired (sample_client\<lparr>cl_token := ''7''\<rparr>) h wire_enc (\<lambda>wr. serve sample_world [] Background sample_rand 20 21 wr sample_daemon)"
  by (simp add: delivers_def wired_def sample_client_def)

theorem acquire_end_to_end_witness:
  "\<exists>i. fst (Acquire wired (sample_client\<lparr>cl_token := ''7''\<rparr>) empty_sys) = Inr \<lparr>li_LeaseID = i, li_AcquiredAt = 21\<rparr>"
proof -
  let ?c = "sample_client\<lparr>cl_token := ''7''\<rparr>"
  let ?wr = "\<lparr>wr_Method = MethodPost, wr_Path = PathAcquire, wr_Token = cl_token ?c,
      wr_Body = enc_AcquireReq (he_codec wired) (acquire_req wired ?c)\<rparr>"
  let ?server = "\<lambda>wr. serve sample_world [] Background sample_rand 20 21 wr sample_daemon"
  obtain resp d' i where granted: "handleAcquire Unix sample_os (\<lambda>h c. None) [] Background sample_rand 20 21 sample_acquire sample_daemon =
     Some (resp, d')" "rs_Status resp = 200" "rs_Body resp = AcquireBody \<lparr>resp_LeaseID = i, resp_AcquiredAt = 21\<rparr>"
    using sample_granted by blast
  have token: "dc_Token (dm_cfg sample_daemon) = ''7''" by (simp add: sample_daemon_def sample_dcfg_def)
  have req: "decoded (dec_AcquireReq (w_codec sample_world)) ?wr = sample_acquire"
    by (simp add: decoded_def sample_acquire_def acquire_req_def sample_client_def wired_def sample_world_def sample_codec_def)
  have "withAuth (handleAcquire Unix sample_os (\<lambda>h c. None) [] Background sample_rand 20 21) sample_acquire sample_daemon =
      Some (resp, d')"
    using granted(1) token by (subst withAuth_passes) (simp_all add: sample_acquire_def)
  then have run: "?server ?wr = Some (resp, d')"
    unfolding serve_def req by (simp add: sample_world_def)
  have fit: "codecs_fit wired (w_codec sample_world) wire_enc (acquire_req wired ?c) (rs_Body resp)"
    using granted(3) by (simp add: codecs_fit_def wired_def acquire_req_def sample_client_def sample_world_def sample_codec_def wire_enc_def)
  have del: "delivers wired ?c (sys_log empty_sys) wire_enc ?server"
    by (rule wired_delivers)
  have "cl_token ?c = dc_Token (dm_cfg sample_daemon)" "dc_Token (dm_cfg sample_daemon) \<noteq> []"
    "strings_TrimSpace (dc_Token (dm_cfg sample_daemon)) = dc_Token (dm_cfg sample_daemon)" using token by simp_all
  from acquire_end_to_end [OF sample_daemon_ok this fit del run]
  consider j where "fst (Acquire wired ?c empty_sys) = Inr \<lparr>li_LeaseID = j, li_AcquiredAt = 21\<rparr>"
    | msg where "fst (Acquire wired ?c empty_sys) = Inl (ErrorNew (''daemon error: internal '' @ msg))" by blast
  then show ?thesis
  proof cases
    case 2
    have "fst (post wired ?c (he_dec_AcquireResp wired) PathAcquire (wr_Body ?wr) empty_sys) = he_dec_AcquireResp wired (wire_enc (rs_Body resp))"
      using granted(2) by (simp add: post_delivered [OF del run])
    then have "isl (fst (Acquire wired ?c empty_sys)) = False"
      by (auto simp: Acquire_def acquire_req_def Let_def wired_def split: sum.split prod.split)
    with 2 show ?thesis by simp
  qed blast
qed

section \<open>A release, end to end\<close>

lemma serve_lease_requests:
  assumes "cl_token c = dc_Token (dm_cfg d)" "dc_Token (dm_cfg d) \<noteq> []"
    "strings_TrimSpace (dc_Token (dm_cfg d)) = dc_Token (dm_cfg d)"
  shows "dec_ReleaseReq (w_codec w) b = Inr req \<Longrightarrow>
      serve w sched ctx rd now answered \<lparr>wr_Method = MethodPost, wr_Path = PathRelease, wr_Token = cl_token c, wr_Body = b\<rparr> d =
        handleRelease \<lparr>rq_Method = MethodPost, rq_Token = cl_token c, rq_Body = Inr req\<rparr> d"
    and "dec_HeartbeatReq (w_codec w) b = Inr req' \<Longrightarrow>
      serve w sched ctx rd now answered \<lparr>wr_Method = MethodPost, wr_Path = PathHeartbeat, wr_Token = cl_token c, wr_Body = b\<rparr> d =
        handleHeartbeat now \<lparr>rq_Method = MethodPost, rq_Token = cl_token c, rq_Body = Inr req'\<rparr> d"
  using assms by (simp_all add: serve_def decoded_def withAuth_passes)

text \<open>
  C8. A release gets through and is final: when the client of a stored lease releases it, the daemon drops
  this lease and no other and the client sees no error; a heartbeat for it that reaches the daemon in the state after the
  release, at whatever later time, such as one the client had already sent, is refused and does not bring the lease back.
\<close>

theorem release_ends_lease:
  assumes "lease_expiry (dm_store d) i \<noteq> None"
    and "cl_token c = dc_Token (dm_cfg d)" "dc_Token (dm_cfg d) \<noteq> []"
      "strings_TrimSpace (dc_Token (dm_cfg d)) = dc_Token (dm_cfg d)"
    and "dec_ReleaseReq (w_codec w) (enc_ReleaseReq (he_codec he) \<lparr>rel_LeaseID = i, rel_ExitCode = code\<rparr>) =
      Inr \<lparr>rel_LeaseID = i, rel_ExitCode = code\<rparr>"
    and "dec_HeartbeatReq (w_codec w) (enc_HeartbeatReq (he_codec he) \<lparr>hb_LeaseID = i\<rparr>) = Inr \<lparr>hb_LeaseID = i\<rparr>"
    and "he_dec_OKResp he (enc (OKBody \<lparr>resp_OK = True\<rparr>)) = Inr \<lparr>resp_OK = True\<rparr>"
    and "delivers he c (sys_log s) enc (\<lambda>wr. serve w sched ctx rd now answered wr d)"
  shows "fst (Release he c i code s) = None \<and>
    (\<exists>d'. serve w sched ctx rd now answered \<lparr>wr_Method = MethodPost, wr_Path = PathRelease, wr_Token = cl_token c,
        wr_Body = enc_ReleaseReq (he_codec he) \<lparr>rel_LeaseID = i, rel_ExitCode = code\<rparr>\<rparr> d =
        Some (writeJSON 200 (OKBody \<lparr>resp_OK = True\<rparr>), d') \<and>
      d' = d\<lparr>dm_store := dm_store d'\<rparr> \<and> (\<forall>j. lease_expiry (dm_store d') j = (if j = i then None else lease_expiry (dm_store d) j)) \<and>
      (\<forall>sched' ctx' rd' later answered'. serve w sched' ctx' rd' later answered'
         \<lparr>wr_Method = MethodPost, wr_Path = PathHeartbeat, wr_Token = cl_token c,
          wr_Body = enc_HeartbeatReq (he_codec he) \<lparr>hb_LeaseID = i\<rparr>\<rparr> d' =
         Some (writeError 404 ErrCodeNotFound ''lease not found'', d')))"
proof -
  let ?req = "\<lparr>rel_LeaseID = i, rel_ExitCode = code\<rparr>"
  let ?wr = "\<lparr>wr_Method = MethodPost, wr_Path = PathRelease, wr_Token = cl_token c, wr_Body = enc_ReleaseReq (he_codec he) ?req\<rparr>"
  let ?ok = "writeJSON 200 (OKBody \<lparr>resp_OK = True\<rparr>)"
  let ?d' = "d\<lparr>dm_store := store_revoke i (dm_store d)\<rparr>"
  obtain l where l: "map_of (leases (dm_store d)) i = Some l" using assms(1) by (auto simp: lease_expiry_def)
  then have run: "serve w sched ctx rd now answered ?wr d = Some (?ok, ?d')"
    by (simp add: serve_lease_requests(1) [OF assms(2-5)] handleRelease_def release_def store_revoke_def)
  have revoked: "lease_expiry (store_revoke i (dm_store d)) j = (if j = i then None else lease_expiry (dm_store d) j)" for j
    using l by (simp add: store_revoke_def release_def lease_expiry_def delete_conv)
  from revoked [of i] have "map_of (leases (store_revoke i (dm_store d))) i = None" by (simp add: lease_expiry_def)
  then have late: "serve w sched' ctx' rd' later answered' \<lparr>wr_Method = MethodPost, wr_Path = PathHeartbeat, wr_Token = cl_token c,
      wr_Body = enc_HeartbeatReq (he_codec he) \<lparr>hb_LeaseID = i\<rparr>\<rparr> ?d' = Some (writeError 404 ErrCodeNotFound ''lease not found'', ?d')"
    for sched' ctx' rd' later answered'
    using assms(2-4) by (subst serve_lease_requests(2) [where d = "?d'", OF _ _ _ assms(6)]) (simp_all add: handleHeartbeat_def heartbeat_def)
  have "fst (post he c (he_dec_OKResp he) PathRelease (enc_ReleaseReq (he_codec he) ?req) s) = Inr \<lparr>resp_OK = True\<rparr>"
    using assms(7) by (simp add: post_delivered [OF assms(8) run] writeJSON_def)
  then have "fst (Release he c i code s) = None" by (auto simp: Release_def client_error_def split: sum.split prod.split)
  with run revoked late show ?thesis by (intro conjI exI [of _ ?d']) simp_all
qed

theorem release_ends_lease_witness:
  "fst (Release wired (sample_client\<lparr>cl_token := ''7''\<rparr>) sample_id 0 empty_sys) = None \<and>
   (\<exists>resp d'. serve sample_world [] Background sample_rand 20 21 \<lparr>wr_Method = MethodPost, wr_Path = PathRelease, wr_Token = ''7'',
      wr_Body = sample_id\<rparr> sample_daemon = Some (resp, d') \<and> lease_expiry (dm_store d') sample_id = None)"
proof -
  let ?c = "sample_client\<lparr>cl_token := ''7''\<rparr>"
  have "lease_expiry (dm_store sample_daemon) sample_id \<noteq> None" by (simp add: sample_daemon_def)
  moreover have "cl_token ?c = dc_Token (dm_cfg sample_daemon)" "dc_Token (dm_cfg sample_daemon) \<noteq> []"
    "strings_TrimSpace (dc_Token (dm_cfg sample_daemon)) = dc_Token (dm_cfg sample_daemon)"
    by (simp_all add: sample_daemon_def sample_dcfg_def)
  moreover have "dec_ReleaseReq (w_codec sample_world) (enc_ReleaseReq (he_codec wired) \<lparr>rel_LeaseID = sample_id, rel_ExitCode = 0\<rparr>) =
      Inr \<lparr>rel_LeaseID = sample_id, rel_ExitCode = 0\<rparr>"
    "dec_HeartbeatReq (w_codec sample_world) (enc_HeartbeatReq (he_codec wired) \<lparr>hb_LeaseID = sample_id\<rparr>) = Inr \<lparr>hb_LeaseID = sample_id\<rparr>"
    "he_dec_OKResp wired (wire_enc (OKBody \<lparr>resp_OK = True\<rparr>)) = Inr \<lparr>resp_OK = True\<rparr>"
    by (simp_all add: sample_world_def sample_codec_def wired_def)
  ultimately have "fst (Release wired ?c sample_id 0 empty_sys) = None \<and>
    (\<exists>d'. serve sample_world [] Background sample_rand 20 21 \<lparr>wr_Method = MethodPost, wr_Path = PathRelease, wr_Token = cl_token ?c,
        wr_Body = enc_ReleaseReq (he_codec wired) \<lparr>rel_LeaseID = sample_id, rel_ExitCode = 0\<rparr>\<rparr> sample_daemon =
        Some (writeJSON 200 (OKBody \<lparr>resp_OK = True\<rparr>), d') \<and> lease_expiry (dm_store d') sample_id = None)"
    using release_ends_lease [OF _ _ _ _ _ _ _ wired_delivers, of sample_id 0] by force
  then show ?thesis by (auto simp: wired_def sample_codec_def)
qed

end
