(* ===== verification/Cleanup.thy ===== *)
theory Cleanup
  imports Runtime_Files
begin

text \<open>
  The removal of the containers that an earlier daemon has left (\<^verbatim>\<open>daemon/cleanup.go\<close>): which of them are
  removed, and the wait until the removal is complete. The Docker client is a parameter.
\<close>

section \<open>The operations\<close>

text \<open>What the code reads of \<^verbatim>\<open>container.Summary\<close>, and the calls it makes of the Docker client.\<close>

record docker_container =
  ctr_ID :: string
  ctr_Names :: "string list"

record 'c docker_env =
  dk_NewClient :: "'c history \<Rightarrow> go_error option"
  dk_ContainerList :: "'c ctx \<Rightarrow> 'c history \<Rightarrow> go_error + docker_container list"
  dk_ContainerRemove :: "'c ctx \<Rightarrow> 'c history \<Rightarrow> string \<Rightarrow> go_error option"
  dk_ContainerInspect :: "'c ctx \<Rightarrow> 'c history \<Rightarrow> string \<Rightarrow> go_error option"
  dk_IsNotFound :: "go_error \<Rightarrow> bool"

definition context_WithTimeout :: "'c os_env \<Rightarrow> 'c ctx \<Rightarrow> go_time \<Rightarrow> 'c ctx" where
  "context_WithTimeout os ctx deadline =
     (\<lambda>h. case ctx h of
            Some e \<Rightarrow> Some e
          | None \<Rightarrow> if deadline \<le> os_now os h then Some (ErrorSentinel ErrDeadlineExceeded) else None)"

definition removal_timeout :: "string \<Rightarrow> go_error" where
  "removal_timeout containerID = ErrorNew (''wait remove container '' @ containerID @ '' timeout'')"

text \<open>One round; the \<^verbatim>\<open>select\<close> blocks for the ticker, at most its period.\<close>

definition removal_round ::
  "'c os_env \<Rightarrow> 'c docker_env \<Rightarrow> 'c ctx \<Rightarrow> string \<Rightarrow> 'c sys \<Rightarrow> (go_error option \<times> 'c sys) + 'c sys" where
  "removal_round os dk waitCtx containerID s =
     (let err = dk_ContainerInspect dk waitCtx (sys_log s) containerID; s1 = emit (InspectReturn containerID err) s in
      case err of
        Some e \<Rightarrow>
          if dk_IsNotFound dk e then Inl (None, s1)
          else if waitCtx (sys_log s1) \<noteq> None then Inl (Some (removal_timeout containerID), s1)
          else Inl (Some e, s1)
      | None \<Rightarrow>
          (let s2 = emit (Blocked (200 * time_Millisecond)) s1 in
           if os_pick os (sys_log s2) = PickCtx \<and> waitCtx (sys_log s2) \<noteq> None
           then Inl (Some (removal_timeout containerID), s2) else Inr s2))"

definition waitContainerRemoved ::
  "'c os_env \<Rightarrow> 'c docker_env \<Rightarrow> 'c ctx \<Rightarrow> string \<Rightarrow> duration \<Rightarrow> 'c sys \<Rightarrow> (go_error option \<times> 'c sys) option" where
  "waitContainerRemoved os dk ctx containerID timeout s =
     (let waitCtx = context_WithTimeout os ctx (time_Add (os_now os (sys_log s)) timeout)
      in go_loop (removal_round os dk waitCtx containerID) s)"

definition name_matched :: "string list \<Rightarrow> docker_container \<Rightarrow> bool" where
  "name_matched targets ctr \<longleftrightarrow> list_ex (\<lambda>rawName. strings_TrimPrefix rawName ''/'' \<in> set targets) (ctr_Names ctr)"

fun remove_containers ::
  "'c os_env \<Rightarrow> 'c docker_env \<Rightarrow> 'c ctx \<Rightarrow> string list \<Rightarrow> docker_container list \<Rightarrow> 'c sys \<Rightarrow>
   (go_error option \<times> 'c sys) option" where
  "remove_containers os dk ctx targets [] s = Some (None, s)"
| "remove_containers os dk ctx targets (ctr # ctrs) s =
     (if \<not> name_matched targets ctr then remove_containers os dk ctx targets ctrs s
      else let err = dk_ContainerRemove dk ctx (sys_log s) (ctr_ID ctr);
               s1 = emit (RemoveReturn (ctr_ID ctr) err) s
           in case err of
                Some e \<Rightarrow> Some (Some e, s1)
              | None \<Rightarrow>
                  (case waitContainerRemoved os dk ctx (ctr_ID ctr) (30 * time_Second) s1 of
                     None \<Rightarrow> None
                   | Some (Some e, s2) \<Rightarrow> Some (Some e, s2)
                   | Some (None, s2) \<Rightarrow> remove_containers os dk ctx targets ctrs s2))"

definition cleanup_targets :: "'c ContainerRegistration list \<Rightarrow> string list" where
  "cleanup_targets regs = filter (\<lambda>name. name \<noteq> []) (map reg_Name regs)"

definition CleanupOrphans ::
  "'c os_env \<Rightarrow> 'c docker_env \<Rightarrow> 'c ctx \<Rightarrow> 'c ContainerRegistration list \<Rightarrow> 'c sys \<Rightarrow> (go_error option \<times> 'c sys) option" where
  "CleanupOrphans os dk ctx regs s =
     (let targets = cleanup_targets regs in
      if targets = [] then Some (None, s)
      else case dk_NewClient dk (sys_log s) of
             Some e \<Rightarrow> Some (Some e, s)
           | None \<Rightarrow>
               (case dk_ContainerList dk ctx (sys_log s) of
                  Inl e \<Rightarrow> Some (Some e, s)
                | Inr containers \<Rightarrow> remove_containers os dk ctx targets containers s))"

section \<open>What it removes\<close>

lemma TrimPrefix_slash:
  "strings_TrimPrefix raw ''/'' = name \<longleftrightarrow> raw = ''/'' @ name \<or> raw = name \<and> \<not> strings_HasPrefix name ''/''"
  by (cases raw) (auto simp: strings_TrimPrefix_def strings_HasPrefix_def starts_with_def)

definition removal_event :: "string set \<Rightarrow> 'c event \<Rightarrow> bool" where
  "removal_event ids ev \<longleftrightarrow>
     (case ev of RemoveReturn i err \<Rightarrow> i \<in> ids | InspectReturn i err \<Rightarrow> i \<in> ids | Blocked d \<Rightarrow> True | _ \<Rightarrow> False)"

lemma removal_event_simps [simp]:
  "removal_event ids (RemoveReturn i err) \<longleftrightarrow> i \<in> ids" "removal_event ids (InspectReturn i err) \<longleftrightarrow> i \<in> ids"
  "removal_event ids (Blocked d)"
  by (simp_all add: removal_event_def)

lemma removal_event_mono: "removal_event ids ev \<Longrightarrow> ids \<subseteq> ids' \<Longrightarrow> removal_event ids' ev"
  by (auto simp: removal_event_def split: event.splits)

lemma removal_round_extends:
  assumes "i \<in> ids"
  shows "removal_round os dk wctx i s = Inl (r, t) \<Longrightarrow> extends (removal_event ids) s t"
    and "removal_round os dk wctx i s = Inr t \<Longrightarrow> extends (removal_event ids) s t"
  using assms
  by (auto simp: removal_round_def Let_def intro!: extends_emit split: option.splits if_splits)

lemma wait_removed_spec:
  assumes "waitContainerRemoved os dk ctx i timeout s = Some (r, s')" "i \<in> ids"
  shows "extends (removal_event ids) s s'"
    and "r = None \<Longrightarrow> \<exists>t e. sys_log s' = InspectReturn i (Some e) # sys_log t \<and> dk_IsNotFound dk e \<and>
           extends (removal_event ids) s t"
proof -
  define wctx where "wctx = context_WithTimeout os ctx (time_Add (os_now os (sys_log s)) timeout)"
  have run: "go_loop (removal_round os dk wctx i) s = Some (r, s')"
    using assms(1) by (simp add: waitContainerRemoved_def wctx_def Let_def)
  have "\<exists>t. extends (removal_event ids) s t \<and> removal_round os dk wctx i t = Inl (r, s')"
    by (rule poll_result [OF run]) (rule removal_round_extends(2) [OF assms(2)])
  then obtain t where t: "extends (removal_event ids) s t" "removal_round os dk wctx i t = Inl (r, s')" by blast
  with removal_round_extends(1) [OF assms(2) t(2)] show "extends (removal_event ids) s s'"
    by (blast intro: extends_trans)
  show "\<exists>t e. sys_log s' = InspectReturn i (Some e) # sys_log t \<and> dk_IsNotFound dk e \<and> extends (removal_event ids) s t"
    if "r = None"
    using t that
    by (intro exI [of _ t]) (auto simp: removal_round_def Let_def split: option.splits if_splits)
qed

text \<open>A container is gone when it was removed and then found missing.\<close>

definition gone :: "'c docker_env \<Rightarrow> string \<Rightarrow> 'c history \<Rightarrow> bool" where
  "gone dk i new \<longleftrightarrow>
     (\<exists>xs ys e. new = xs @ InspectReturn i (Some e) # ys \<and> dk_IsNotFound dk e \<and> RemoveReturn i None \<in> set ys)"

lemma gone_append: "gone dk i new \<Longrightarrow> gone dk i (xs @ new)" "gone dk i new \<Longrightarrow> gone dk i (new @ ys)"
  unfolding gone_def by (metis append.assoc, metis append.assoc append_Cons Un_iff set_append)

lemma remove_containers_spec:
  assumes "remove_containers os dk ctx targets ctrs s = Some (r, s')"
    and "ids = ctr_ID ` {ctr \<in> set ctrs. name_matched targets ctr}"
  shows "\<exists>new. sys_log s' = new @ sys_log s \<and> (\<forall>ev\<in>set new. removal_event ids ev) \<and> (r = None \<longrightarrow> (\<forall>i\<in>ids. gone dk i new))"
  using assms
proof (induction ctrs arbitrary: s ids)
  case Nil
  then show ?case by simp
next
  case (Cons ctr ctrs)
  let ?ids = "ctr_ID ` {c \<in> set ctrs. name_matched targets c}"
  let ?i = "ctr_ID ctr"
  show ?case
  proof (cases "name_matched targets ctr")
    case False
    then have "ids = ?ids" using Cons.prems(2) by auto
    moreover have "remove_containers os dk ctx targets ctrs s = Some (r, s')" using Cons.prems(1) False by simp
    ultimately show ?thesis using Cons.IH by blast
  next
    case True
    then have ids: "ids = insert ?i ?ids" using Cons.prems(2) by auto
    let ?err = "dk_ContainerRemove dk ctx (sys_log s) ?i"
    let ?s1 = "emit (RemoveReturn ?i ?err) s"
    show ?thesis
    proof (cases ?err)
      case (Some e)
      with Cons.prems(1) True have "r = Some e" "s' = emit (RemoveReturn ?i (Some e)) s" by (auto simp: Let_def)
      then show ?thesis using ids by (intro exI [of _ "[RemoveReturn ?i (Some e)]"]) auto
    next
      case None
      with Cons.prems(1) True obtain r2 s2 where w: "waitContainerRemoved os dk ctx ?i (30 * time_Second) ?s1 = Some (r2, s2)"
        by (auto simp: Let_def split: option.splits)
      have "?i \<in> ids" by (simp add: ids)
      note spec = wait_removed_spec [OF w this]
      from spec(1) obtain n1 where n1: "sys_log s2 = n1 @ RemoveReturn ?i None # sys_log s" "\<forall>ev\<in>set n1. removal_event ids ev"
        using None by (auto simp: extends_def)
      show ?thesis
      proof (cases r2)
        case (Some e)
        with Cons.prems(1) True None w have "r = Some e" "s' = s2" by simp_all
        then show ?thesis using n1 ids by (intro exI [of _ "n1 @ [RemoveReturn ?i None]"]) auto
      next
        case r2: None
        from spec(2) [OF r2] obtain t e where t: "sys_log s2 = InspectReturn ?i (Some e) # sys_log t" "dk_IsNotFound dk e"
          "extends (removal_event ids) ?s1 t" by blast
        from t(3) obtain n2 where "sys_log t = n2 @ RemoveReturn ?i None # sys_log s"
          using None by (auto simp: extends_def)
        with t(1) have "n1 @ RemoveReturn ?i None # sys_log s = (InspectReturn ?i (Some e) # n2) @ RemoveReturn ?i None # sys_log s"
          using n1(1) by simp
        then have "n1 = InspectReturn ?i (Some e) # n2" by simp
        with t(2) have g: "gone dk ?i (n1 @ [RemoveReturn ?i None])"
          unfolding gone_def by (intro exI [of _ "[]"] exI [of _ "n2 @ [RemoveReturn ?i None]"]) simp
        from Cons.prems(1) True None w r2 have "remove_containers os dk ctx targets ctrs s2 = Some (r, s')" by simp
        from Cons.IH [OF this refl] obtain n3 where n3: "sys_log s' = n3 @ sys_log s2" "\<forall>ev\<in>set n3. removal_event ?ids ev"
          "r = None \<Longrightarrow> \<forall>i\<in>?ids. gone dk i n3" by blast
        show ?thesis
        proof (intro exI [of _ "n3 @ n1 @ [RemoveReturn ?i None]"] conjI impI ballI)
          show "sys_log s' = (n3 @ n1 @ [RemoveReturn ?i None]) @ sys_log s" using n3(1) n1(1) by simp
          show "removal_event ids ev" if "ev \<in> set (n3 @ n1 @ [RemoveReturn ?i None])" for ev
            using that n3(2) n1(2) removal_event_mono [of ?ids ev ids] by (auto simp: ids)
          show "gone dk i (n3 @ n1 @ [RemoveReturn ?i None])" if "r = None" "i \<in> ids" for i
            using that n3(3) g gone_append unfolding ids by blast
        qed
      qed
    qed
  qed
qed

text \<open>
  C15. Before it serves, the daemon removes the left-over containers of its own registrations and no others:
  every removal is of a container that Docker lists under the name of a registration, with or
  without the slash, and when the operation succeeds each of these has been removed and has afterwards been
  found missing.
\<close>

theorem cleanup_exact:
  assumes "CleanupOrphans os dk ctx regs s = Some (r, s')" "dk_ContainerList dk ctx (sys_log s) = Inr ctrs"
  defines "orphan \<equiv> (\<lambda>ctr. \<exists>reg\<in>set regs. reg_Name reg \<noteq> [] \<and> (\<exists>raw\<in>set (ctr_Names ctr).
      raw = ''/'' @ reg_Name reg \<or> raw = reg_Name reg \<and> \<not> strings_HasPrefix (reg_Name reg) ''/''))"
  shows "\<exists>new. sys_log s' = new @ sys_log s \<and>
    (\<forall>i err. RemoveReturn i err \<in> set new \<longrightarrow> (\<exists>ctr\<in>set ctrs. orphan ctr \<and> i = ctr_ID ctr)) \<and>
    (r = None \<longrightarrow> (\<forall>ctr\<in>set ctrs. orphan ctr \<longrightarrow>
       (\<exists>xs ys e. new = xs @ InspectReturn (ctr_ID ctr) (Some e) # ys \<and> dk_IsNotFound dk e \<and>
          RemoveReturn (ctr_ID ctr) None \<in> set ys)))"
proof -
  let ?targets = "cleanup_targets regs"
  have matched: "name_matched ?targets ctr \<longleftrightarrow> orphan ctr" for ctr
    unfolding name_matched_def list_ex_iff cleanup_targets_def set_filter set_map mem_Collect_eq image_iff orphan_def
      TrimPrefix_slash [symmetric] by (intro iffI; elim bexE conjE) metis+
  show ?thesis
  proof (cases "?targets = [] \<or> dk_NewClient dk (sys_log s) \<noteq> None")
    case True
    then have "sys_log s' = sys_log s \<and> (r \<noteq> None \<or> ?targets = [])"
    proof
      assume "dk_NewClient dk (sys_log s) \<noteq> None"
      then obtain e where "dk_NewClient dk (sys_log s) = Some e" by blast
      with assms(1) have "?targets = [] \<and> s' = s \<or> r = Some e \<and> s' = s"
        by (cases "?targets = []") (simp_all add: CleanupOrphans_def)
      then show ?thesis by blast
    qed (use assms(1) in \<open>simp add: CleanupOrphans_def\<close>)
    moreover have "?targets = [] \<Longrightarrow> \<not> orphan ctr" for ctr
      using matched [of ctr] by (simp add: name_matched_def list_ex_iff)
    ultimately show ?thesis by auto
  next
    case False
    then have "remove_containers os dk ctx ?targets ctrs s = Some (r, s')"
      using assms(1,2) by (auto simp: CleanupOrphans_def Let_def)
    from remove_containers_spec [OF this refl] obtain new where new: "sys_log s' = new @ sys_log s"
      "\<forall>ev\<in>set new. removal_event (ctr_ID ` {ctr \<in> set ctrs. orphan ctr}) ev"
      "r = None \<longrightarrow> (\<forall>i\<in>ctr_ID ` {ctr \<in> set ctrs. orphan ctr}. gone dk i new)"
      unfolding matched by blast
    show ?thesis
    proof (rule exI [of _ new], intro conjI impI allI ballI)
      show "\<exists>ctr\<in>set ctrs. orphan ctr \<and> i = ctr_ID ctr" if "RemoveReturn i err \<in> set new" for i err
        using new(2) that by fastforce
      show "\<exists>xs ys e. new = xs @ InspectReturn (ctr_ID ctr) (Some e) # ys \<and> dk_IsNotFound dk e \<and>
          RemoveReturn (ctr_ID ctr) None \<in> set ys" if "r = None" "ctr \<in> set ctrs" "orphan ctr" for ctr
        using new(3) that by (auto simp: gone_def)
    qed (rule new(1))
  qed
qed

text \<open>A Docker daemon with one left-over container and one of somebody else.\<close>

definition sample_docker :: "nat docker_env" where
  "sample_docker = \<lparr>dk_NewClient = (\<lambda>h. None),
     dk_ContainerList = (\<lambda>ctx h. Inr [\<lparr>ctr_ID = ''c1'', ctr_Names = [''/mysql'']\<rparr>, \<lparr>ctr_ID = ''c2'', ctr_Names = [''/mine'']\<rparr>]),
     dk_ContainerRemove = (\<lambda>ctx h i. None),
     dk_ContainerInspect = (\<lambda>ctx h i. if Blocked (200 * time_Millisecond) \<in> set h then Some (ErrorNew ''no such container'') else None),
     dk_IsNotFound = (\<lambda>e. e = ErrorNew ''no such container'')\<rparr>"

lemma sample_cleanup:
  "CleanupOrphans sample_os sample_docker Background sample_regs empty_sys =
     Some (None, \<lparr>sys_log = [InspectReturn ''c1'' (Some (ErrorNew ''no such container'')), Blocked (200 * time_Millisecond),
        InspectReturn ''c1'' None, RemoveReturn ''c1'' None], sys_jobs = []\<rparr>)"
  by (simp add: CleanupOrphans_def sample_docker_def cleanup_targets_def sample_regs_def sample_reg_def name_matched_def
      strings_TrimPrefix_def starts_with_def waitContainerRemoved_def go_loop.simps removal_round_def Let_def empty_sys_def emit_def)

theorem cleanup_exact_witness:
  "\<exists>s' new. CleanupOrphans sample_os sample_docker Background sample_regs empty_sys = Some (None, s') \<and>
     sys_log s' = new \<and> RemoveReturn ''c1'' None \<in> set new \<and> RemoveReturn ''c2'' None \<notin> set new"
proof -
  obtain s' where run: "CleanupOrphans sample_os sample_docker Background sample_regs empty_sys = Some (None, s')"
    using sample_cleanup by blast
  have lst: "dk_ContainerList sample_docker Background (sys_log empty_sys) =
     Inr [\<lparr>ctr_ID = ''c1'', ctr_Names = [''/mysql'']\<rparr>, \<lparr>ctr_ID = ''c2'', ctr_Names = [''/mine'']\<rparr>]"
    by (simp add: sample_docker_def)
  let ?orphan = "\<lambda>ctr. \<exists>reg\<in>set sample_regs. reg_Name reg \<noteq> [] \<and> (\<exists>raw\<in>set (ctr_Names ctr).
      raw = ''/'' @ reg_Name reg \<or> raw = reg_Name reg \<and> \<not> strings_HasPrefix (reg_Name reg) ''/'')"
  let ?c1 = "\<lparr>ctr_ID = ''c1'', ctr_Names = [''/mysql'']\<rparr>" and ?c2 = "\<lparr>ctr_ID = ''c2'', ctr_Names = [''/mine'']\<rparr>"
  have mysql: "?orphan ?c1" and mine: "\<not> ?orphan ?c2"
    by (simp_all add: sample_regs_def sample_reg_def)
  from cleanup_exact [OF run lst] obtain new where new: "sys_log s' = new @ sys_log empty_sys"
    "\<forall>i err. RemoveReturn i err \<in> set new \<longrightarrow> (\<exists>ctr\<in>set [?c1, ?c2]. ?orphan ctr \<and> i = ctr_ID ctr)"
    "\<forall>ctr\<in>set [?c1, ?c2]. ?orphan ctr \<longrightarrow> (\<exists>xs ys e. new = xs @ InspectReturn (ctr_ID ctr) (Some e) # ys \<and>
       dk_IsNotFound sample_docker e \<and> RemoveReturn (ctr_ID ctr) None \<in> set ys)"
    by (elim exE conjE) blast
  have "\<exists>xs ys e. new = xs @ InspectReturn (ctr_ID ?c1) (Some e) # ys \<and>
       dk_IsNotFound sample_docker e \<and> RemoveReturn (ctr_ID ?c1) None \<in> set ys"
    by (rule bspec [OF new(3), THEN mp, OF _ mysql]) simp
  then have "RemoveReturn ''c1'' None \<in> set new" by auto
  moreover have "RemoveReturn ''c2'' None \<notin> set new"
  proof
    assume "RemoveReturn ''c2'' None \<in> set new"
    with new(2) obtain ctr where "ctr \<in> set [?c1, ?c2]" "?orphan ctr" "''c2'' = ctr_ID ctr" by blast
    with mine show False by (cases "ctr = ?c1") (simp, metis empty_iff insert_iff list.set)
  qed
  ultimately show ?thesis using run new(1) by (auto simp: empty_sys_def)
qed

section \<open>The wait returns\<close>

lemma removal_loop_returns:
  assumes "\<And>ev h. os_now os h \<le> os_now os (ev # h)" "\<And>d h. os_now os h < os_now os (Blocked d # h)"
    and "\<And>h i. wctx h \<noteq> None \<Longrightarrow> dk_ContainerInspect dk wctx h i \<noteq> None"
    and "\<And>h. deadline \<le> os_now os h \<Longrightarrow> wctx h \<noteq> None"
  shows "\<exists>r. go_loop (removal_round os dk wctx i) s = Some r"
proof (rule go_loop_total [of "\<lambda>s. True" _ _ "\<lambda>s. nat (deadline - os_now os (sys_log s))"])
  fix s t
  assume "removal_round os dk wctx i s = Inr t"
  then have ins: "dk_ContainerInspect dk wctx (sys_log s) i = None"
    and t: "t = emit (Blocked (200 * time_Millisecond)) (emit (InspectReturn i None) s)"
    by (auto simp: removal_round_def Let_def split: option.splits if_splits)
  have "os_now os (sys_log s) < deadline" using assms(3,4) ins by (meson not_le)
  moreover have "os_now os (sys_log s) < os_now os (sys_log t)"
    using assms(1,2) by (simp add: t) (meson le_less_trans)
  ultimately show "True \<and> nat (deadline - os_now os (sys_log t)) < nat (deadline - os_now os (sys_log s))" by simp
qed simp

lemma expired_context: "deadline \<le> os_now os h \<Longrightarrow> context_WithTimeout os ctx deadline h \<noteq> None"
  by (simp add: context_WithTimeout_def split: option.split)

text \<open>
  The clean-up ends, even if Docker never gets rid of a container: when each wait for the ticker
  takes some time, and an inspection under an expired context fails, every call returns.
\<close>

theorem cleanup_returns:
  assumes "\<And>ev h. os_now os h \<le> os_now os (ev # h)" "\<And>d h. os_now os h < os_now os (Blocked d # h)"
    and "\<And>wctx h i. wctx h \<noteq> None \<Longrightarrow> dk_ContainerInspect dk wctx h i \<noteq> None"
  shows "\<exists>r s'. CleanupOrphans os dk ctx regs s = Some (r, s')"
proof -
  have wait: "\<exists>r s'. waitContainerRemoved os dk ctx i timeout s = Some (r, s')" for i timeout s
  proof -
    let ?deadline = "time_Add (os_now os (sys_log s)) timeout"
    obtain r where "go_loop (removal_round os dk (context_WithTimeout os ctx ?deadline) i) s = Some r"
      using removal_loop_returns [where deadline = ?deadline and wctx = "context_WithTimeout os ctx ?deadline" and i = i and s = s, OF assms(1,2)]
        assms(3) expired_context by blast
    then show ?thesis by (cases r) (simp add: waitContainerRemoved_def Let_def)
  qed
  have "\<exists>r s'. remove_containers os dk ctx targets ctrs s = Some (r, s')" for targets ctrs s
  proof (induction ctrs arbitrary: s)
    case (Cons ctr ctrs)
    then show ?case
      using wait [of "ctr_ID ctr" "30 * time_Second" "emit (RemoveReturn (ctr_ID ctr) None) s"]
      by (auto simp: Let_def split: option.split)
  qed simp
  then show ?thesis by (auto simp: CleanupOrphans_def Let_def split: option.split sum.split)
qed

text \<open>A Docker daemon that never finishes a removal, with a clock that counts the events.\<close>

definition counting_os :: "nat os_env" where
  "counting_os = sample_os\<lparr>os_now := (\<lambda>h. int (length h))\<rparr>"

definition slow_docker :: "nat docker_env" where
  "slow_docker = sample_docker\<lparr>dk_ContainerInspect := (\<lambda>ctx h i. map_option (\<lambda>e. ErrorNew ''deadline'') (ctx h))\<rparr>"

theorem cleanup_returns_witness:
  "\<exists>r s'. CleanupOrphans counting_os slow_docker Background sample_regs empty_sys = Some (r, s')"
  by (rule cleanup_returns) (auto simp: counting_os_def slow_docker_def)

end
