(* ===== verification/Daemon_Start.thy ===== *)
theory Daemon_Start
  imports Daemon_Guarantees Cleanup
begin

text \<open>
  \<^verbatim>\<open>Daemon.Start\<close> of \<^verbatim>\<open>daemon/server.go\<close> from the log file to its return: clean-up, listening, the runtime
  file, the time the daemon serves, and the removal of the runtime file.
\<close>

section \<open>The operation\<close>

text \<open>
  What \<open>Start\<close> meets of the outside besides the operating system and Docker: the listener, which reports
  the address it has got, the file system under the runtime file and the JSON encoder, and the process
  identifier. Closing the listener is only an event, as the code ignores its error.
\<close>

record 'c start_env =
  se_Listen :: "'c history \<Rightarrow> string \<Rightarrow> go_error + string"
  se_enc_RuntimeInfo :: "RuntimeInfo \<Rightarrow> go_error + string"
  se_io :: "'c history \<Rightarrow> io_faults"
  se_disk :: "'c history \<Rightarrow> disk"
  se_pid :: int

definition listen :: "'c start_env \<Rightarrow> string \<Rightarrow> 'c sys \<Rightarrow> (go_error + string) \<times> 'c sys" where
  "listen se addr s =
     (let ln = se_Listen se (sys_log s) addr
      in (ln, emit (Listened addr (case ln of Inl e \<Rightarrow> Some e | Inr a \<Rightarrow> None)) s))"

definition runtime_info :: "'c start_env \<Rightarrow> string \<Rightarrow> 'c Daemon \<Rightarrow> RuntimeInfo" where
  "runtime_info se addr d =
     \<lparr>info_Addr = addr, info_Token = dc_Token (dm_cfg d), info_PID = se_pid se, info_StartedAt = dm_startedAt d\<rparr>"

definition write_runtime :: "'c os_env \<Rightarrow> 'c start_env \<Rightarrow> string \<Rightarrow> RuntimeInfo \<Rightarrow> 'c sys \<Rightarrow> go_error option \<times> 'c sys" where
  "write_runtime os se path info s =
     (let err = fst (Write (os_TempDir os) (se_enc_RuntimeInfo se) (se_io se (sys_log s)) path info (se_disk se (sys_log s)))
      in (err, emit (RuntimeWritten path err) s))"

text \<open>
  From the clean-up to the moment the goroutines are started: \<open>Inl\<close> when \<open>Start\<close> returns an error there.
\<close>

definition prepare_serving ::
  "'c world \<Rightarrow> 'c docker_env \<Rightarrow> 'c start_env \<Rightarrow> 'c ctx \<Rightarrow> 'c Daemon \<Rightarrow> (go_error \<times> 'c Daemon + 'c Daemon) option" where
  "prepare_serving w dk se ctx d =
     (case CleanupOrphans (w_os w) dk ctx (dm_regs d) (dm_sys d) of
        None \<Rightarrow> None
      | Some (Some e, s1) \<Rightarrow> Some (Inl (e, d\<lparr>dm_sys := s1\<rparr>))
      | Some (None, s1) \<Rightarrow>
          (case listen se (dc_Addr (dm_cfg d)) s1 of
             (Inl e, s2) \<Rightarrow> Some (Inl (e, d\<lparr>dm_sys := s2\<rparr>))
           | (Inr addr, s2) \<Rightarrow>
               (let d2 = d\<lparr>dm_serving := True, dm_sys := s2\<rparr> in
                case write_runtime (w_os w) se (dm_runtimePath d2) (runtime_info se addr d2) s2 of
                  (Some e, s3) \<Rightarrow> Some (Inl (e, d2\<lparr>dm_sys := emit (ListenerClosed addr) s3\<rparr>))
                | (None, s3) \<Rightarrow> Some (Inr (d2\<lparr>dm_sys := s3\<rparr>)))))"

text \<open>
  The whole operation. \<open>inputs\<close> is what the daemon receives while it serves: requests, the ticks of the
  reaper that is started here, and the cancellation of the context, which is the input \<open>Interrupt\<close>.
  \<^verbatim>\<open>Serve\<close> returns \<^verbatim>\<open>ErrServerClosed\<close> when the shutdown calls \<^verbatim>\<open>Shutdown\<close>, and \<open>serveErr\<close>, an error of the listener,
  when there was no shutdown. Then the deferred calls run: removal of the runtime file, closing of the log.

  \<^verbatim>\<open>Serve\<close> does not wait for \<^verbatim>\<open>Shutdown\<close> to return. So the last thing of \<^verbatim>\<open>shutdownServer\<close>, its own removal of the runtime
  file, races with the deferred calls: \<open>late\<close> says that it has not come when \<open>Start\<close> returns. It may come after that,
  or never, when the process ends first. The result is the state when \<open>Start\<close> returns.
\<close>

definition without_removal :: "string \<Rightarrow> 'c history \<Rightarrow> 'c history" where
  "without_removal path h = remove1 (RuntimeRemoved path) h"

definition daemon_Start ::
  "'c world \<Rightarrow> 'c docker_env \<Rightarrow> 'c start_env \<Rightarrow> 'c ctx \<Rightarrow> 'c input list \<Rightarrow> go_error \<Rightarrow> bool \<Rightarrow> 'c Daemon \<Rightarrow>
   (go_error option \<times> 'c Daemon) option" where
  "daemon_Start w dk se ctx inputs serveErr late d =
     (case OpenDaemonLogFile (w_os w) (dm_runtimePath d) (dm_sys d) of
        (Inl e, s1) \<Rightarrow> Some (Some e, d\<lparr>dm_sys := s1\<rparr>)
      | (Inr logFile, s1) \<Rightarrow>
          (case prepare_serving w dk se ctx (d\<lparr>dm_sys := s1\<rparr>) of
             None \<Rightarrow> None
           | Some (Inl (e, d1)) \<Rightarrow> Some (Some e, d1\<lparr>dm_sys := emit (LogClosed logFile) (dm_sys d1)\<rparr>)
           | Some (Inr d1) \<Rightarrow>
               (case run_steps (serial_step w) inputs (serving d1) of
                  None \<Rightarrow> None
                | Some sv \<Rightarrow>
                    (let d2 = sv_daemon sv;
                         path = dm_runtimePath d2;
                         h = (if dm_done d2 \<and> late then without_removal path (sys_log (dm_sys d2)) else sys_log (dm_sys d2))
                     in Some (if dm_done d2 then None else Some serveErr,
                          d2\<lparr>dm_sys := emit (LogClosed logFile) (emit (RuntimeRemoved path) ((dm_sys d2)\<lparr>sys_log := h\<rparr>))\<rparr>)))))"

text \<open>With that removal left out, the history of a shutdown ends where it called \<^verbatim>\<open>Shutdown\<close> of the server.\<close>

lemma shutdown_log:
  assumes "\<not> dm_done d" "dm_serving d"
  obtains h where "sys_log (dm_sys (shutdownServer g os trm ctx d)) =
    RuntimeRemoved (dm_runtimePath d) # ServerShutdown # h @ sys_log (dm_sys d)"
proof -
  define d2 where "d2 = snd (stopSUTOnly g os ctx (d\<lparr>dm_done := True\<rparr>))"
  define d3 where "d3 = snd (stopContainersOnly trm d2)"
  have "later (d\<lparr>dm_done := True\<rparr>) d3"
    unfolding d3_def d2_def by (rule later_trans [OF stopSUT_later stopContainers_later])
  then obtain h where "sys_log (dm_sys d3) = h @ sys_log (dm_sys d)" by (auto simp: later_def grows_def suffix_def)
  moreover have "dm_serving d3 = dm_serving d" "dm_runtimePath d3 = dm_runtimePath d"
    by (simp_all add: d3_def d2_def stopSUTOnly_def stopContainersOnly_def Let_def split: prod.split option.split)
  ultimately show thesis
    using assms by (intro that [of h]) (simp add: shutdownServer_def Let_def d2_def [symmetric] d3_def [symmetric])
qed

lemma shutdown_without_removal:
  assumes "\<not> dm_done d" "dm_serving d"
  obtains h where "sys_log (dm_sys (shutdownServer g os trm ctx d)) = RuntimeRemoved (dm_runtimePath d) # ServerShutdown # h"
    "without_removal (dm_runtimePath d) (sys_log (dm_sys (shutdownServer g os trm ctx d))) = ServerShutdown # h"
proof -
  obtain h where "sys_log (dm_sys (shutdownServer g os trm ctx d)) = RuntimeRemoved (dm_runtimePath d) # ServerShutdown # h @ sys_log (dm_sys d)"
    using assms by (rule shutdown_log)
  then show thesis by (intro that [of "h @ sys_log (dm_sys d)"]) (simp_all add: without_removal_def)
qed

lemma without_removal_simps [simp]:
  "unsettled_pids (without_removal p h) = unsettled_pids h" "ContextCancelled \<in> set (without_removal p h) \<longleftrightarrow> ContextCancelled \<in> set h"
  unfolding without_removal_def
proof -
  show "unsettled_pids (remove1 (RuntimeRemoved p) h) = unsettled_pids h"
    by (induction h rule: unsettled_pids.induct) auto
  show "ContextCancelled \<in> set (remove1 (RuntimeRemoved p) h) \<longleftrightarrow> ContextCancelled \<in> set h" by (rule in_set_remove1) simp
qed

section \<open>What preparing to serve does\<close>

text \<open>
  The events before the daemon serves touch neither a managed container nor a process, and no runtime file
  appears.
\<close>

definition preparing :: "'c event \<Rightarrow> bool" where
  "preparing ev \<longleftrightarrow>
     (case ev of LogOpened f e \<Rightarrow> True | LogClosed f \<Rightarrow> True | RemoveReturn i e \<Rightarrow> True | InspectReturn i e \<Rightarrow> True
      | Blocked t \<Rightarrow> True | Listened a e \<Rightarrow> True | ListenerClosed a \<Rightarrow> True | RuntimeWritten p e \<Rightarrow> e \<noteq> None | _ \<Rightarrow> False)"

lemma preparing_simps [simp]:
  "preparing (LogOpened f e)" "preparing (LogClosed f)" "preparing (Listened a e)" "preparing (ListenerClosed a)"
  "preparing (RuntimeWritten p e) \<longleftrightarrow> e \<noteq> None" "removal_event ids ev \<Longrightarrow> preparing ev"
  by (auto simp: preparing_def removal_event_def split: event.splits)

lemma preparing_keeps: "preparing ev \<Longrightarrow> unsettled_pids (ev # h) = unsettled_pids h \<and> terminated (ev # h) = terminated h"
  by (cases ev) (simp_all add: preparing_def)

lemma extends_preparing:
  assumes "extends preparing s s'"
  shows "unsettled_pids (sys_log s') = unsettled_pids (sys_log s)" "terminated (sys_log s') = terminated (sys_log s)"
proof -
  from assms obtain new where "sys_log s' = new @ sys_log s" "\<forall>e\<in>set new. preparing e" by (auto simp: extends_def)
  moreover have "\<forall>e\<in>set new. preparing e \<Longrightarrow>
      unsettled_pids (new @ h) = unsettled_pids h \<and> terminated (new @ h) = terminated h" for h
    by (induction new) (use preparing_keeps in \<open>auto simp del: terminated_append\<close>)
  ultimately show "unsettled_pids (sys_log s') = unsettled_pids (sys_log s)" "terminated (sys_log s') = terminated (sys_log s)"
    by (simp_all del: terminated_append)
qed

lemma cleanup_extends:
  assumes "CleanupOrphans os dk ctx regs s = Some (r, s')"
  shows "extends preparing s s'"
proof -
  let ?targets = "cleanup_targets regs"
  consider "s' = s" | ctrs where "remove_containers os dk ctx ?targets ctrs s = Some (r, s')"
    using assms by (auto simp: CleanupOrphans_def Let_def split: if_splits option.splits sum.splits)
  then show ?thesis
  proof cases
    case 2
    from remove_containers_spec [OF this refl] show ?thesis
      unfolding extends_def by (meson preparing_simps(6))
  qed simp
qed

lemma openLogFile_extends: "OpenDaemonLogFile os path s = (r, s') \<Longrightarrow> extends preparing s s'"
  by (auto simp: OpenDaemonLogFile_def openLogFile_def Let_def intro!: extends_emit split: option.splits)

text \<open>
  The daemon goes on to serve only after it has got an address, and its runtime file is written with the
  address and the token.
\<close>

lemma prepare_serving_ready:
  assumes "prepare_serving w dk se ctx d = Some (Inr d1)"
  obtains s1 addr where "CleanupOrphans (w_os w) dk ctx (dm_regs d) (dm_sys d) = Some (None, s1)"
    "se_Listen se (sys_log s1) (dc_Addr (dm_cfg d)) = Inr addr"
    "d1 = d\<lparr>dm_serving := True,
       dm_sys := emit (RuntimeWritten (dm_runtimePath d) None) (emit (Listened (dc_Addr (dm_cfg d)) None) s1)\<rparr>"
    "let h = Listened (dc_Addr (dm_cfg d)) None # sys_log s1
     in fst (Write (os_TempDir (w_os w)) (se_enc_RuntimeInfo se) (se_io se h) (dm_runtimePath d)
       (runtime_info se addr d) (se_disk se h)) = None"
proof -
  from assms obtain s1 where c: "CleanupOrphans (w_os w) dk ctx (dm_regs d) (dm_sys d) = Some (None, s1)"
    by (auto simp: prepare_serving_def split: option.splits)
  with assms obtain addr where l: "se_Listen se (sys_log s1) (dc_Addr (dm_cfg d)) = Inr addr"
    by (auto simp: prepare_serving_def listen_def Let_def split: sum.splits)
  with assms c show thesis
    by (intro that [OF c l])
      (auto simp: prepare_serving_def listen_def write_runtime_def runtime_info_def Let_def split: option.splits)
qed

lemma prepare_serving_failed:
  assumes "prepare_serving w dk se ctx d = Some (Inl (e, d1))"
  shows "extends preparing (dm_sys d) (dm_sys d1)"
  using assms
  by (auto simp: prepare_serving_def listen_def write_runtime_def Let_def intro!: extends_emit dest!: cleanup_extends
      split: option.splits sum.splits prod.splits)

section \<open>From the start to the exit\<close>

lemma shutdown_path:
  "dm_runtimePath (shutdownServer g os trm ctx d) = dm_runtimePath d \<and> dm_serving (shutdownServer g os trm ctx d) = dm_serving d"
  by (simp add: shutdownServer_def stopSUTOnly_def stopContainersOnly_def Let_def split: prod.split option.split)

text \<open>What a run keeps: the state is consistent, and once the shutdown is done the file is removed and no process is left.\<close>

definition shut_since :: "'c Daemon \<Rightarrow> 'c Daemon \<Rightarrow> bool" where
  "shut_since d0 d \<longleftrightarrow>
     (\<exists>new. sys_log (dm_sys d) = new @ sys_log (dm_sys d0) \<and>
        (dm_done d \<longrightarrow> RuntimeRemoved (dm_runtimePath d0) \<in> set new \<and> ServerShutdown \<in> set new))"

definition serving_ok :: "'c Daemon \<Rightarrow> 'c server \<Rightarrow> bool" where
  "serving_ok d0 sv \<longleftrightarrow>
     daemon_ok (sv_daemon sv) \<and> sm_boot (dm_sut (sv_daemon sv)) = sm_boot (dm_sut d0) \<and>
     dm_runtimePath (sv_daemon sv) = dm_runtimePath d0 \<and> dm_serving (sv_daemon sv) \<and> shut_since d0 (sv_daemon sv) \<and>
     (dm_done (sv_daemon sv) \<and> isEnabled (dm_sut d0) \<longrightarrow> unsettled_pids (sys_log (dm_sys (sv_daemon sv))) = {})"

lemma shut_since_later:
  assumes "shut_since d0 d" "later d d'" "dm_done d' = dm_done d"
  shows "shut_since d0 d'"
proof -
  from assms(1) obtain new where new: "sys_log (dm_sys d) = new @ sys_log (dm_sys d0)"
    "dm_done d \<longrightarrow> RuntimeRemoved (dm_runtimePath d0) \<in> set new \<and> ServerShutdown \<in> set new" by (auto simp: shut_since_def)
  moreover from assms(2) obtain more where "sys_log (dm_sys d') = more @ sys_log (dm_sys d)"
    by (auto simp: later_def grows_def suffix_def)
  ultimately show ?thesis unfolding shut_since_def using assms(3) by (intro exI [of _ "more @ new"]) simp
qed

lemma shut_since_shutdown:
  assumes "shut_since d0 d" "\<not> dm_done d" "dm_serving d" "dm_runtimePath d = dm_runtimePath d0"
  shows "shut_since d0 (shutdownServer g os trm ctx d)"
proof -
  obtain h where h: "sys_log (dm_sys (shutdownServer g os trm ctx d)) = RuntimeRemoved (dm_runtimePath d) # ServerShutdown # h @ sys_log (dm_sys d)"
    using assms(2,3) by (rule shutdown_log)
  from assms(1) obtain new where "sys_log (dm_sys d) = new @ sys_log (dm_sys d0)" by (auto simp: shut_since_def)
  with h assms(4) show ?thesis
    unfolding shut_since_def by (intro exI [of _ "RuntimeRemoved (dm_runtimePath d) # ServerShutdown # h @ new"]) simp
qed

lemma shutdown_serving_ok:
  assumes "daemon_ok d" "\<not> dm_done d" "sm_boot (dm_sut d) = sm_boot (dm_sut d0)" "dm_runtimePath d = dm_runtimePath d0"
    and "dm_serving d" "shut_since d0 d"
  shows "serving_ok d0 \<lparr>sv_reaping = b, sv_reaper = r, sv_daemon = shutdownServer g os trm ctx d\<rparr>"
proof -
  let ?d' = "shutdownServer g os trm ctx d"
  note spec = shutdown_spec [OF assms(1,2) refl, of g os trm ctx]
  from spec obtain cont mid where
    log: "sys_log (dm_sys ?d') = RuntimeRemoved (dm_runtimePath d) # (if dm_serving d then [ServerShutdown] else []) @ cont @ mid"
      "isEnabled (dm_sut d) \<longrightarrow> unsettled_pids mid = {}" "only_terminates cont" by blast
  then have "isEnabled (dm_sut d) \<longrightarrow> unsettled_pids (sys_log (dm_sys ?d')) = {}"
    using only_terminates_live [OF log(3)] by simp
  moreover have "isEnabled (dm_sut d) = isEnabled (dm_sut d0)" using assms(3) by (simp add: isEnabled_def)
  moreover have "dm_runtimePath ?d' = dm_runtimePath d \<and> dm_serving ?d' = dm_serving d" by (rule shutdown_path)
  moreover have "shut_since d0 ?d'" using assms(6,2,5,4) by (rule shut_since_shutdown)
  ultimately show ?thesis using spec assms(3-5) by (simp add: serving_ok_def)
qed

lemma frame_serving_ok:
  assumes "serving_ok d0 sv" "\<not> dm_done (sv_daemon sv)" "same_frame (sv_daemon sv) d'" "daemon_ok d'" "later (sv_daemon sv) d'"
  shows "serving_ok d0 \<lparr>sv_reaping = b, sv_reaper = r, sv_daemon = d'\<rparr>"
  using assms shut_since_later [of d0 "sv_daemon sv" d'] by (simp add: serving_ok_def same_frame_def)

lemma tick_serving_ok:
  assumes "serving_ok d0 sv" "\<not> dm_done (sv_daemon sv)"
    and "reaper_tick g os trm now (sv_reaper sv) (sv_daemon sv) = (go, r', d')"
  shows "serving_ok d0 \<lparr>sv_reaping = go, sv_reaper = r', sv_daemon = d'\<rparr>"
proof (cases "0 < activeCount now (gc now (dm_store (sv_daemon sv))) \<or> 0 < dm_acquireInFlight (sv_daemon sv)")
  case True
  let ?d = "sv_daemon sv"
  from tick_busy [OF True] assms(3) have d': "d' = ?d\<lparr>dm_store := gc now (dm_store ?d)\<rparr>" by auto
  have "daemon_ok ?d" using assms(1) by (simp add: serving_ok_def)
  then have "daemon_ok d'" by (simp add: daemon_ok_def d')
  then show ?thesis using frame_serving_ok [OF assms(1,2), of d'] tick_later [OF assms(3)] by (simp add: same_frame_def d')
next
  case False
  let ?d = "sv_daemon sv" and ?r = "sv_reaper sv"
  from False have idle: "\<not> 0 < activeCount now (gc now (dm_store ?d))" "\<not> 0 < dm_acquireInFlight ?d" by blast+
  have ok: "daemon_ok ?d" using assms(1) by (simp add: serving_ok_def)
  show ?thesis
  proof (rule tick_idle [OF idle ok assms(3)])
    fix d1
    assume frame: "same_frame (?d\<lparr>dm_store := gc now (dm_store ?d)\<rparr>) d1" and ok1: "daemon_ok d1"
      and still: "rp_idleSince ?r = 0 \<Longrightarrow> go \<and> rp_idleSince r' = now \<and> d' = d1"
        "rp_idleSince ?r \<noteq> 0 \<Longrightarrow> time_Sub now (rp_idleSince ?r) < dc_IdleTTL (dm_cfg ?d) \<Longrightarrow>
           go \<and> rp_idleSince r' = rp_idleSince ?r \<and> d' = d1"
      and grown: "grows (dm_sys ?d) (dm_sys d1)"
      and down: "rp_idleSince ?r \<noteq> 0 \<Longrightarrow> dc_IdleTTL (dm_cfg ?d) \<le> time_Sub now (rp_idleSince ?r) \<Longrightarrow>
           \<not> go \<and> d' = shutdownServer g os trm Background d1"
    have frame': "same_frame ?d d1" using frame by (simp add: same_frame_def)
    then have facts: "\<not> dm_done d1" "sm_boot (dm_sut d1) = sm_boot (dm_sut d0)" "dm_runtimePath d1 = dm_runtimePath d0" "dm_serving d1"
      using assms(1,2) by (simp_all add: same_frame_def serving_ok_def)
    have since: "shut_since d0 (sv_daemon sv)" using assms(1) by (simp add: serving_ok_def)
    have same: "dm_done d1 = dm_done ?d" using frame' by (simp add: same_frame_def)
    consider "d' = d1" | "d' = shutdownServer g os trm Background d1" using still down by (meson not_le)
    then show ?thesis
    proof cases
      case 1
      with frame_serving_ok [OF assms(1,2) frame' ok1] tick_later [OF assms(3)] show ?thesis by simp
    next
      case 2
      have "shut_since d0 d1" using since _ same by (rule shut_since_later) (simp add: later_def grown)
      with 2 show ?thesis by (simp add: shutdown_serving_ok [OF ok1 facts])
    qed
  qed
qed

text \<open>A tick that the loop takes after the shutdown finds the service stopped and the shutdown done.\<close>

lemma tick_settled:
  assumes "serving_ok d0 sv" "dm_done (sv_daemon sv)"
    and "reaper_tick g os trm now (sv_reaper sv) (sv_daemon sv) = (go, r', d')"
  shows "serving_ok d0 \<lparr>sv_reaping = go, sv_reaper = r', sv_daemon = d'\<rparr>"
proof -
  let ?d = "sv_daemon sv"
  let ?d1 = "?d\<lparr>dm_store := gc now (dm_store ?d)\<rparr>"
  obtain x d2 where stop: "stopSUTOnly g os Background ?d1 = (x, d2)" by fastforce
  have ok: "daemon_ok ?d" using assms(1) by (simp add: serving_ok_def)
  then have ok1: "daemon_ok ?d1" by (simp add: daemon_ok_def)
  note spec = stopSUT_spec [OF stop ok1]
  have d2: "dm_done d2" using assms(2) spec by (simp add: same_frame_def)
  have cases: "d' = ?d1 \<or> d' = d2"
    using assms(2,3) stop d2 by (auto simp: reaper_tick_def Let_def split: if_splits)
  then have frame: "same_frame ?d d'" using spec by (auto simp: same_frame_def)
  have boot: "isEnabled (dm_sut ?d) = isEnabled (dm_sut d0)" using assms(1) by (simp add: serving_ok_def isEnabled_def)
  have "isEnabled (dm_sut d0) \<longrightarrow> unsettled_pids (sys_log (dm_sys ?d)) = {}" using assms(1,2) by (simp add: serving_ok_def)
  then have "isEnabled (dm_sut d0) \<longrightarrow> unsettled_pids (sys_log (dm_sys d')) = {}"
    using cases spec boot by auto
  moreover have "daemon_ok d'" using ok assms(3) by (rule tick_ok)
  moreover have "shut_since d0 d'"
    by (rule shut_since_later [OF _ tick_later [OF assms(3)]])
      (use assms(1) frame in \<open>simp_all add: serving_ok_def same_frame_def\<close>)
  ultimately show ?thesis using assms(1) frame by (simp add: serving_ok_def same_frame_def)
qed

lemma serial_step_serving_ok:
  assumes "serial_step w a sv = Some sv'" "serving_ok d0 sv"
    and "input_quiet a" "ContextCancelled \<notin> set (sys_log (dm_sys (sv_daemon sv')))"
  shows "serving_ok d0 sv'"
proof (cases "dm_done (sv_daemon sv)")
  case True
  show ?thesis
  proof (cases a)
    case (Tick now)
    show ?thesis
    proof (cases "sv_reaping sv")
      case reaping: True
      obtain go r d' where t: "reaper_tick (w_goos w) (w_os w) (w_trm w) now (sv_reaper sv) (sv_daemon sv) = (go, r, d')"
        by (rule prod_cases3)
      with tick_settled [OF assms(2) True t] assms(1) Tick reaping show ?thesis by simp
    qed (use assms(1,2) Tick in simp)
  qed (use assms(1,2) True in \<open>auto simp: serving_ok_def\<close>)
next
  case False
  show ?thesis
  proof (cases a)
    case (Request wr sched ctx rd now answered)
    with assms(1) False obtain resp d' where d': "serve w sched ctx rd now answered wr (sv_daemon sv) = Some (resp, d')"
      "sv' = sv\<lparr>sv_daemon := d'\<rparr>" by (auto split: option.splits)
    have "daemon_ok (sv_daemon sv)" using assms(2) by (simp add: serving_ok_def)
    from serve_spec [OF d'(1) this] have "same_frame (sv_daemon sv) d'" "daemon_ok d'"
      using assms(3,4) d'(2) Request by (simp_all add: served_def input_quiet_def Background_def)
    from frame_serving_ok [OF assms(2) False this serve_later [OF d'(1)]] show ?thesis by (cases sv) (simp add: d'(2))
  next
    case (Tick now)
    with assms(1,2) False show ?thesis by (auto split: if_splits prod.splits dest: tick_serving_ok)
  next
    case DoneReceived
    with assms(1,2) show ?thesis by (auto simp: serving_ok_def)
  next
    case Interrupt
    have "serving_ok d0 \<lparr>sv_reaping = sv_reaping sv, sv_reaper = sv_reaper sv,
        sv_daemon = shutdownServer (w_goos w) (w_os w) (w_trm w) Background (sv_daemon sv)\<rparr>"
      by (rule shutdown_serving_ok) (use assms(2) False in \<open>simp_all add: serving_ok_def\<close>)
    with assms(1) Interrupt show ?thesis by (cases sv) auto
  qed
qed

lemma run_serving_ok:
  assumes "run_steps (serial_step w) inputs sv = Some sv'" "serving_ok d0 sv" "list_all input_quiet inputs"
    and "ContextCancelled \<notin> set (sys_log (dm_sys (sv_daemon sv')))"
  shows "serving_ok d0 sv'"
  using assms
proof (induction inputs arbitrary: sv)
  case (Cons a inputs)
  then obtain t where t: "serial_step w a sv = Some t" "run_steps (serial_step w) inputs t = Some sv'"
    by (auto split: option.splits)
  have "set (sys_log (dm_sys (sv_daemon t))) \<subseteq> set (sys_log (dm_sys (sv_daemon sv')))"
    using run_later [OF t(2)] by (auto simp: later_def grows_def suffix_def)
  then have "ContextCancelled \<notin> set (sys_log (dm_sys (sv_daemon t)))" using Cons.prems(4) by blast
  moreover have "input_quiet a" "list_all input_quiet inputs" using Cons.prems(3) by simp_all
  ultimately show ?case using Cons.IH [OF t(2)] serial_step_serving_ok [OF t(1) Cons.prems(2)] Cons.prems(4) by blast
qed simp


text \<open>
  When the listener fails while the daemon serves, \<open>Start\<close> returns the error and stops nothing: the bundle is
  as it was, no container is terminated, and the processes that were alive stay alive.
\<close>

theorem serve_error_stops_nothing:
  assumes "OpenDaemonLogFile (w_os w) (dm_runtimePath d) (dm_sys d) = (Inr f, s1)"
    and "prepare_serving w dk se ctx (d\<lparr>dm_sys := s1\<rparr>) = Some (Inr d1)"
    and "run_steps (serial_step w) inputs (serving d1) = Some sv" "\<not> dm_done (sv_daemon sv)"
  shows "\<exists>d'. daemon_Start w dk se ctx inputs serveErr late d = Some (Some serveErr, d') \<and>
    dm_bundle d' = dm_bundle (sv_daemon sv) \<and>
    terminated (sys_log (dm_sys d')) = terminated (sys_log (dm_sys (sv_daemon sv))) \<and>
    live_pids (sys_log (dm_sys d')) = live_pids (sys_log (dm_sys (sv_daemon sv)))"
  using assms by (simp add: daemon_Start_def Let_def)

definition sample_start :: "nat start_env" where
  "sample_start = \<lparr>se_Listen = (\<lambda>h a. Inr ''127.0.0.1:80''), se_enc_RuntimeInfo = line_enc, se_io = (\<lambda>h. no_faults),
     se_disk = (\<lambda>h. Map.empty), se_pid = 7\<rparr>"

definition no_orphans :: "nat docker_env" where
  "no_orphans = sample_docker\<lparr>dk_ContainerList := (\<lambda>ctx h. Inr [])\<rparr>"

definition fresh_daemon :: "nat Daemon" where
  "fresh_daemon = \<lparr>dm_cfg = sample_dcfg, dm_regs = sample_regs, dm_bundle = sample_bundle, dm_store = newLeaseStore, dm_startedAt = 1,
     dm_runtimePath = ''/tmp/tcd/shop/runtime.json'', dm_sut = newSUTManager (Some sample_plan), dm_infraStarted = False,
     dm_done = False, dm_serving = False, dm_acquireInFlight = 0, dm_sys = empty_sys\<rparr>"

lemma NewBundle_sample: "NewBundle sample_regs = Inr sample_bundle"
  by (simp add: NewBundle_def sample_regs_def sample_reg_def sample_bundle_def TrimSpace_id space_byte_def space_runes_def Let_def)

lemma sample_project [simp]: "strings_TrimSpace ''shop'' = ''shop''"
  by (rule TrimSpace_id) (simp_all add: space_byte_def space_runes_def)

lemma daemon_New_fresh: "daemon_New ''/tmp'' 7 1 sample_dcfg sample_regs empty_sys = Inr fresh_daemon"
  by (simp add: daemon_New_def with_defaults_def sample_dcfg_def NewBundle_sample fresh_daemon_def)

lemma write_sample:
  "fst (Write tmp line_enc no_faults ''/tmp/tcd/shop/runtime.json'' info Map.empty) = None"
  by (simp add: Write_def no_faults_def line_enc_def Let_def)

definition ready_daemon :: "string \<Rightarrow> nat Daemon" where
  "ready_daemon f = fresh_daemon\<lparr>dm_serving := True, dm_sys := \<lparr>sys_log = [RuntimeWritten ''/tmp/tcd/shop/runtime.json'' None,
     Listened ''127.0.0.1:0'' None, LogOpened f None], sys_jobs = []\<rparr>\<rparr>"

lemma sample_prepare:
  "prepare_serving sample_world no_orphans sample_start Background
     (fresh_daemon\<lparr>dm_sys := \<lparr>sys_log = [LogOpened f None], sys_jobs = []\<rparr>\<rparr>) = Some (Inr (ready_daemon f))"
proof -
  have "CleanupOrphans sample_os no_orphans Background sample_regs s = Some (None, s)" for s
    by (simp add: CleanupOrphans_def no_orphans_def sample_docker_def Let_def)
  then show ?thesis
    by (simp add: prepare_serving_def listen_def write_runtime_def sample_start_def write_sample sample_world_def
        ready_daemon_def fresh_daemon_def sample_dcfg_def emit_def)
qed

lemma sample_stop:
  "sut_stop Unix sample_os Background (newSUTManager (Some sample_plan)) s = (None, newSUTManager (Some sample_plan), s)"
  by (simp add: sut_stop_def stop_locked_def isRunningLocked_def newSUTManager_def isEnabled_def sample_plan_def process_of_def)

lemma ready_daemon_simps [simp]:
  "dm_done (ready_daemon f) = False" "dm_sut (ready_daemon f) = newSUTManager (Some sample_plan)"
  "dm_infraStarted (ready_daemon f) = False" "dm_serving (ready_daemon f) = True"
  "dm_runtimePath (ready_daemon f) = ''/tmp/tcd/shop/runtime.json''"
  by (simp_all add: ready_daemon_def fresh_daemon_def)

lemma sample_shutdown:
  "shutdownServer Unix sample_os trm Background (ready_daemon f) =
     (ready_daemon f)\<lparr>dm_done := True,
       dm_sys := emit (RuntimeRemoved ''/tmp/tcd/shop/runtime.json'') (emit ServerShutdown (dm_sys (ready_daemon f)))\<rparr>"
  by (simp add: shutdownServer_def stopSUTOnly_def stopContainersOnly_def sample_stop)

lemma sample_serving:
  "\<exists>f d'. daemon_Start sample_world no_orphans sample_start Background [Interrupt] (ErrorNew ''accept'') True fresh_daemon = Some (None, d') \<and>
     sys_log (dm_sys d') = [LogClosed f, RuntimeRemoved ''/tmp/tcd/shop/runtime.json'', ServerShutdown, RuntimeWritten ''/tmp/tcd/shop/runtime.json'' None, Listened ''127.0.0.1:0'' None, LogOpened f None]"
proof -
  let ?f = "DaemonLogPath ''/tmp'' ''/tmp/tcd/shop/runtime.json''"
  have opn: "OpenDaemonLogFile (w_os sample_world) (dm_runtimePath fresh_daemon) (dm_sys fresh_daemon) =
      (Inr ?f, \<lparr>sys_log = [LogOpened ?f None], sys_jobs = []\<rparr>)"
    by (simp add: OpenDaemonLogFile_def openLogFile_def sample_world_def fresh_daemon_def empty_sys_def emit_def Let_def)
  have w: "w_goos sample_world = Unix" "w_os sample_world = sample_os" by (simp_all add: sample_world_def)
  show ?thesis
    by (simp add: daemon_Start_def opn [unfolded w] sample_prepare serving_def w sample_shutdown)
      (simp add: ready_daemon_def without_removal_def Let_def)
qed


end
