(* ===== verification/Entry.thy ===== *)
theory Entry
  imports Client_Proofs Daemon_Start
begin

text \<open>
  The entry point of the library (\<^verbatim>\<open>testcontainerd.go\<close>): the configuration and its validation, and the two
  modes in which a test binary runs, as a test process with a lease or as the daemon.
\<close>

section \<open>Configuration\<close>

record GlobalConfig =
  gl_Project :: string
  gl_RuntimePath :: string

record DaemonConfig =
  dn_Addr :: string
  dn_Token :: string
  dn_IdleTTL :: duration

record ClientConfig =
  cn_HTTPTimeout :: duration

record 'c Config =
  cf_Global :: GlobalConfig
  cf_Daemon :: DaemonConfig
  cf_Client :: ClientConfig
  cf_SUT :: "'c SUTBootPlan option"

text \<open>The user's registration function, \<open>None\<close> for nil, answers for a context and the history.\<close>

type_synonym 'c RegisterContainersFunc = "('c ctx \<Rightarrow> 'c history \<Rightarrow> go_error + 'c ContainerRegistration list) option"

record 'c TestContainerd =
  tc_cfg :: "'c Config"
  tc_registerContainers :: "'c RegisterContainersFunc"
  tc_registrations :: "'c ContainerRegistration list"

definition normalizeGlobal :: "string \<Rightarrow> GlobalConfig \<Rightarrow> GlobalConfig" where
  "normalizeGlobal tmp cfg =
     (let project0 = strings_TrimSpace (gl_Project cfg);
          project = (if project0 = [] then ''default'' else project0);
          runtimePath0 = strings_TrimSpace (gl_RuntimePath cfg);
          runtimePath = (if runtimePath0 = [] then DefaultRuntimePath tmp project else runtimePath0)
      in cfg\<lparr>gl_Project := project, gl_RuntimePath := runtimePath\<rparr>)"

fun validate_registrations :: "'c ContainerRegistration list \<Rightarrow> string list \<Rightarrow> go_error option" where
  "validate_registrations [] seen = None"
| "validate_registrations (reg # regs) seen =
     (let name = strings_TrimSpace (reg_Name reg) in
      if name = [] then Some (ErrorNew ''container registration name cannot be empty'')
      else case reg_Start reg of
             None \<Rightarrow> Some (ErrorNew (''container registration start cannot be nil: '' @ name))
           | Some start \<Rightarrow>
               if name \<in> set seen then Some (ErrorNew (''duplicated container name: '' @ name))
               else validate_registrations regs (name # seen))"

definition testcontainerd_New ::
  "'c os_env \<Rightarrow> 'c Config \<Rightarrow> 'c RegisterContainersFunc \<Rightarrow> 'c sys \<Rightarrow> go_error + 'c TestContainerd" where
  "testcontainerd_New os cfg0 registerContainers s =
     (let cfg = cfg0\<lparr>cf_Global := normalizeGlobal (os_TempDir os) (cf_Global cfg0)\<rparr> in
      if strings_TrimSpace (dn_Addr (cf_Daemon cfg)) = [] then Inl (ErrorNew ''daemon addr is required'')
      else if cn_HTTPTimeout (cf_Client cfg) \<le> 0 then Inl (ErrorNew ''client http timeout must be > 0'')
      else if dn_IdleTTL (cf_Daemon cfg) \<le> 0 then Inl (ErrorNew ''daemon idle ttl must be > 0'')
      else case registerContainers of
             None \<Rightarrow> Inl (ErrorNew ''registerContainers cannot be nil'')
           | Some f \<Rightarrow>
               (case f Background (sys_log s) of
                  Inl e \<Rightarrow> Inl e
                | Inr regs \<Rightarrow>
                    if regs = [] then Inl (ErrorNew ''container registrations cannot be empty'')
                    else case validate_registrations regs [] of
                           Some e \<Rightarrow> Inl e
                         | None \<Rightarrow> Inr \<lparr>tc_cfg = cfg, tc_registerContainers = registerContainers,
                                       tc_registrations = regs\<rparr>))"

definition RuntimePath :: "'c TestContainerd \<Rightarrow> string" where
  "RuntimePath t = gl_RuntimePath (cf_Global (tc_cfg t))"

section \<open>The daemon mode\<close>

text \<open>The first entry of the environment for the key counts; an absent variable is empty.\<close>

definition os_Getenv :: "string list \<Rightarrow> string \<Rightarrow> string" where
  "os_Getenv environ key =
     (case map_of (List.map_filter (split_two (CHR ''='')) environ) key of None \<Rightarrow> [] | Some v \<Rightarrow> v)"

definition daemon_config :: "string list \<Rightarrow> 'c TestContainerd \<Rightarrow> 'c daemon_Config" where
  "daemon_config environ t =
     (let cfg = tc_cfg t;
          dcfg = \<lparr>dc_Addr = dn_Addr (cf_Daemon cfg), dc_Token = dn_Token (cf_Daemon cfg),
                  dc_Project = gl_Project (cf_Global cfg), dc_RuntimePath = gl_RuntimePath (cf_Global cfg),
                  dc_IdleTTL = dn_IdleTTL (cf_Daemon cfg), dc_SUT = cf_SUT cfg\<rparr>;
          v = strings_TrimSpace (os_Getenv environ EnvTCDRuntime)
      in if v \<noteq> [] then dcfg\<lparr>dc_RuntimePath := v\<rparr> else dcfg)"

text \<open>
  \<open>ctx\<close> is the context that the two signals cancel; \<open>inputs\<close>, \<open>serveErr\<close> and \<open>late\<close> are those of \<open>daemon_Start\<close>. The
  clock is read once for the generated token and the start time, which the code reads right after one
  another.
\<close>

definition load_registrations :: "'c ctx \<Rightarrow> 'c TestContainerd \<Rightarrow> 'c history \<Rightarrow> (go_error + 'c ContainerRegistration list) option" where
  "load_registrations ctx t h =
     (case tc_registerContainers t of
        None \<Rightarrow> None
      | Some f \<Rightarrow> if tc_registrations t = [] then Some (f ctx h) else Some (Inr (tc_registrations t)))"

definition runDaemonMode ::
  "'c world \<Rightarrow> 'c docker_env \<Rightarrow> 'c start_env \<Rightarrow> 'c ctx \<Rightarrow> 'c input list \<Rightarrow> go_error \<Rightarrow> bool \<Rightarrow> 'c TestContainerd \<Rightarrow> 'c sys \<Rightarrow>
   (int \<times> 'c sys) option" where
  "runDaemonMode w dk se ctx inputs serveErr late t s =
     (let os = w_os w in
      case load_registrations ctx t (sys_log s) of
        None \<Rightarrow> Some (1, s)
      | Some (Inl e) \<Rightarrow> Some (1, s)
      | Some (Inr regs) \<Rightarrow>
          (let now = os_now os (sys_log s) in
           case daemon_New (os_TempDir os) (time_UnixNano now) now (daemon_config (os_environ os) t) regs s of
             Inl e \<Rightarrow> Some (1, s)
           | Inr d \<Rightarrow>
               map_option (\<lambda>(err, d'). (if err = None then 0 else 1, dm_sys d'))
                 (daemon_Start w dk se ctx inputs serveErr late d)))"

section \<open>The client mode\<close>

text \<open>
  The tests, \<open>None\<close> for nil, give an exit code. The heartbeat goroutine runs beside the main one, which neither waits
  for it nor takes a heartbeat under way back: its signals come while the tests run, after \<open>stopHB\<close> until the release is sent,
  and from then until the process ends.
\<close>

type_synonym 'c Runnable = "('c history \<Rightarrow> int) option"

record hb_schedule =
  hs_testing :: "hb_signal list"
  hs_stopped :: "hb_signal list"
  hs_released :: "hb_signal list"

definition with_lease ::
  "'c http_env \<Rightarrow> Client \<Rightarrow> LeaseInfo \<Rightarrow> ('c history \<Rightarrow> int) \<Rightarrow> hb_schedule \<Rightarrow> 'c sys \<Rightarrow> int \<times> 'c sys" where
  "with_lease he c lease run hs s =
     (let leaseID = li_LeaseID lease;
          (hb1, s1) = heartbeat_goroutine he c leaseID (hs_testing hs) StartHeartbeat s;
          code = run (sys_log s1);
          s2 = emit (TestsRun code) s1;
          (hb3, s3) = heartbeat_goroutine he c leaseID (hs_stopped hs) (stopHB hb1) s2;
          s4 = snd (Release he c leaseID code s3)
      in (code, snd (heartbeat_goroutine he c leaseID (hs_released hs) hb3 s4)))"

definition client_config :: "'c TestContainerd \<Rightarrow> client_Config" where
  "client_config t = \<lparr>cc_Project = gl_Project (cf_Global (tc_cfg t)),
     cc_RuntimePath = gl_RuntimePath (cf_Global (tc_cfg t)),
     cc_HTTPTimeout = cn_HTTPTimeout (cf_Client (tc_cfg t))\<rparr>"

definition runClientMode ::
  "goos \<Rightarrow> 'c os_env \<Rightarrow> 'c fs_env \<Rightarrow> 'c http_env \<Rightarrow> hb_schedule \<Rightarrow> 'c TestContainerd \<Rightarrow> 'c Runnable \<Rightarrow> 'c sys \<Rightarrow>
   (int \<times> 'c sys) option" where
  "runClientMode g os fs he hs t m s =
     (case m of
        None \<Rightarrow> Some (1, s)
      | Some run \<Rightarrow>
          (case client_New g os fs (client_config t) s of
             None \<Rightarrow> None
           | Some (Inl e, s1) \<Rightarrow> Some (1, s1)
           | Some (Inr c, s1) \<Rightarrow>
               (case Acquire he c s1 of
                  (Inl e, s2) \<Rightarrow> Some (1, s2)
                | (Inr lease, s2) \<Rightarrow> Some (with_lease he c lease run hs s2))))"

definition Run ::
  "'c world \<Rightarrow> 'c docker_env \<Rightarrow> 'c start_env \<Rightarrow> 'c ctx \<Rightarrow> 'c input list \<Rightarrow> go_error \<Rightarrow> bool \<Rightarrow>
   'c fs_env \<Rightarrow> 'c http_env \<Rightarrow> hb_schedule \<Rightarrow> 'c TestContainerd \<Rightarrow> 'c Runnable \<Rightarrow> 'c sys \<Rightarrow> (int \<times> 'c sys) option" where
  "Run w dk se ctx inputs serveErr late fs he hs t m s =
     (if os_Getenv (os_environ (w_os w)) EnvTCDMode = TCDModeDaemon
      then runDaemonMode w dk se ctx inputs serveErr late t s
      else runClientMode (w_goos w) (w_os w) fs he hs t m s)"

section \<open>Validation\<close>

lemma validate_registrations_eq: "validate_registrations regs seen = check_registrations regs seen"
  by (induction regs seen rule: validate_registrations.induct) (auto simp: Let_def split: option.split)

text \<open>
  C39. The two validations agree: a configuration whose other fields are in order gets past \<open>New\<close> exactly
  when \<^verbatim>\<open>container.NewBundle\<close> accepts its registrations, with the same error otherwise, so the daemon
  that is later made of an accepted configuration is made without an error, whatever its environment.
\<close>

theorem New_validates_like_NewBundle:
  assumes "strings_TrimSpace (dn_Addr (cf_Daemon cfg)) \<noteq> []" "0 < cn_HTTPTimeout (cf_Client cfg)"
    "0 < dn_IdleTTL (cf_Daemon cfg)" and "f Background (sys_log s) = Inr regs"
  shows "map_sum id tc_registrations (testcontainerd_New os cfg (Some f) s) = map_sum id bd_regs (NewBundle regs) \<and>
    (\<forall>t tmp nano now environ s'. testcontainerd_New os cfg (Some f) s = Inr t \<longrightarrow>
       (\<exists>d. daemon_New tmp nano now (daemon_config environ t) (tc_registrations t) s' = Inr d \<and> dm_regs d = regs))"
proof -
  have eq: "map_sum id tc_registrations (testcontainerd_New os cfg (Some f) s) = map_sum id bd_regs (NewBundle regs)"
    using assms by (simp add: testcontainerd_New_def NewBundle_def validate_registrations_eq Let_def split: option.split)
  have "\<exists>d. daemon_New tmp nano now (daemon_config environ t) (tc_registrations t) s' = Inr d \<and> dm_regs d = regs"
    if new: "testcontainerd_New os cfg (Some f) s = Inr t" for t tmp nano now environ s'
  proof -
    obtain b where "NewBundle regs = Inr b" using eq unfolding new by (cases "NewBundle regs") auto
    moreover have "tc_registrations t = regs"
      using new assms by (auto simp: testcontainerd_New_def Let_def split: if_splits option.splits)
    ultimately show ?thesis by (simp add: daemon_New_def Let_def)
  qed
  with eq show ?thesis by blast
qed

section \<open>The daemon a client starts\<close>

lemma Getenv_unique:
  assumes "CHR ''='' \<notin> set k" "\<And>v. k @ ''='' @ v \<in> set environ \<longleftrightarrow> v = w"
  shows "os_Getenv environ k = w"
proof -
  let ?ps = "List.map_filter (split_two (CHR ''='')) environ"
  have mem: "(k, v) \<in> set ?ps \<longleftrightarrow> k @ ''='' @ v \<in> set environ" for v
  proof -
    have "(k, v) \<in> set ?ps \<longleftrightarrow> (\<exists>e\<in>set environ. split_two (CHR ''='') e = Some (k, v))"
      by (induction environ) (auto simp: map_filter_simps split: option.split)
    moreover have "split_two (CHR ''='') e = Some (k, v) \<longleftrightarrow> e = k @ ''='' @ v" for e
      using split_two_append [OF assms(1), of v] split_two_Some [of "CHR ''=''" e k v] by auto
    ultimately show ?thesis by simp
  qed
  have "map_of ?ps k = Some w"
  proof (cases "map_of ?ps k")
    case None
    with mem [of w] assms(2) [of w] show ?thesis by (force simp: map_of_eq_None_iff)
  next
    case (Some v)
    with mem [of v] assms(2) [of v] show ?thesis by (auto dest: map_of_SomeD)
  qed
  then show ?thesis by (simp add: os_Getenv_def)
qed

lemma TrimSpace_DefaultRuntimePath:
  assumes "is_rooted tmp"
  shows "strings_TrimSpace (DefaultRuntimePath tmp p) = DefaultRuntimePath tmp p \<and> DefaultRuntimePath tmp p \<noteq> []"
proof -
  let ?s = "strings_Join [tmp, ''tcd'', sanitizeProject p] ''/''"
  let ?path = "strings_Join [tmp, ''tcd'', sanitizeProject p, ''runtime.json''] ''/''"
  have tmp: "tmp \<noteq> []" using assms by (auto simp: is_rooted_def strings_HasPrefix_def starts_with_def)
  have rooted: "is_rooted ?path"
    using assms by (cases tmp) (auto simp: is_rooted_def strings_HasPrefix_def starts_with_def)
  have path: "?path = ?s @ CHR ''/'' # ''runtime.json''" by simp
  have "split_byte (CHR ''/'') ?path = split_byte (CHR ''/'') ?s @ [''runtime.json'']"
    unfolding path split_byte_append by (simp add: split_byte_free)
  then have "\<exists>els. clean_elements ?path = els @ [''runtime.json'']"
    by (simp add: clean_elements_def rooted clean_element_def)
  then obtain els where "filepath_Clean ?path = render_path True (els @ [''runtime.json''])"
    using rooted by (auto simp: filepath_Clean_def)
  moreover have "DefaultRuntimePath tmp p = filepath_Clean ?path" using tmp by (simp add: DefaultRuntimePath_def)
  ultimately show ?thesis using TrimSpace_runtime_path [of els] by (simp add: render_rooted)
qed

lemma normalizeGlobal_path:
  assumes "is_rooted tmp"
  shows "strings_TrimSpace (gl_RuntimePath (normalizeGlobal tmp cfg)) = gl_RuntimePath (normalizeGlobal tmp cfg)"
    "gl_RuntimePath (normalizeGlobal tmp cfg) \<noteq> []"
  using TrimSpace_DefaultRuntimePath [OF assms] by (simp_all add: normalizeGlobal_def Let_def)

lemma default_path:
  "dc_RuntimePath (with_defaults tmp nano cfg) =
     (if dc_RuntimePath cfg = [] then DefaultRuntimePath tmp ''default'' else dc_RuntimePath cfg)"
  by (simp add: with_defaults_def Let_def)

lemma daemon_New_path:
  "daemon_New tmp nano now cfg regs s = Inr d \<Longrightarrow>
   dm_runtimePath d = (if dc_RuntimePath cfg = [] then DefaultRuntimePath tmp ''default'' else dc_RuntimePath cfg)"
  by (auto simp: daemon_New_def default_path Let_def split: sum.splits simp del: if_split)

text \<open>
  C14. The process that a client starts is the daemon the client waits for: when the system's directory for temporary files is an
  absolute path, a test binary that is run with the environment that \<^verbatim>\<open>buildDaemonCommand\<close> makes, whatever the environment of the
  client held and in whatever order Go iterates its maps, goes into the daemon mode, and its daemon writes the runtime file to
  the path that the client reads, also when its own configuration \<open>t'\<close> names another path.
\<close>

theorem started_process_is_daemon:
  assumes "testcontainerd_New os cfg reg s0 = Inr t" "is_rooted (os_TempDir os)"
    and "\<And>m. mset (iter m) = mset m"
    and "os_environ (w_os w) = mergeEnv iter environ (daemon_env (RuntimePath t))"
  shows "Run w dk se ctx inputs serveErr late fs he hs t' m s = runDaemonMode w dk se ctx inputs serveErr late t' s \<and>
    (\<forall>tmp nano now regs s d. daemon_New tmp nano now (daemon_config (os_environ (w_os w)) t') regs s = Inr d \<longrightarrow>
       dm_runtimePath d = RuntimePath t)"
proof -
  let ?env = "mergeEnv iter environ (daemon_env (RuntimePath t))"
  have dist: "distinct (map fst (daemon_env (RuntimePath t)))"
    and keys: "\<forall>kv\<in>set (daemon_env (RuntimePath t)). CHR ''='' \<notin> set (fst kv)"
    and free: "CHR ''='' \<notin> set EnvTCDMode" "CHR ''='' \<notin> set EnvTCDRuntime"
    and look: "map_of (daemon_env (RuntimePath t)) EnvTCDMode = Some TCDModeDaemon"
      "map_of (daemon_env (RuntimePath t)) EnvTCDRuntime = Some (RuntimePath t)"
    by (simp_all add: daemon_env_def EnvTCDMode_def EnvTCDRuntime_def)
  have mode: "os_Getenv ?env EnvTCDMode = TCDModeDaemon"
    by (rule Getenv_unique [OF free(1)]) (use mergeEnv_exact [OF assms(3) dist keys free(1)] look(1) in simp)
  have path: "os_Getenv ?env EnvTCDRuntime = RuntimePath t"
    by (rule Getenv_unique [OF free(2)]) (use mergeEnv_exact [OF assms(3) dist keys free(2)] look(2) in simp)
  have "RuntimePath t = gl_RuntimePath (normalizeGlobal (os_TempDir os) (cf_Global cfg))"
    using assms(1) by (auto simp: testcontainerd_New_def RuntimePath_def Let_def split: if_splits option.splits sum.splits)
  then have trim: "strings_TrimSpace (RuntimePath t) = RuntimePath t" "RuntimePath t \<noteq> []"
    using normalizeGlobal_path [OF assms(2)] by simp_all
  have "dc_RuntimePath (daemon_config (os_environ (w_os w)) t') = RuntimePath t"
    by (simp add: daemon_config_def assms(4) path trim Let_def)
  then have "dm_runtimePath d = RuntimePath t"
    if "daemon_New tmp nano now (daemon_config (os_environ (w_os w)) t') regs s = Inr d" for tmp nano now regs s d
    using daemon_New_path [OF that] trim(2) by simp
  with mode show ?thesis by (simp add: Run_def assms(4))
qed

section \<open>The order of things in the client mode\<close>

lemma http_call_log:
  "sys_log (snd (http_call he c dec meth path body s)) =
     (if he_NewRequest he (cl_baseURL c @ path) = None then [HttpSent meth path] else []) @ sys_log s"
  by (auto simp: http_call_def Let_def split: option.split sum.split prod.split)

lemma client_error_log [simp]: "snd (client_error x) = snd x"
  by (cases x) (auto simp: client_error_def split: sum.split)

text \<open>The heartbeats that as many ticks send, if the requests can be made at all.\<close>

abbreviation beat :: "'c event" where
  "beat \<equiv> HttpSent MethodPost PathHeartbeat"

definition beats_of :: "'c http_env \<Rightarrow> Client \<Rightarrow> hb_signal list \<Rightarrow> 'c event list" where
  "beats_of he c sigs =
     (if he_NewRequest he (cl_baseURL c @ PathHeartbeat) = None then replicate (count_list sigs HbTick) beat else [])"

definition until_cancelled :: "hb_signal list \<Rightarrow> hb_signal list" where
  "until_cancelled sigs = takeWhile (\<lambda>x. x \<noteq> HbCancelled) sigs"

lemma beats_of_simps [simp]:
  "beats_of he c [] = []" "beats_of he c (HbCancelled # sigs) = beats_of he c sigs"
  by (simp_all add: beats_of_def)

lemma beats_of_tick:
  "beats_of he c (HbTick # sigs) = beats_of he c sigs @ (if he_NewRequest he (cl_baseURL c @ PathHeartbeat) = None then [beat] else [])"
  by (simp add: beats_of_def replicate_append_same)

lemma heartbeat_goroutine_state:
  "fst (heartbeat_goroutine he c i sigs hb s) = hb\<lparr>hb_running := hb_running hb \<and> \<not> (hb_cancelled hb \<and> HbCancelled \<in> set sigs)\<rparr>"
  by (induction he c i sigs hb s rule: heartbeat_goroutine.induct) auto

lemma heartbeat_goroutine_log:
  "sys_log (snd (heartbeat_goroutine he c i sigs hb s)) =
     (if \<not> hb_running hb then [] else if hb_cancelled hb then beats_of he c (until_cancelled sigs) else beats_of he c sigs) @ sys_log s"
proof (induction he c i sigs hb s rule: heartbeat_goroutine.induct)
  case (3 he c i sigs hb s)
  then show ?case by (auto simp: until_cancelled_def beats_of_tick Heartbeat_def post_def http_call_log)
qed (auto simp: until_cancelled_def)

text \<open>
  C13. The life of a test process: its exit code is that of its tests when they run at all, whatever the release
  answers, and 1 when no daemon is found or no lease is granted. The tests run once, after the lease was granted, and every tick
  while they run sends a heartbeat. After them the heartbeat is cancelled, and then the release of the lease that was granted is
  sent, once. The goroutine of the heartbeat is not waited for: what it still sends before the release are the ticks that it takes before
  the cancellation; nothing follows the release when it has taken the cancellation by then, and otherwise only such
  heartbeats do.
\<close>

theorem client_mode_order:
  assumes "runClientMode g os fs he hs t (Some run) s = Some (code, s')"
  shows "\<exists>r s1. client_New g os fs (client_config t) s = Some (r, s1) \<and>
    (case r of
       Inl e \<Rightarrow> code = 1 \<and> s' = s1
     | Inr c \<Rightarrow>
         (case Acquire he c s1 of
            (Inl e, s2) \<Rightarrow> code = 1 \<and> s' = s2
          | (Inr lease, s2) \<Rightarrow>
              \<exists>s3 s4. code = run (beats_of he c (hs_testing hs) @ sys_log s2) \<and>
                sys_log s3 = beats_of he c (until_cancelled (hs_stopped hs)) @ TestsRun code # beats_of he c (hs_testing hs) @ sys_log s2 \<and>
                s4 = snd (Release he c (li_LeaseID lease) code s3) \<and>
                sys_log s4 = (if he_NewRequest he (cl_baseURL c @ PathRelease) = None then [HttpSent MethodPost PathRelease] else []) @ sys_log s3 \<and>
                sys_log s' = (if HbCancelled \<in> set (hs_stopped hs) then [] else beats_of he c (until_cancelled (hs_released hs))) @ sys_log s4))"
proof -
  from assms obtain r s1 where new: "client_New g os fs (client_config t) s = Some (r, s1)"
    by (auto simp: runClientMode_def split: option.splits)
  show ?thesis
  proof (cases r)
    case (Inl e)
    with assms new show ?thesis by (simp add: runClientMode_def)
  next
    case (Inr c)
    obtain x s2 where acq: "Acquire he c s1 = (x, s2)" by fastforce
    show ?thesis
    proof (cases x)
      case (Inl e)
      with assms new Inr acq show ?thesis by (simp add: runClientMode_def)
    next
      case lease: (Inr lease)
      let ?i = "li_LeaseID lease"
      obtain hb1 s2' where one: "heartbeat_goroutine he c ?i (hs_testing hs) StartHeartbeat s2 = (hb1, s2')" by fastforce
      obtain hb3 s3 where two: "heartbeat_goroutine he c ?i (hs_stopped hs) (stopHB hb1) (emit (TestsRun (run (sys_log s2'))) s2') = (hb3, s3)"
        by fastforce
      have hb1: "hb1 = StartHeartbeat" "sys_log s2' = beats_of he c (hs_testing hs) @ sys_log s2"
        using heartbeat_goroutine_state [of he c ?i "hs_testing hs" StartHeartbeat s2]
          heartbeat_goroutine_log [of he c ?i "hs_testing hs" StartHeartbeat s2] one by (simp_all add: StartHeartbeat_def)
      have hb3: "hb3 = \<lparr>hb_running = HbCancelled \<notin> set (hs_stopped hs), hb_cancelled = True\<rparr>"
        "sys_log s3 = beats_of he c (until_cancelled (hs_stopped hs)) @ TestsRun (run (sys_log s2')) # sys_log s2'"
        using heartbeat_goroutine_state [of he c ?i "hs_stopped hs" "stopHB hb1" "emit (TestsRun (run (sys_log s2'))) s2'"]
          heartbeat_goroutine_log [of he c ?i "hs_stopped hs" "stopHB hb1" "emit (TestsRun (run (sys_log s2'))) s2'"] two
        by (simp_all add: hb1(1) stopHB_def StartHeartbeat_def)
      have "with_lease he c lease run hs s2 = (code, s')"
        using assms new Inr acq lease by (simp add: runClientMode_def)
      then have code: "code = run (sys_log s2')"
        and s': "s' = snd (heartbeat_goroutine he c ?i (hs_released hs) hb3 (snd (Release he c ?i code s3)))"
        using one two by (auto simp: with_lease_def Let_def)
      have "sys_log (snd (Release he c ?i code s3)) =
          (if he_NewRequest he (cl_baseURL c @ PathRelease) = None then [HttpSent MethodPost PathRelease] else []) @ sys_log s3"
        by (simp add: Release_def post_def http_call_log)
      moreover have "sys_log s' = (if HbCancelled \<in> set (hs_stopped hs) then [] else beats_of he c (until_cancelled (hs_released hs))) @
          sys_log (snd (Release he c ?i code s3))"
        by (simp add: s' heartbeat_goroutine_log hb3(1))
      moreover have "code = run (beats_of he c (hs_testing hs) @ sys_log s2)" by (simp add: code hb1(2))
      moreover have "sys_log s3 = beats_of he c (until_cancelled (hs_stopped hs)) @ TestsRun code # beats_of he c (hs_testing hs) @ sys_log s2"
        by (simp add: hb3(2) hb1(2) code)
      ultimately have whole: "\<exists>s3 s4. code = run (beats_of he c (hs_testing hs) @ sys_log s2) \<and>
          sys_log s3 = beats_of he c (until_cancelled (hs_stopped hs)) @ TestsRun code # beats_of he c (hs_testing hs) @ sys_log s2 \<and>
          s4 = snd (Release he c ?i code s3) \<and>
          sys_log s4 = (if he_NewRequest he (cl_baseURL c @ PathRelease) = None then [HttpSent MethodPost PathRelease] else []) @ sys_log s3 \<and>
          sys_log s' = (if HbCancelled \<in> set (hs_stopped hs) then [] else beats_of he c (until_cancelled (hs_released hs))) @ sys_log s4"
        by blast
      show ?thesis
        by (intro exI [of _ r] exI [of _ s1] conjI new) (use whole in \<open>simp only: Inr acq lease sum.case prod.case\<close>)
    qed
  qed
qed

section \<open>Examples\<close>

definition sample_config :: "nat Config" where
  "sample_config = \<lparr>cf_Global = \<lparr>gl_Project = ''shop'', gl_RuntimePath = ''/r.json''\<rparr>,
     cf_Daemon = \<lparr>dn_Addr = ''127.0.0.1:0'', dn_Token = ''7'', dn_IdleTTL = 15 * time_Second\<rparr>,
     cf_Client = \<lparr>cn_HTTPTimeout = 5 * time_Second\<rparr>, cf_SUT = Some sample_plan\<rparr>"

definition sample_tc :: "nat TestContainerd" where
  "sample_tc = \<lparr>tc_cfg = sample_config, tc_registerContainers = Some (\<lambda>ctx h. Inr sample_regs), tc_registrations = sample_regs\<rparr>"

lemma sample_trims [simp]:
  "strings_TrimSpace ''/r.json'' = ''/r.json''" "strings_TrimSpace ''127.0.0.1:0'' = ''127.0.0.1:0''"
  by (simp_all add: TrimSpace_id space_byte_def space_runes_def)

theorem New_validates_like_NewBundle_witness:
  "\<exists>t d. testcontainerd_New sample_os sample_config (Some (\<lambda>ctx h. Inr sample_regs)) empty_sys = Inr t \<and>
     daemon_New ''/tmp'' 7 1 (daemon_config [] t) (tc_registrations t) empty_sys = Inr d"
proof -
  let ?f = "\<lambda>ctx h. Inr sample_regs :: go_error + nat ContainerRegistration list"
  have ok: "strings_TrimSpace (dn_Addr (cf_Daemon sample_config)) \<noteq> []" "0 < cn_HTTPTimeout (cf_Client sample_config)"
    "0 < dn_IdleTTL (cf_Daemon sample_config)" "?f Background (sys_log empty_sys) = Inr sample_regs"
    by (simp_all add: sample_config_def)
  note new = New_validates_like_NewBundle [OF ok, of sample_os]
  then have "map_sum id tc_registrations (testcontainerd_New sample_os sample_config (Some ?f) empty_sys) = Inr sample_regs"
    by (simp add: NewBundle_sample) (simp add: sample_bundle_def)
  then obtain t where "testcontainerd_New sample_os sample_config (Some ?f) empty_sys = Inr t"
    by (cases "testcontainerd_New sample_os sample_config (Some ?f) empty_sys") auto
  with new show ?thesis by blast
qed

lemma sample_tc_New: "testcontainerd_New sample_os sample_config (Some (\<lambda>ctx h. Inr sample_regs)) empty_sys = Inr sample_tc"
proof -
  have "check_registrations sample_regs [] = None"
    using NewBundle_sample by (simp add: NewBundle_def split: option.splits if_splits)
  moreover have "sample_regs \<noteq> []" by (simp add: sample_regs_def)
  ultimately show ?thesis
    by (simp add: testcontainerd_New_def validate_registrations_eq normalizeGlobal_def sample_tc_def sample_config_def)
qed

definition daemon_world :: "nat world" where
  "daemon_world = sample_world\<lparr>w_os := sample_os\<lparr>os_environ := mergeEnv rev [''TCD_MODE=client''] (daemon_env (RuntimePath sample_tc))\<rparr>\<rparr>"

definition idle_beats :: hb_schedule where
  "idle_beats = \<lparr>hs_testing = [], hs_stopped = [], hs_released = []\<rparr>"

text \<open>A daemon whose own configuration names another runtime file.\<close>

definition other_tc :: "nat TestContainerd" where
  "other_tc = sample_tc\<lparr>tc_cfg := sample_config\<lparr>cf_Global := \<lparr>gl_Project = ''shop'', gl_RuntimePath = ''/other.json''\<rparr>\<rparr>\<rparr>"

theorem started_process_is_daemon_witness:
  "Run daemon_world no_orphans sample_start Background [Interrupt] (ErrorNew ''accept'') True sample_fs wired idle_beats other_tc None empty_sys =
     runDaemonMode daemon_world no_orphans sample_start Background [Interrupt] (ErrorNew ''accept'') True other_tc empty_sys \<and>
   RuntimePath other_tc = ''/other.json'' \<and>
   (\<exists>d. daemon_New ''/tmp'' 7 1 (daemon_config (os_environ (w_os daemon_world)) other_tc) sample_regs empty_sys = Inr d \<and>
      dm_runtimePath d = ''/r.json'')"
proof -
  have "is_rooted (os_TempDir sample_os)" by (simp add: is_rooted_def strings_HasPrefix_def starts_with_def)
  moreover have "os_environ (w_os daemon_world) = mergeEnv rev [''TCD_MODE=client''] (daemon_env (RuntimePath sample_tc))"
    by (simp add: daemon_world_def)
  moreover obtain d where "daemon_New ''/tmp'' 7 1 (daemon_config (os_environ (w_os daemon_world)) other_tc) sample_regs empty_sys = Inr d"
    by (auto simp: daemon_New_def NewBundle_sample Let_def)
  moreover have "RuntimePath other_tc = ''/other.json''" "RuntimePath sample_tc = ''/r.json''"
    by (simp_all add: RuntimePath_def other_tc_def sample_tc_def sample_config_def)
  ultimately show ?thesis using started_process_is_daemon [OF sample_tc_New, of rev daemon_world _ _ _ _ _ _ _ _ _ _ other_tc] by auto
qed

definition calm_http :: "nat http_env" where
  "calm_http = wired\<lparr>he_Do := (\<lambda>h t q. Inr (200, ''x''))\<rparr>"

definition sample_beats_run :: hb_schedule where
  "sample_beats_run = \<lparr>hs_testing = [HbTick, HbTick], hs_stopped = [HbTick], hs_released = [HbTick, HbCancelled, HbTick]\<rparr>"

text \<open>A heartbeat after the tests and one after the release, then the goroutine takes the cancellation.\<close>

theorem client_mode_order_witness:
  "\<exists>s' rest. runClientMode Unix sample_os sample_fs calm_http sample_beats_run sample_tc (Some (\<lambda>h. 3)) empty_sys = Some (3, s') \<and>
     sys_log s' = beat # HttpSent MethodPost PathRelease # beat # TestsRun 3 # beat # beat # rest"
proof -
  have cfg: "client_config sample_tc = cl_cfg sample_client"
    by (simp add: client_config_def sample_tc_def sample_config_def sample_client_def)
  obtain c s1 where new: "client_New Unix sample_os sample_fs (client_config sample_tc) empty_sys = Some (Inr c, s1)"
    using sample_connect by (auto simp: client_New_def cfg Let_def sample_client_def)
  have acq: "Acquire calm_http c s1 = (Inr \<lparr>li_LeaseID = ''x'', li_AcquiredAt = 21\<rparr>, emit (HttpSent MethodPost PathAcquire) s1)"
    by (simp add: Acquire_def post_def http_call_def calm_http_def wired_def Let_def)
  obtain code s' where run: "runClientMode Unix sample_os sample_fs calm_http sample_beats_run sample_tc (Some (\<lambda>h. 3)) empty_sys = Some (code, s')"
    by (cases "with_lease calm_http c \<lparr>li_LeaseID = ''x'', li_AcquiredAt = 21\<rparr> (\<lambda>h. 3) sample_beats_run
          (emit (HttpSent MethodPost PathAcquire) s1)") (simp add: runClientMode_def new acq)
  have "he_NewRequest calm_http u = None" for u by (simp add: calm_http_def wired_def)
  with client_mode_order [OF run] run new acq show ?thesis
    by (auto simp: sample_beats_run_def beats_of_def until_cancelled_def numeral_2_eq_2)
qed

end
