(* ===== verification/Examples.thy ===== *)
theory Examples
  imports Entry
begin

text \<open>
  The example that the repository ships (\<^verbatim>\<open>examples/\<close>): its registrations, its boot plan, its configuration and
  the entry point of its test packages, and that the library accepts them.
\<close>

section \<open>The example program\<close>

definition RegisterContainers :: "'c ctx \<Rightarrow> 'c history \<Rightarrow> go_error + 'c ContainerRegistration list" where
  "RegisterContainers ctx h =
     Inr [\<lparr>reg_Name = ''redis-main'', reg_Start = Some (\<lambda>h'. (None, None)), reg_Init = None\<rparr>]"

text \<open>\<open>go\<close> is the path to which \<^verbatim>\<open>exec.Command\<close> resolves the name of the Go tool.\<close>

definition version_command :: "'c os_env \<Rightarrow> string \<Rightarrow> exec_Cmd" where
  "version_command os go =
     \<lparr>cmd_Path = go, cmd_Args = [''go'', ''version''], cmd_Dir = os_TempDir os, cmd_Env = [], cmd_Output = None,
      cmd_Setpgid = False, cmd_Process = None\<rparr>"

definition newSUTBootPlan :: "'c os_env \<Rightarrow> string \<Rightarrow> 'c SUTBootPlan" where
  "newSUTBootPlan os go =
     \<lparr>bp_IsEnable = False, bp_IdleTTL = 2 * time_Second, bp_ReadyTimeout = 8 * time_Second,
      bp_GracePeriod = 4 * time_Second, bp_GetCommand = (\<lambda>h inp. (Some (version_command os go), None)),
      bp_ProbeAddrs = []\<rparr>"

definition example_config :: "'c os_env \<Rightarrow> string \<Rightarrow> 'c Config" where
  "example_config os go =
     \<lparr>cf_Global = \<lparr>gl_Project = ''mssiot_user'', gl_RuntimePath = []\<rparr>,
      cf_Daemon = \<lparr>dn_Addr = ''127.0.0.1:0'', dn_Token = [], dn_IdleTTL = 36 * time_Second\<rparr>,
      cf_Client = \<lparr>cn_HTTPTimeout = 1 * time_Minute\<rparr>, cf_SUT = Some (newSUTBootPlan os go)\<rparr>"

definition example_Run ::
  "'c world \<Rightarrow> 'c docker_env \<Rightarrow> 'c start_env \<Rightarrow> 'c ctx \<Rightarrow> 'c input list \<Rightarrow> go_error \<Rightarrow> bool \<Rightarrow>
   'c fs_env \<Rightarrow> 'c http_env \<Rightarrow> hb_schedule \<Rightarrow> string \<Rightarrow> 'c Runnable \<Rightarrow> 'c sys \<Rightarrow> (int \<times> 'c sys) option" where
  "example_Run w dk se ctx inputs serveErr late fs he hs go m s =
     (case testcontainerd_New (w_os w) (example_config (w_os w) go) (Some RegisterContainers) s of
        Inl e \<Rightarrow> Some (1, s)
      | Inr tcd \<Rightarrow> Run w dk se ctx inputs serveErr late fs he hs tcd m s)"

section \<open>It is accepted\<close>

lemma example_trims [simp]:
  "strings_TrimSpace ''mssiot_user'' = ''mssiot_user''" "strings_TrimSpace ''redis-main'' = ''redis-main''"
  by (simp_all add: TrimSpace_id space_byte_def space_runes_def)

lemma trim_empty [simp]: "strings_TrimSpace [] = []"
  by (simp add: TrimSpace_id)

lemma example_registrations:
  "\<exists>regs. RegisterContainers ctx h = Inr regs \<and> regs \<noteq> [] \<and> validate_registrations regs [] = None \<and> map reg_Name regs = [''redis-main'']"
  by (simp add: RegisterContainers_def)

lemma daemon_New_made:
  assumes "NewBundle regs = Inr b"
  shows "\<exists>d. daemon_New tmp nano now cfg regs s = Inr d \<and> dm_regs d = regs \<and> dm_cfg d = with_defaults tmp nano cfg \<and>
    dm_sut d = newSUTManager (dc_SUT (with_defaults tmp nano cfg))"
  by (simp add: daemon_New_def assms Let_def)

lemma example_daemon_config:
  assumes "cf_SUT (tc_cfg t) = Some plan" "dn_Token (cf_Daemon (tc_cfg t)) = []"
  shows "dc_Token (with_defaults tmp nano (daemon_config environ t)) = decimal nano"
    "dc_SUT (with_defaults tmp nano (daemon_config environ t)) = Some plan"
  using assms by (simp_all add: with_defaults_def daemon_config_def Let_def)

text \<open>
  The library accepts the example on every system: the test process goes on to \<^verbatim>\<open>Run\<close> with the runtime file of the project,
  and the daemon that is made of the configuration for the same path has the generated token, the one
  container, and a service that is switched off: to ensure it does nothing and reports no error.
\<close>

theorem example_is_accepted:
  "\<exists>t. example_Run w dk se ctx inputs serveErr late fs he hs go m s = Run w dk se ctx inputs serveErr late fs he hs t m s \<and>
     RuntimePath t = DefaultRuntimePath (os_TempDir (w_os w)) ''mssiot_user'' \<and>
     (\<exists>d. daemon_New tmp nano now (daemon_config environ t) (tc_registrations t) s' = Inr d \<and>
        map reg_Name (dm_regs d) = [''redis-main''] \<and> dc_Token (dm_cfg d) = decimal nano \<and>
        (\<forall>g os ctx'. ensureSUTStarted g os ctx' d = Some (None, d)))"
proof -
  obtain regs where regs: "RegisterContainers Background (sys_log s) = Inr regs" "regs \<noteq> []"
    "validate_registrations regs [] = None" "map reg_Name regs = [''redis-main'']"
    using example_registrations [of Background "sys_log s"] by (elim exE conjE) (rule that)
  let ?cfg = "(example_config (w_os w) go)\<lparr>cf_Global := normalizeGlobal (os_TempDir (w_os w)) (cf_Global (example_config (w_os w) go))\<rparr>"
  let ?t = "\<lparr>tc_cfg = ?cfg, tc_registerContainers = Some RegisterContainers, tc_registrations = regs\<rparr>"
  have new: "testcontainerd_New (w_os w) (example_config (w_os w) go) (Some RegisterContainers) s = Inr ?t"
    using regs by (simp add: testcontainerd_New_def example_config_def Let_def)
  have made: "NewBundle regs = Inr \<lparr>bd_started = False, bd_regs = regs, bd_startOrder = [], bd_cleanup = [], bd_containerBy = []\<rparr>"
    using regs by (simp add: NewBundle_def validate_registrations_eq)
  let ?c = "with_defaults tmp nano (daemon_config environ ?t)"
  have fields: "dc_Token ?c = decimal nano" "dc_SUT ?c = Some (newSUTBootPlan (w_os w) go)"
    by (simp_all add: example_daemon_config example_config_def)
  obtain d where d: "daemon_New tmp nano now (daemon_config environ ?t) (tc_registrations ?t) s' = Inr d"
    "dm_regs d = regs" "dm_cfg d = ?c" "dm_sut d = newSUTManager (dc_SUT ?c)"
    using daemon_New_made [OF made, of tmp nano now "daemon_config environ ?t" s'] by auto
  have "\<not> isEnabled (dm_sut d)"
    by (simp add: d(4) fields(2) isEnabled_def newSUTManager_def newSUTBootPlan_def)
  then have "ensureSUTStarted g os ctx' d = Some (None, d)" for g os ctx'
    by (simp add: ensureSUTStarted_def ensureStarted_def)
  moreover have "RuntimePath ?t = DefaultRuntimePath (os_TempDir (w_os w)) ''mssiot_user''"
    by (simp add: RuntimePath_def normalizeGlobal_def example_config_def Let_def)
  moreover have "example_Run w dk se ctx inputs serveErr late fs he hs go m s = Run w dk se ctx inputs serveErr late fs he hs ?t m s"
    by (simp add: example_Run_def new)
  moreover have "map reg_Name (dm_regs d) = [''redis-main'']" "dc_Token (dm_cfg d) = decimal nano"
    using d(2,3) regs(4) fields(1) by simp_all
  ultimately show ?thesis using d(1) by (intro exI [of _ ?t] exI [of _ d] conjI allI)
qed

end
