(* ===== verification/Container_Constants.thy ===== *)
theory Container_Constants
  imports Protocol
begin

text \<open>
  The names and ports of \<^verbatim>\<open>constant/container.go\<close> for registrations of the usual containers, and that the
  port references are well formed.
\<close>

definition ContainerTypeMySQL :: string where
  "ContainerTypeMySQL = ''mysql''"

definition ContainerTypeRedis :: string where
  "ContainerTypeRedis = ''redis''"

definition ContainerTypeMongo :: string where
  "ContainerTypeMongo = ''mongo''"

definition ContainerTypePulsar :: string where
  "ContainerTypePulsar = ''pulsar''"

definition PortNameMySQL :: string where
  "PortNameMySQL = ''mysql''"

definition PortNameRedis :: string where
  "PortNameRedis = ''redis''"

definition PortNameMongo :: string where
  "PortNameMongo = ''mongo''"

definition PortNameService :: string where
  "PortNameService = ''service''"

definition PortNameAdmin :: string where
  "PortNameAdmin = ''admin''"

definition PortRefMySQL :: string where
  "PortRefMySQL = ''3306/tcp''"

definition PortRefRedis :: string where
  "PortRefRedis = ''6379/tcp''"

definition PortRefMongo :: string where
  "PortRefMongo = ''27017/tcp''"

definition PortRefPulsar :: string where
  "PortRefPulsar = ''6650/tcp''"

definition PortRefAdmin :: string where
  "PortRefAdmin = ''8080/tcp''"

definition MetaKeyUser :: string where
  "MetaKeyUser = ''user''"

definition MetaKeyPassword :: string where
  "MetaKeyPassword = ''password''"

definition EnvMySQLUser :: string where
  "EnvMySQLUser = ''MYSQL_USER''"

definition EnvMySQLRootPassword :: string where
  "EnvMySQLRootPassword = ''MYSQL_ROOT_PASSWORD''"

definition EnvMySQLRootHost :: string where
  "EnvMySQLRootHost = ''MYSQL_ROOT_HOST''"

definition EnvMongoRootUsername :: string where
  "EnvMongoRootUsername = ''MONGO_INITDB_ROOT_USERNAME''"

definition EnvMongoRootPassword :: string where
  "EnvMongoRootPassword = ''MONGO_INITDB_ROOT_PASSWORD''"

definition DefaultRootUser :: string where
  "DefaultRootUser = ''root''"

definition DefaultRootPassword :: string where
  "DefaultRootPassword = ''pass''"

definition PulsarCommandBin :: string where
  "PulsarCommandBin = ''bin/pulsar''"

definition PulsarCommandStandalone :: string where
  "PulsarCommandStandalone = ''standalone''"

text \<open>A port reference is a port number and a protocol.\<close>

definition port_ref :: "string \<Rightarrow> (int \<times> string) option" where
  "port_ref ref =
     (case split_two (CHR ''/'') ref of
        None \<Rightarrow> None
      | Some (port, proto) \<Rightarrow> (case strconv_Atoi port of None \<Rightarrow> None | Some n \<Rightarrow> Some (n, proto)))"

lemma port_refs:
  "map port_ref [PortRefMySQL, PortRefRedis, PortRefMongo, PortRefPulsar, PortRefAdmin] =
     map (\<lambda>n. Some (n, ProtocolTCP)) [3306, 6379, 27017, 6650, 8080]"
  by (simp add: port_ref_def PortRefMySQL_def PortRefRedis_def PortRefMongo_def PortRefPulsar_def PortRefAdmin_def
      ProtocolTCP_def split_two_def strconv_Atoi_def is_digit_def digits_value_def starts_with_def Let_def)

lemma container_names_distinct:
  "distinct [ContainerTypeMySQL, ContainerTypeRedis, ContainerTypeMongo, ContainerTypePulsar]"
  "distinct [PortNameMySQL, PortNameRedis, PortNameMongo, PortNameService, PortNameAdmin]"
  by (simp_all add: ContainerTypeMySQL_def ContainerTypeRedis_def ContainerTypeMongo_def ContainerTypePulsar_def
      PortNameMySQL_def PortNameRedis_def PortNameMongo_def PortNameService_def PortNameAdmin_def)

end
