(* ===== verification/Spec2Isabelle.thy ===== *)
theory Spec2Isabelle
  imports Daemon_Interleaving Start_Race Examples Container_Constants
begin

text \<open>
  The test-container daemon (\<^verbatim>\<open>testcontainerd\<close>): the test binaries of a Go project share one daemon
  that starts their containers and their service under test once, hands out leases on them and stops everything when
  nobody holds a lease any more.

  The program. A test binary calls \<^verbatim>\<open>New\<close> and \<^verbatim>\<open>Run\<close> (\<^verbatim>\<open>testcontainerd.go\<close>). As a client it looks for the daemon of its
  project in the runtime file (\<^verbatim>\<open>tcdruntime/\<close>) and, when none answers, starts the same binary in the
  daemon mode, under a lock file (\<^verbatim>\<open>client/autostart.go\<close>). It acquires a lease over HTTP, keeps it alive by a
  heartbeat every second, runs the tests and releases it (\<^verbatim>\<open>client/client.go\<close>, \<^verbatim>\<open>heartbeat.go\<close>). The daemon
  (\<^verbatim>\<open>daemon/server.go\<close>, \<^verbatim>\<open>lifecycle.go\<close>) answers an acquire only after the containers
  (\<^verbatim>\<open>container/bundle.go\<close>) and the service (\<^verbatim>\<open>daemon/sut_manager.go\<close>) are up; its reaper drops expired leases
  (\<^verbatim>\<open>daemon/lease_store.go\<close>), stops the idle service and in the end the daemon. At its start it removes what a crashed
  predecessor left (\<^verbatim>\<open>daemon/cleanup.go\<close>).

  The outside world. What is not the program's own code, that is containers, callbacks of the user,
  processes, files, the clock, HTTP and JSON, is a parameter: a function of the \<open>history\<close> of all interactions so far
  (theory \<open>Effects\<close>), newest first, so it may answer differently each time. The model appends to the
  history what the code does, and the properties speak about it. Instants and durations are
  nanoseconds as integers; strings are byte strings; a Go map is an association list; errors are
  values of \<open>go_error\<close> in a sum or an option; a nil pointer is \<open>None\<close>. What the code relies on (a clock that
  does not go back, a codec that decodes what it encodes) is a named hypothesis of the properties that need it.

  Theories, in the order of the code.
  \<^item> \<open>Tcd_Prelude\<close>, \<open>Go_Strings\<close>: basic types, runs of step functions with the locales for invariants, decreasing weights and
    progress; the string functions of Go's library that the program calls.
  \<^item> \<open>Protocol\<close>: \<^verbatim>\<open>protocol/\<close> and the constants. \<open>Effects\<close>, \<open>History\<close>: the history, and what may be added to it.
  \<^item> \<open>Lease_Store\<close>: \<^verbatim>\<open>daemon/lease_store.go\<close>. The store refines one automaton per lease; a lease under
    heartbeats survives every sweep.
  \<^item> \<open>Start_Pool\<close>, \<open>Bundle\<close>, \<open>Bundle_Lifecycle\<close>: \<^verbatim>\<open>container/bundle.go\<close>. The workers, the closer and the collector of
    \<^verbatim>\<open>startAllContainers\<close> are actors of a step function, for every schedule; then validation, start, rollback and stop
    with the invariant of the bundle.
  \<^item> \<open>Runtime_Paths\<close>, \<open>Runtime_Files\<close>: \<^verbatim>\<open>tcdruntime/\<close>, paths, log files and the runtime file, whose write is
    atomic and whose content is read back.
  \<^item> \<open>Process_Control\<close>, \<open>Sut_Probe\<close>, \<open>Sut_Manager\<close>: \<^verbatim>\<open>daemon/process_control_*.go\<close> for both platforms and
    \<^verbatim>\<open>daemon/sut_manager.go\<close>: at most one process is alive, a stop is graceful first and then kills, the probe ends.
    \<open>live_pids\<close> are the processes that were started and neither seen to exit nor killed. A kill that the operating system
    refuses is only logged by the code, and its process is forgotten: it stays in \<open>live_pids\<close> and belongs to \<open>kill_failed\<close>, so
    "no process is alive" is \<open>live_pids h \<subseteq> kill_failed h\<close> in the properties.
  \<^item> \<open>Daemon\<close>, \<open>Daemon_Lifecycle\<close>: the daemon's record and its handlers, \<^verbatim>\<open>lifecycle.go\<close>, the reaper's tick and the
    shutdown, and what a granted and a refused request mean. \<open>Daemon_Runs\<close>, \<open>Daemon_Guarantees\<close>, \<open>Daemon_Reaper\<close>:
    sequences of requests, ticks and interrupts, with the invariant, the answers, the token check, and when the reaper
    may and when it must shut down.
  \<^item> \<open>Daemon_Interleaving\<close>: the acquire handlers, the reaper, the goroutine that waits for the interrupt and the other requests as
    goroutines that move between critical sections. The operations above are the runs without overlap; the counter of
    requests in flight is exact in every interleaving, and a request that is in flight keeps the reaper from stopping the
    environment. Three races of the code are shown as runs.
  \<^item> \<open>Cleanup\<close>, \<open>Daemon_Start\<close>: \<^verbatim>\<open>daemon/cleanup.go\<close>, and \<^verbatim>\<open>Daemon.Start\<close> from the log file to its return. \<^verbatim>\<open>Serve\<close>
    returns before the shutdown has removed the runtime file itself, so the result is given for both orders.
  \<^item> \<open>Autostart\<close>, \<open>Autostart_Proofs\<close>: \<^verbatim>\<open>client/autostart.go\<close>. Only the owner of the lock starts a daemon.
  \<^item> \<open>Start_Race\<close>: the same function taken by several processes at once, step by step on one lock file. There is at
    most one owner of the lock as long as no lock file gets 90 seconds old; without the bound there is a run with two.
    A round of a waiting process, as \<open>Autostart\<close> has it, is a run of these steps.
  \<^item> \<open>Client\<close>, \<open>Client_Proofs\<close>: \<^verbatim>\<open>client/client.go\<close> and the heartbeat; an acquire and a release taken through both codecs
    and the daemon's server.
  \<^item> \<open>Entry\<close>, \<open>Examples\<close>: \<^verbatim>\<open>testcontainerd.go\<close> with both modes, and the shipped example \<^verbatim>\<open>examples/\<close>. In the client mode the
    heartbeat goroutine is cancelled and not waited for: what it does during the tests, before the release and after it is
    given by three lists of signals.
  \<^item> \<open>Container_Constants\<close>: \<^verbatim>\<open>constant/container.go\<close>, names and ports for the users of the library.

  Functions and code. A definition has the name of the Go function it models, with a prefix where two packages or a HOL
  constant have the name (\<open>daemon_New\<close>, \<open>client_New\<close>, \<open>win_afterSUTStart\<close>); parts of a long function have names of
  their own (\<open>acquire_body\<close>, \<open>stop_locked\<close>, \<open>stop_waiting\<close>). Record fields have the names of the Go
  fields behind a prefix.

  Loops and bounds. Structural loops are \<open>fun\<close>. A loop that waits for the world is \<open>go_loop\<close>, whose value \<open>None\<close>
  means that it never returns; that it does return is proved under a clock that moves (\<open>waitSUTReady_terminates\<close>,
  \<open>autoStartDaemon_returns\<close>, \<open>cleanup_returns\<close>). The start pool runs along a schedule given as a
  list of actors; \<open>None\<close> means that the schedule stops before the pool is done, and \<open>start_pool_terminates\<close> bounds the
  steps and shows that some actor can always move until then. The requests a daemon serves are a list of
  inputs, of any length.

  Granularity of the interleaving. A step is a critical section of \<^verbatim>\<open>startMu\<close>, of the service manager or of the lease store, or an
  atomic operation; a start of the containers or of the service is one step, as the code holds the
  mutex over it. The wait of \<^verbatim>\<open>stop\<close> for the process and the shutdown's HTTP part are one step each. Of a state request only the
  snapshot of the service is a step, as its other critical sections read and change nothing.

  Not modelled. The HTTP server and client, the JSON codec, Docker and the operating system are parameters. Log lines that the code
  only prints are left out. The goroutine that waits for the started daemon process is not modelled, and a request is sent and answered
  at one point. In
  \<open>Start_Race\<close> the owner's wait for its daemon is one step and a failed removal of a runtime file that is left behind is an event
  of the daemon. The tests under \<^verbatim>\<open>test/\<close> are left out.
\<close>

end
